(* ===== verification/Prelude.thy ===== *)
theory Prelude
  imports Main "HOL-Library.Word" "HOL-Library.Monad_Syntax" "HOL-Library.Code_Target_Nat"
begin

text \<open>
  Shared vocabulary of the development: bytes and byte strings, \<open>usize\<close> arithmetic with
  its bound, \<open>Range<usize>\<close>, the slice accessors of the Rust standard library
  (\<open>get\<close>, \<open>windows\<close>, \<open>position\<close>), decimal printing, and two interfaces:
  \<^item> \<open>first_search\<close>, the contract "the least position that matches";
  \<^item> \<open>self_delimiting\<close>, the contract "decoding an encoding gives the value and the rest".
  The collection \<open>span_simps\<close> holds the facts about slices that component proofs use, and
  \<open>eval\<close> the equations by which \<open>simp\<close> runs the model on concrete input.
\<close>

named_theorems span_simps
named_theorems eval

section \<open>Bytes\<close>

text \<open>
  A Rust \<open>u8\<close> is an 8-bit word, a \<open>[u8]\<close> or \<open>Vec<u8>\<close> a list of them. A \<open>str\<close> is
  the list of its UTF-8 bytes. \<open>ascii\<close> is Rust's byte-string literal \<open>b"..."\<close>.
\<close>

type_synonym byte = "8 word"
type_synonym bytes = "byte list"

definition ascii :: "string \<Rightarrow> bytes" where
  "ascii s = map of_char s"

definition crlf :: bytes where
  "crlf = [13, 10]"

text \<open>\<open>u8::to_ascii_lowercase\<close> and \<open>[u8]::eq_ignore_ascii_case\<close>.\<close>

definition to_ascii_lowercase :: "byte \<Rightarrow> byte" where
  "to_ascii_lowercase c = (if 0x41 \<le> c \<and> c \<le> 0x5A then c + 0x20 else c)"

definition eq_ignore_ascii_case :: "bytes \<Rightarrow> bytes \<Rightarrow> bool" where
  "eq_ignore_ascii_case xs ys \<longleftrightarrow> map to_ascii_lowercase xs = map to_ascii_lowercase ys"

definition is_ascii_digit :: "byte \<Rightarrow> bool" where
  "is_ascii_digit c \<longleftrightarrow> 0x30 \<le> c \<and> c \<le> 0x39"

definition is_ascii_alphanumeric :: "byte \<Rightarrow> bool" where
  "is_ascii_alphanumeric c \<longleftrightarrow>
     is_ascii_digit c \<or> (0x41 \<le> c \<and> c \<le> 0x5A) \<or> (0x61 \<le> c \<and> c \<le> 0x7A)"

definition is_ascii_hexdigit :: "byte \<Rightarrow> bool" where
  "is_ascii_hexdigit c \<longleftrightarrow>
     is_ascii_digit c \<or> (0x41 \<le> c \<and> c \<le> 0x46) \<or> (0x61 \<le> c \<and> c \<le> 0x66)"

lemma length_ascii [simp]: "length (ascii s) = length s"
  by (simp add: ascii_def)

lemma length_crlf [simp]: "length crlf = 2"
  by (simp add: crlf_def)

lemma crlf_neq_Nil [simp]: "crlf \<noteq> []"
  by (simp add: crlf_def)

lemma eq_ignore_ascii_case_length: "eq_ignore_ascii_case xs ys \<Longrightarrow> length xs = length ys"
  unfolding eq_ignore_ascii_case_def by (drule arg_cong [of _ _ length]) simp

lemma to_ascii_lowercase_idem [simp]:
  "to_ascii_lowercase (to_ascii_lowercase c) = to_ascii_lowercase c"
proof (cases "0x41 \<le> c \<and> c \<le> 0x5A")
  case True
  then have "\<not> c + 0x20 \<le> 0x5A"
    by (simp add: word_le_nat_alt unat_word_ariths)
  with True show ?thesis by (simp add: to_ascii_lowercase_def)
qed (auto simp: to_ascii_lowercase_def)

section \<open>usize arithmetic\<close>

text \<open>
  \<open>usize\<close> is 64 bits wide, and no slice is longer than \<open>isize::MAX\<close> bytes. Offsets are
  natural numbers; \<open>checked_add\<close> is where the code tests the bound.
\<close>

definition usize_max :: nat where
  "usize_max = 2 ^ 64 - 1"

definition isize_max :: nat where
  "isize_max = 2 ^ 63 - 1"

definition checked_add :: "nat \<Rightarrow> nat \<Rightarrow> nat option" where
  "checked_add a b = (if a + b \<le> usize_max then Some (a + b) else None)"

definition usize_try_from :: "nat \<Rightarrow> nat option" where
  "usize_try_from n = (if n \<le> usize_max then Some n else None)"

abbreviation slice_ok :: "'a list \<Rightarrow> bool" where
  "slice_ok xs \<equiv> length xs \<le> isize_max"

lemma isize_lt_usize: "2 * isize_max < usize_max"
  by (simp add: isize_max_def usize_max_def)

lemma checked_add_Some_iff: "checked_add a b = Some c \<longleftrightarrow> c = a + b \<and> a + b \<le> usize_max"
  by (auto simp: checked_add_def)

lemma checked_add_ok: "a + b \<le> usize_max \<Longrightarrow> checked_add a b = Some (a + b)"
  by (simp add: checked_add_def)

lemma checked_add_slice: "slice_ok xs \<Longrightarrow> a + b \<le> Suc (length xs) \<Longrightarrow> checked_add a b = Some (a + b)"
  using isize_lt_usize by (simp add: checked_add_def isize_max_def)

section \<open>Ranges and slices\<close>

record span =
  sp_start :: nat
  sp_end :: nat

abbreviation rng :: "nat \<Rightarrow> nat \<Rightarrow> span" where
  "rng a b \<equiv> \<lparr>sp_start = a, sp_end = b\<rparr>"

definition span_len :: "span \<Rightarrow> nat" where
  "span_len r = sp_end r - sp_start r"

text \<open>\<open>Range::is_empty\<close>: not (start < end).\<close>

definition span_is_empty :: "span \<Rightarrow> bool" where
  "span_is_empty r \<longleftrightarrow> \<not> sp_start r < sp_end r"

text \<open>A range indexes a slice without panicking when it is ordered and ends inside it.\<close>

definition in_slice :: "'a list \<Rightarrow> span \<Rightarrow> bool" where
  "in_slice xs r \<longleftrightarrow> sp_start r \<le> sp_end r \<and> sp_end r \<le> length xs"

definition slice :: "'a list \<Rightarrow> span \<Rightarrow> 'a list" where
  "slice xs r = take (sp_end r - sp_start r) (drop (sp_start r) xs)"

definition get_range :: "'a list \<Rightarrow> span \<Rightarrow> 'a list option" where
  "get_range xs r = (if in_slice xs r then Some (slice xs r) else None)"

definition get_from :: "'a list \<Rightarrow> nat \<Rightarrow> 'a list option" where
  "get_from xs n = (if n \<le> length xs then Some (drop n xs) else None)"

definition get_at :: "'a list \<Rightarrow> nat \<Rightarrow> 'a option" where
  "get_at xs i = (if i < length xs then Some (xs ! i) else None)"

text \<open>Moving a range by the offset of the slice it was found in.\<close>

definition shift :: "nat \<Rightarrow> span \<Rightarrow> span" where
  "shift k r = rng (k + sp_start r) (k + sp_end r)"

lemma get_range_Some_iff: "get_range xs r = Some ys \<longleftrightarrow> in_slice xs r \<and> ys = slice xs r"
  by (auto simp: get_range_def)

lemma get_from_Some_iff: "get_from xs n = Some ys \<longleftrightarrow> n \<le> length xs \<and> ys = drop n xs"
  by (auto simp: get_from_def)

lemma get_at_Some_iff: "get_at xs i = Some x \<longleftrightarrow> i < length xs \<and> xs ! i = x"
  by (auto simp: get_at_def)

lemma length_slice [span_simps]: "in_slice xs r \<Longrightarrow> length (slice xs r) = span_len r"
  by (auto simp: in_slice_def slice_def span_len_def)

lemma slice_append [span_simps]: "slice (xs @ ys @ zs) (rng (length xs) (length xs + length ys)) = ys"
  by (simp add: slice_def)

lemma slice_shift [span_simps]: "k \<le> length xs \<Longrightarrow> slice xs (shift k r) = slice (drop k xs) r"
  by (simp add: slice_def shift_def add.commute)

lemma in_slice_shift [span_simps]:
  "k \<le> length xs \<Longrightarrow> in_slice xs (shift k r) \<longleftrightarrow> in_slice (drop k xs) r"
  by (auto simp: in_slice_def shift_def)

lemma slice_full [span_simps]: "slice xs (rng 0 (length xs)) = xs"
  by (simp add: slice_def)

lemma slice_prefix [span_simps]: "slice xs (rng 0 n) = take n xs"
  by (simp add: slice_def)

lemma slice_suffix [span_simps]: "slice xs (rng n (length xs)) = drop n xs"
  by (simp add: slice_def)

lemma slice_adjacent:
  "a \<le> b \<Longrightarrow> b \<le> c \<Longrightarrow> slice xs (rng a b) @ slice xs (rng b c) = slice xs (rng a c)"
proof -
  assume "a \<le> b" "b \<le> c"
  then have "drop b xs = drop (b - a) (drop a xs)" and "c - a = (b - a) + (c - b)"
    by simp_all
  then show ?thesis by (simp only: slice_def span.simps take_add)
qed

lemma slice_split:
  "a \<le> b \<Longrightarrow> b \<le> length xs \<Longrightarrow> xs = take a xs @ slice xs (rng a b) @ drop b xs"
proof -
  assume ab: "a \<le> b" "b \<le> length xs"
  then have "drop a xs = slice xs (rng a b) @ drop (b - a) (drop a xs)"
    by (simp add: slice_def del: drop_drop)
  with ab show ?thesis by (metis append_take_drop_id drop_drop le_add_diff_inverse2)
qed

lemma slice_slice:
  "a \<le> c \<Longrightarrow> c \<le> d \<Longrightarrow> d \<le> b \<Longrightarrow> slice xs (rng c d) = slice (slice xs (rng a b)) (rng (c - a) (d - a))"
proof -
  assume le: "a \<le> c" "c \<le> d" "d \<le> b"
  then have "d - a - (c - a) = d - c" "drop (c - a) (drop a xs) = drop c xs" "min (d - c) (b - c) = d - c"
      "b - a - (c - a) = b - c"
    by auto
  then show ?thesis by (simp add: slice_def drop_take take_take del: drop_drop)
qed

section \<open>windows and position\<close>

text \<open>
  \<open>xs.windows(k).position(p)\<close> for a window length \<open>k\<close> of at least one: the index of the
  first run of \<open>k\<close> elements that satisfies \<open>p\<close>.
\<close>

fun windows_position :: "nat \<Rightarrow> ('a list \<Rightarrow> bool) \<Rightarrow> 'a list \<Rightarrow> nat option" where
  "windows_position k p xs =
     (if length xs < k then None
      else if p (take k xs) then Some 0
      else (case xs of [] \<Rightarrow> None | _ # ys \<Rightarrow> map_option Suc (windows_position k p ys)))"

declare windows_position.simps [simp del]

text \<open>\<open>iter().position(p)\<close>: the index of the first element that satisfies \<open>p\<close>.\<close>

fun position :: "('a \<Rightarrow> bool) \<Rightarrow> 'a list \<Rightarrow> nat option" where
  "position p [] = None"
| "position p (x # xs) = (if p x then Some 0 else map_option Suc (position p xs))"

definition window_hit :: "nat \<Rightarrow> ('a list \<Rightarrow> bool) \<Rightarrow> 'a list \<Rightarrow> nat \<Rightarrow> bool" where
  "window_hit k p xs i \<longleftrightarrow> i + k \<le> length xs \<and> p (take k (drop i xs))"

definition occurs_at :: "'a list \<Rightarrow> 'a list \<Rightarrow> nat \<Rightarrow> bool" where
  "occurs_at needle xs i \<longleftrightarrow> i + length needle \<le> length xs \<and> take (length needle) (drop i xs) = needle"

text \<open>
  The interface of every search in the program: \<open>search\<close> returns the least position that
  is a \<open>hit\<close>, and nothing only when there is none. Completeness is promised for inputs
  that satisfy \<open>ok\<close> (a length that fits the machine, where offsets are added up).
\<close>

locale first_search =
  fixes search :: "'a list \<Rightarrow> nat option"
    and hit :: "'a list \<Rightarrow> nat \<Rightarrow> bool"
    and ok :: "'a list \<Rightarrow> bool"
  assumes search_hit: "search xs = Some i \<Longrightarrow> hit xs i"
    and search_least: "search xs = Some i \<Longrightarrow> j < i \<Longrightarrow> \<not> hit xs j"
    and search_complete: "ok xs \<Longrightarrow> search xs = None \<Longrightarrow> \<not> hit xs j"
begin

lemma search_None_iff: "ok xs \<Longrightarrow> search xs = None \<longleftrightarrow> (\<forall>j. \<not> hit xs j)"
  by (cases "search xs") (blast dest: search_complete search_hit)+

lemma search_Some_iff: "ok xs \<Longrightarrow> search xs = Some i \<longleftrightarrow> hit xs i \<and> (\<forall>j<i. \<not> hit xs j)"
proof
  assume "ok xs" and h: "hit xs i \<and> (\<forall>j<i. \<not> hit xs j)"
  then obtain m where m: "search xs = Some m"
    using search_complete by (cases "search xs") auto
  with h have "m = i"
    using search_hit [OF m] search_least [OF m] by (metis linorder_neqE_nat)
  with m show "search xs = Some i" by simp
qed (auto intro: search_hit dest: search_least)

lemma search_finds: "ok xs \<Longrightarrow> hit xs i \<Longrightarrow> \<exists>j\<le>i. search xs = Some j"
  using search_complete search_least by (cases "search xs") (auto simp: not_less [symmetric])

end

lemma windows_position_hit: "windows_position k p xs = Some i \<Longrightarrow> window_hit k p xs i"
proof (induction k p xs arbitrary: i rule: windows_position.induct)
  case (1 k p xs)
  then show ?case
    by (subst (asm) windows_position.simps)
       (auto simp: window_hit_def split: if_splits list.splits)
qed

lemma windows_position_least:
  "windows_position k p xs = Some i \<Longrightarrow> j < i \<Longrightarrow> \<not> window_hit k p xs j"
proof (induction k p xs arbitrary: i j rule: windows_position.induct)
  case (1 k p xs)
  from "1.prems" obtain y ys i' where eq: "xs = y # ys" "\<not> p (take k xs)" "\<not> length xs < k"
      "i = Suc i'" "windows_position k p ys = Some i'"
    by (subst (asm) windows_position.simps) (auto split: if_splits list.splits)
  show ?case
  proof (cases j)
    case 0
    with eq show ?thesis by (simp add: window_hit_def)
  next
    case (Suc j')
    with "1.IH" [OF _ _ eq(1)] eq "1.prems"(2) have "\<not> window_hit k p ys j'" by simp
    with Suc eq(1) show ?thesis by (simp add: window_hit_def)
  qed
qed

lemma windows_position_None: "windows_position k p xs = None \<Longrightarrow> \<not> window_hit k p xs j"
proof (induction k p xs arbitrary: j rule: windows_position.induct)
  case (1 k p xs)
  show ?case
  proof (cases xs)
    case Nil
    with "1.prems" show ?thesis
      by (subst (asm) windows_position.simps) (auto simp: window_hit_def split: if_splits)
  next
    case (Cons y ys)
    with "1.prems" have eq: "length xs < k \<or> \<not> p (take k xs) \<and> windows_position k p ys = None"
      by (subst (asm) windows_position.simps) (auto split: if_splits)
    with "1.IH" [OF _ _ Cons] have "\<not> length xs < k \<Longrightarrow> \<not> window_hit k p ys i" for i by blast
    with eq Cons show ?thesis by (cases j) (auto simp: window_hit_def)
  qed
qed

interpretation win: first_search "windows_position k p" "window_hit k p" "\<lambda>_. True" for k p
  by unfold_locales
     (auto intro: windows_position_hit dest: windows_position_least windows_position_None)

lemma window_hit_eq [simp]: "window_hit (length n) (\<lambda>w. w = n) xs i \<longleftrightarrow> occurs_at n xs i"
  by (auto simp: window_hit_def occurs_at_def)

lemma needle_search: "windows_position (length n) (\<lambda>w. w = n) xs =
    (if \<exists>i. occurs_at n xs i then Some (LEAST i. occurs_at n xs i) else None)"
proof (cases "windows_position (length n) (\<lambda>w. w = n) xs")
  case None
  then show ?thesis using win.search_complete [OF TrueI None] by simp
next
  case (Some i)
  have "occurs_at n xs i" "\<And>j. j < i \<Longrightarrow> \<not> occurs_at n xs j"
    using win.search_hit [OF Some] win.search_least [OF Some] by auto
  then have "(LEAST i. occurs_at n xs i) = i" by (intro Least_equality) (auto simp: not_less [symmetric])
  with Some \<open>occurs_at n xs i\<close> show ?thesis by auto
qed

lemma needle_search_Some: "windows_position (length n) (\<lambda>w. w = n) xs = Some i \<longleftrightarrow>
    occurs_at n xs i \<and> (\<forall>j<i. \<not> occurs_at n xs j)"
  by (simp add: win.search_Some_iff)

lemma position_Some_iff:
  "position p xs = Some i \<longleftrightarrow> i < length xs \<and> p (xs ! i) \<and> (\<forall>j<i. \<not> p (xs ! j))"
proof (induction xs arbitrary: i)
  case (Cons x xs)
  then show ?case by (cases i) (auto simp: All_less_Suc2)
qed simp

lemma position_None_iff: "position p xs = None \<longleftrightarrow> (\<forall>x \<in> set xs. \<not> p x)"
  by (induction xs) auto

lemma occurs_at_split:
  "occurs_at n xs i \<longleftrightarrow> (\<exists>pre post. xs = pre @ n @ post \<and> length pre = i)"
proof
  assume "occurs_at n xs i"
  then have "xs = take i xs @ n @ drop (i + length n) xs" and "length (take i xs) = i"
    by (auto simp: occurs_at_def) (metis append_take_drop_id drop_drop add.commute)
  then show "\<exists>pre post. xs = pre @ n @ post \<and> length pre = i" by blast
qed (auto simp: occurs_at_def)

lemma occurs_at_shift: "occurs_at n (xs @ ys) (length xs + i) \<longleftrightarrow> occurs_at n ys i"
  by (auto simp: occurs_at_def)

lemma occurs_at_drop: "occurs_at n (xs @ ys) j \<Longrightarrow> length xs \<le> j \<Longrightarrow> occurs_at n ys (j - length xs)"
  using occurs_at_shift [of n xs ys "j - length xs"] by simp

lemma occurs_at_cut: "occurs_at n xs i \<Longrightarrow> xs = take i xs @ n @ drop (i + length n) xs"
  by (auto simp: occurs_at_def) (metis append_take_drop_id drop_drop add.commute)

text \<open>Byte by byte, so that \<open>simp\<close> stops at the first difference.\<close>

lemma eq_ignore_ascii_case_simps [eval]:
  "eq_ignore_ascii_case [] []" "\<not> eq_ignore_ascii_case (x # xs) []" "\<not> eq_ignore_ascii_case [] (y # ys)"
  "eq_ignore_ascii_case (x # xs) (y # ys) =
     (if to_ascii_lowercase x = to_ascii_lowercase y then eq_ignore_ascii_case xs ys else False)"
  by (simp_all add: eq_ignore_ascii_case_def)

lemmas [eval] = ascii_def crlf_def to_ascii_lowercase_def is_ascii_digit_def
  is_ascii_alphanumeric_def is_ascii_hexdigit_def usize_max_def isize_max_def checked_add_def
  usize_try_from_def in_slice_def slice_def get_range_def get_from_def get_at_def shift_def
  span_len_def span_is_empty_def windows_position.simps Let_def

section \<open>Results\<close>

text \<open>A Rust \<open>Result\<close> is a sum, \<open>Inl\<close> the error. \<open>and_then\<close> is the \<open>?\<close> operator.\<close>

fun and_then :: "'e + 'a \<Rightarrow> ('a \<Rightarrow> 'e + 'b) \<Rightarrow> 'e + 'b" where
  "and_then (Inl e) _ = Inl e"
| "and_then (Inr x) f = f x"

fun map_err :: "('e \<Rightarrow> 'f) \<Rightarrow> 'e + 'a \<Rightarrow> 'f + 'a" where
  "map_err f (Inl e) = Inl (f e)"
| "map_err _ (Inr x) = Inr x"

definition ok_or :: "'a option \<Rightarrow> 'e \<Rightarrow> 'e + 'a" where
  "ok_or x e = (case x of None \<Rightarrow> Inl e | Some y \<Rightarrow> Inr y)"

lemma and_then_Inr_iff: "and_then r f = Inr y \<longleftrightarrow> (\<exists>x. r = Inr x \<and> f x = Inr y)"
  by (cases r) auto

lemma and_then_Inl_iff: "and_then r f = Inl e \<longleftrightarrow> r = Inl e \<or> (\<exists>x. r = Inr x \<and> f x = Inl e)"
  by (cases r) auto

lemma map_err_Inr_iff [simp]: "map_err f r = Inr y \<longleftrightarrow> r = Inr y"
  by (cases r) auto

lemma map_err_Inl_iff [simp]: "map_err f r = Inl e \<longleftrightarrow> (\<exists>d. r = Inl d \<and> e = f d)"
  by (cases r) auto

lemma ok_or_iff [simp]:
  "ok_or x e = Inr y \<longleftrightarrow> x = Some y" "ok_or x e = Inl d \<longleftrightarrow> x = None \<and> d = e"
  by (auto simp: ok_or_def split: option.splits)

lemma ok_or_simps [simp]: "ok_or None e = Inl e" "ok_or (Some y) e = Inr y"
  by (simp_all add: ok_or_def)

section \<open>Decimal printing\<close>

text \<open>\<open>{}\<close> of a \<open>usize\<close>.\<close>

fun decimal :: "nat \<Rightarrow> string" where
  "decimal n = (if n < 10 then [char_of (48 + n)] else decimal (n div 10) @ [char_of (48 + n mod 10)])"

declare decimal.simps [simp del]

section \<open>Self-delimiting encoders\<close>

text \<open>
  A byte encoder whose end can be found by reading forward: decoding an encoding followed
  by any bytes gives the value back and leaves exactly those bytes.
\<close>

locale self_delimiting =
  fixes enc :: "'v \<Rightarrow> bytes"
    and dec :: "bytes \<Rightarrow> ('v \<times> bytes) option"
    and valid :: "'v \<Rightarrow> bool"
  assumes dec_enc: "valid v \<Longrightarrow> dec (enc v @ rest) = Some (v, rest)"
begin

lemma enc_prefix_free: "valid v \<Longrightarrow> valid w \<Longrightarrow> enc v @ r = enc w @ s \<Longrightarrow> v = w \<and> r = s"
  by (metis dec_enc option.inject prod.inject)

lemma enc_inj: "valid v \<Longrightarrow> valid w \<Longrightarrow> enc v = enc w \<Longrightarrow> v = w"
  using enc_prefix_free by blast

end

text \<open>Decoding a known number of items one after the other.\<close>

fun dec_items :: "(bytes \<Rightarrow> ('v \<times> bytes) option) \<Rightarrow> nat \<Rightarrow> bytes \<Rightarrow> ('v list \<times> bytes) option" where
  "dec_items dec 0 bs = Some ([], bs)"
| "dec_items dec (Suc n) bs =
     (case dec bs of None \<Rightarrow> None
      | Some (v, rest) \<Rightarrow> (case dec_items dec n rest of None \<Rightarrow> None
                          | Some (vs, rest') \<Rightarrow> Some (v # vs, rest')))"

context self_delimiting
begin

lemma dec_items_enc:
  "\<forall>v \<in> set vs. valid v \<Longrightarrow> dec_items dec (length vs) (concat (map enc vs) @ rest) = Some (vs, rest)"
  by (induction vs) (simp_all add: dec_enc)

end

end
