(* ===== verification/Big_Endian.thy ===== *)
theory Big_Endian
  imports Prelude
begin

text \<open>
  Fixed-width big-endian integers: \<open>u32::to_be_bytes\<close>, \<open>u32::from_be_bytes\<close> and the reader
  that takes one from the front of a byte string. The wire protocol frames messages with
  them and the attested-data layout is made of them. Lemmas: width, round trip, and the
  interpretations of \<open>self_delimiting\<close> for 32-bit and 64-bit words and for counts.
\<close>

section \<open>Integers as bytes\<close>

fun be_bytes :: "nat \<Rightarrow> nat \<Rightarrow> bytes" where
  "be_bytes 0 n = []"
| "be_bytes (Suc k) n = be_bytes k (n div 256) @ [of_nat n]"

definition of_be :: "bytes \<Rightarrow> nat" where
  "of_be bs = foldl (\<lambda>acc b. 256 * acc + unat b) 0 bs"

lemma length_be_bytes [simp]: "length (be_bytes k n) = k"
  by (induction k n rule: be_bytes.induct) simp_all

lemma of_be_snoc: "of_be (bs @ [b]) = 256 * of_be bs + unat b"
  by (simp add: of_be_def)

lemma of_be_less: "of_be bs < 256 ^ length bs"
proof (induction bs rule: rev_induct)
  case (snoc b bs)
  have "unat b < 256" using unsigned_less [of b, where ?'a = nat] by simp
  with snoc show ?case by (simp add: of_be_snoc)
qed (simp add: of_be_def)

lemma of_be_be_bytes: "of_be (be_bytes k n) = n mod 256 ^ k"
proof (induction k arbitrary: n)
  case (Suc k)
  have "unat (of_nat n :: byte) = n mod 256" by (simp add: unat_of_nat)
  with Suc show ?case by (simp add: of_be_snoc mod_mult2_eq)
qed (simp add: of_be_def)

lemma be_bytes_of_be: "be_bytes (length bs) (of_be bs) = bs"
proof (induction bs rule: rev_induct)
  case (snoc b bs)
  have u: "unat b < 256" using unsigned_less [of b, where ?'a = nat] by simp
  have "(of_nat (256 * of_be bs + unat b) :: byte) = b"
  proof -
    have "(256 :: byte) = 0" by (simp add: word_unat_eq_iff unat_of_nat)
    then have "256 * w = 0" for w :: byte by (metis mult_zero_left)
    then show ?thesis by simp
  qed
  with snoc u show ?case by (simp add: of_be_snoc)
qed simp

lemma be_bytes_inj: "m < 256 ^ k \<Longrightarrow> n < 256 ^ k \<Longrightarrow> be_bytes k m = be_bytes k n \<Longrightarrow> m = n"
  by (metis of_be_be_bytes mod_less)

section \<open>Reading forward\<close>

definition take_exact :: "nat \<Rightarrow> bytes \<Rightarrow> (bytes \<times> bytes) option" where
  "take_exact n bs = (if n \<le> length bs then Some (take n bs, drop n bs) else None)"

lemma take_exact_append [simp]: "length xs = n \<Longrightarrow> take_exact n (xs @ rest) = Some (xs, rest)"
  by (simp add: take_exact_def)

definition dec_be :: "nat \<Rightarrow> bytes \<Rightarrow> (nat \<times> bytes) option" where
  "dec_be k bs = map_option (\<lambda>(xs, rest). (of_be xs, rest)) (take_exact k bs)"

definition dec_word :: "nat \<Rightarrow> bytes \<Rightarrow> ('a::len word \<times> bytes) option" where
  "dec_word k bs = map_option (\<lambda>(n, rest). (of_nat n, rest)) (dec_be k bs)"

interpretation be_count: self_delimiting "be_bytes k" "dec_be k" "\<lambda>n. n < 256 ^ k" for k
  by unfold_locales (simp add: dec_be_def of_be_be_bytes)

interpretation be_u32: self_delimiting "\<lambda>w. be_bytes 4 (unat (w :: 32 word))" "dec_word 4" "\<lambda>_. True"
proof unfold_locales
  fix v :: "32 word" and rest
  have "unat v < 256 ^ 4" using unsigned_less [of v, where ?'a = nat] by simp
  then show "dec_word 4 (be_bytes 4 (unat v) @ rest) = Some (v, rest)"
    by (simp add: dec_word_def be_count.dec_enc)
qed

interpretation be_u64: self_delimiting "\<lambda>w. be_bytes 8 (unat (w :: 64 word))" "dec_word 8" "\<lambda>_. True"
proof unfold_locales
  fix v :: "64 word" and rest
  have "unat v < 256 ^ 8" using unsigned_less [of v, where ?'a = nat] by simp
  then show "dec_word 8 (be_bytes 8 (unat v) @ rest) = Some (v, rest)"
    by (simp add: dec_word_def be_count.dec_enc)
qed

interpretation exact_bytes: self_delimiting "\<lambda>bs. bs" "take_exact n" "\<lambda>bs. length bs = n" for n
  by unfold_locales simp

lemma be_bytes_numeral [eval]:
  "be_bytes (numeral k) n = be_bytes (pred_numeral k) (n div 256) @ [of_nat n]"
  by (simp only: numeral_eq_Suc be_bytes.simps)

lemmas [eval] = of_be_def take_exact_def dec_be_def dec_word_def

end
