(* ===== verification/Attestation.thy ===== *)
theory Attestation
  imports Big_Endian
begin

text \<open>
  \<open>libid-ceremony/src/attestation.rs\<close>: the attested-data record and its encoder. The primitive
  writers of \<open>bincode\<close> and \<open>keccak256\<close> are arguments; \<open>big_endian_fixint\<close> is what the
  configuration \<open>WIRE\<close> selects. Lemmas: the encoding is the layout the module documents, and
  a forward decoder reads it back, block by block, from interpretations of \<open>self_delimiting\<close>.
\<close>

section \<open>The record\<close>

record revealed_range =
  rev_start :: "32 word"
  rev_bytes :: bytes

record range_commitment =
  com_start :: "32 word"
  com_end :: "32 word"
  com_commitment :: bytes

record direction_block =
  blk_revealed :: "revealed_range list"
  blk_commitments :: "range_commitment list"

record attested_data =
  authority_id :: bytes
  created_at :: "64 word"
  sent_transcript_length :: "32 word"
  recv_transcript_length :: "32 word"
  sent_block :: direction_block
  received_block :: direction_block

definition header_len :: nat where
  "header_len = 32 + 8 + 4 + 4"

text \<open>What the Rust types guarantee: 32-byte arrays and vectors no longer than a slice.\<close>

definition wf_revealed :: "revealed_range \<Rightarrow> bool" where
  "wf_revealed r \<longleftrightarrow> slice_ok (rev_bytes r)"

definition wf_commitment :: "range_commitment \<Rightarrow> bool" where
  "wf_commitment c \<longleftrightarrow> length (com_commitment c) = 32"

definition wf_block :: "direction_block \<Rightarrow> bool" where
  "wf_block b \<longleftrightarrow> slice_ok (blk_revealed b) \<and> slice_ok (blk_commitments b) \<and>
     list_all wf_revealed (blk_revealed b) \<and> list_all wf_commitment (blk_commitments b)"

definition wf_attested :: "attested_data \<Rightarrow> bool" where
  "wf_attested d \<longleftrightarrow> length (authority_id d) = 32 \<and> wf_block (sent_block d) \<and> wf_block (received_block d)"

section \<open>The encoder\<close>

record 'e bincode =
  w_u32 :: "32 word \<Rightarrow> 'e + bytes"
  w_u64 :: "64 word \<Rightarrow> 'e + bytes"
  w_len :: "nat \<Rightarrow> 'e + bytes"
  w_u8s :: "bytes \<Rightarrow> 'e + bytes"

text \<open>Fields in declaration order; the first error wins.\<close>

fun emit :: "('e + bytes) list \<Rightarrow> 'e + bytes" where
  "emit [] = Inr []"
| "emit (r # rs) = and_then r (\<lambda>a. and_then (emit rs) (\<lambda>b. Inr (a @ b)))"

definition encode_vec :: "'e bincode \<Rightarrow> ('a \<Rightarrow> 'e + bytes) \<Rightarrow> 'a list \<Rightarrow> 'e + bytes" where
  "encode_vec cfg item xs = emit (w_len cfg (length xs) # map item xs)"

definition encode_revealed_range :: "'e bincode \<Rightarrow> revealed_range \<Rightarrow> 'e + bytes" where
  "encode_revealed_range cfg r =
     emit [w_u32 cfg (rev_start r), emit [w_len cfg (length (rev_bytes r)), w_u8s cfg (rev_bytes r)]]"

definition encode_range_commitment :: "'e bincode \<Rightarrow> range_commitment \<Rightarrow> 'e + bytes" where
  "encode_range_commitment cfg c =
     emit [w_u32 cfg (com_start c), w_u32 cfg (com_end c), w_u8s cfg (com_commitment c)]"

definition encode_direction_block :: "'e bincode \<Rightarrow> direction_block \<Rightarrow> 'e + bytes" where
  "encode_direction_block cfg b =
     emit [encode_vec cfg (encode_revealed_range cfg) (blk_revealed b),
           encode_vec cfg (encode_range_commitment cfg) (blk_commitments b)]"

definition encode_attested :: "'e bincode \<Rightarrow> attested_data \<Rightarrow> 'e + bytes" where
  "encode_attested cfg d =
     emit [w_u8s cfg (authority_id d), w_u64 cfg (created_at d),
           w_u32 cfg (sent_transcript_length d), w_u32 cfg (recv_transcript_length d),
           encode_direction_block cfg (sent_block d), encode_direction_block cfg (received_block d)]"

definition attested_digest :: "'e bincode \<Rightarrow> (bytes \<Rightarrow> bytes) \<Rightarrow> attested_data \<Rightarrow> 'e + bytes" where
  "attested_digest cfg keccak256 d = and_then (encode_attested cfg d) (\<lambda>bs. Inr (keccak256 bs))"

definition authority_id_of :: "(bytes \<Rightarrow> bytes) \<Rightarrow> bytes \<Rightarrow> bytes" where
  "authority_id_of keccak256 server_name = keccak256 (map to_ascii_lowercase server_name)"

text \<open>
  \<open>WIRE\<close>: big-endian, fixed width, a length is a \<open>u64\<close>, bytes are written as they are. A
  length that is no \<open>usize\<close> does not occur.
\<close>

definition big_endian_fixint :: "'e bincode \<Rightarrow> bool" where
  "big_endian_fixint cfg \<longleftrightarrow>
     (\<forall>v. w_u32 cfg v = Inr (be_bytes 4 (unat v))) \<and> (\<forall>v. w_u64 cfg v = Inr (be_bytes 8 (unat v))) \<and>
     (\<forall>n. n \<le> usize_max \<longrightarrow> w_len cfg n = Inr (be_bytes 8 n)) \<and> (\<forall>bs. w_u8s cfg bs = Inr bs)"

definition wire_config :: "unit bincode" where
  "wire_config = \<lparr>w_u32 = (\<lambda>v. Inr (be_bytes 4 (unat v))), w_u64 = (\<lambda>v. Inr (be_bytes 8 (unat v))),
                  w_len = (\<lambda>n. Inr (be_bytes 8 n)), w_u8s = Inr\<rparr>"

lemma wire_config_fixint: "big_endian_fixint wire_config"
  by (simp add: big_endian_fixint_def wire_config_def)

section \<open>The layout\<close>

definition lay_revealed :: "revealed_range \<Rightarrow> bytes" where
  "lay_revealed r = be_bytes 4 (unat (rev_start r)) @ be_bytes 8 (length (rev_bytes r)) @ rev_bytes r"

definition lay_commitment :: "range_commitment \<Rightarrow> bytes" where
  "lay_commitment c = be_bytes 4 (unat (com_start c)) @ be_bytes 4 (unat (com_end c)) @ com_commitment c"

definition lay_vec :: "('a \<Rightarrow> bytes) \<Rightarrow> 'a list \<Rightarrow> bytes" where
  "lay_vec lay xs = be_bytes 8 (length xs) @ concat (map lay xs)"

definition lay_block :: "direction_block \<Rightarrow> bytes" where
  "lay_block b = lay_vec lay_revealed (blk_revealed b) @ lay_vec lay_commitment (blk_commitments b)"

definition lay_attested :: "attested_data \<Rightarrow> bytes" where
  "lay_attested d = authority_id d @ be_bytes 8 (unat (created_at d)) @
     be_bytes 4 (unat (sent_transcript_length d)) @ be_bytes 4 (unat (recv_transcript_length d)) @
     lay_block (sent_block d) @ lay_block (received_block d)"

lemma emit_Inr: "emit (map Inr xss) = Inr (concat xss)"
  by (induction xss) simp_all

lemma slice_ok_usize: "slice_ok xs \<Longrightarrow> length xs \<le> usize_max"
  using isize_lt_usize by simp

lemma encode_vec_lay:
  assumes "big_endian_fixint cfg" and "slice_ok xs" and "\<forall>x \<in> set xs. item x = Inr (lay x)"
  shows "encode_vec cfg item xs = Inr (lay_vec lay xs)"
proof -
  have "map item xs = map Inr (map lay xs)" using assms(3) by simp
  moreover have "w_len cfg (length xs) = Inr (be_bytes 8 (length xs))"
    using assms(1) slice_ok_usize [OF assms(2)] by (simp add: big_endian_fixint_def)
  ultimately show ?thesis by (simp add: encode_vec_def emit_Inr lay_vec_def del: map_map)
qed

lemma encode_revealed_lay:
  "big_endian_fixint cfg \<Longrightarrow> wf_revealed r \<Longrightarrow> encode_revealed_range cfg r = Inr (lay_revealed r)"
  by (simp add: encode_revealed_range_def lay_revealed_def wf_revealed_def big_endian_fixint_def slice_ok_usize)

lemma encode_commitment_lay: "big_endian_fixint cfg \<Longrightarrow> encode_range_commitment cfg c = Inr (lay_commitment c)"
  by (simp add: encode_range_commitment_def lay_commitment_def big_endian_fixint_def)

lemma encode_block_lay:
  assumes cfg: "big_endian_fixint cfg" and wf: "wf_block b"
  shows "encode_direction_block cfg b = Inr (lay_block b)"
proof -
  have "encode_vec cfg (encode_revealed_range cfg) (blk_revealed b) = Inr (lay_vec lay_revealed (blk_revealed b))"
    using wf by (intro encode_vec_lay [OF cfg]) (auto simp: wf_block_def list_all_iff encode_revealed_lay [OF cfg])
  moreover have "encode_vec cfg (encode_range_commitment cfg) (blk_commitments b) = Inr (lay_vec lay_commitment (blk_commitments b))"
    using wf by (intro encode_vec_lay [OF cfg]) (auto simp: wf_block_def encode_commitment_lay [OF cfg])
  ultimately show ?thesis by (simp add: encode_direction_block_def lay_block_def)
qed

lemma encode_attested_lay:
  "big_endian_fixint cfg \<Longrightarrow> wf_attested d \<Longrightarrow> encode_attested cfg d = Inr (lay_attested d)"
  by (simp add: encode_attested_def wf_attested_def encode_block_lay lay_attested_def)
     (simp add: big_endian_fixint_def)

section \<open>The forward decoder\<close>

definition dec_vec :: "(bytes \<Rightarrow> ('a \<times> bytes) option) \<Rightarrow> bytes \<Rightarrow> ('a list \<times> bytes) option" where
  "dec_vec dec bs = do { (n, rest) \<leftarrow> dec_be 8 bs; dec_items dec n rest }"

definition dec_revealed :: "bytes \<Rightarrow> (revealed_range \<times> bytes) option" where
  "dec_revealed bs = do {
     (s, r1) \<leftarrow> dec_word 4 bs; (n, r2) \<leftarrow> dec_be 8 r1; (b, r3) \<leftarrow> take_exact n r2;
     Some (\<lparr>rev_start = s, rev_bytes = b\<rparr>, r3)
   }"

definition dec_commitment :: "bytes \<Rightarrow> (range_commitment \<times> bytes) option" where
  "dec_commitment bs = do {
     (s, r1) \<leftarrow> dec_word 4 bs; (e, r2) \<leftarrow> dec_word 4 r1; (c, r3) \<leftarrow> take_exact 32 r2;
     Some (\<lparr>com_start = s, com_end = e, com_commitment = c\<rparr>, r3)
   }"

definition dec_block :: "bytes \<Rightarrow> (direction_block \<times> bytes) option" where
  "dec_block bs = do {
     (rs, r1) \<leftarrow> dec_vec dec_revealed bs; (cs, r2) \<leftarrow> dec_vec dec_commitment r1;
     Some (\<lparr>blk_revealed = rs, blk_commitments = cs\<rparr>, r2)
   }"

definition dec_attested :: "bytes \<Rightarrow> (attested_data \<times> bytes) option" where
  "dec_attested bs = do {
     (a, r1) \<leftarrow> take_exact 32 bs; (t, r2) \<leftarrow> dec_word 8 r1;
     (ns, r3) \<leftarrow> dec_word 4 r2; (nr, r4) \<leftarrow> dec_word 4 r3;
     (s, r5) \<leftarrow> dec_block r4; (r, r6) \<leftarrow> dec_block r5;
     Some (\<lparr>authority_id = a, created_at = t, sent_transcript_length = ns, recv_transcript_length = nr,
            sent_block = s, received_block = r\<rparr>, r6)
   }"

lemma slice_ok_256: "slice_ok xs \<Longrightarrow> length xs < 256 ^ 8"
  by (simp add: isize_max_def)

text \<open>An item codec gives the codec of its vectors.\<close>

locale item_codec = self_delimiting

sublocale item_codec \<subseteq> vec: self_delimiting "lay_vec enc" "dec_vec dec" "\<lambda>vs. slice_ok vs \<and> list_all valid vs"
  by unfold_locales
     (simp add: lay_vec_def dec_vec_def be_count.dec_enc slice_ok_256 [simplified] dec_items_enc list_all_iff)

interpretation revealed: item_codec lay_revealed dec_revealed wf_revealed
  by unfold_locales
     (simp add: lay_revealed_def dec_revealed_def be_u32.dec_enc be_count.dec_enc
        slice_ok_256 [simplified] wf_revealed_def)

interpretation commitment: item_codec lay_commitment dec_commitment wf_commitment
  by unfold_locales (simp add: lay_commitment_def dec_commitment_def be_u32.dec_enc wf_commitment_def)

interpretation block: self_delimiting lay_block dec_block wf_block
  by unfold_locales
     (simp add: lay_block_def dec_block_def wf_block_def revealed.vec.dec_enc commitment.vec.dec_enc)

interpretation attested: self_delimiting lay_attested dec_attested wf_attested
  by unfold_locales
     (simp add: lay_attested_def dec_attested_def wf_attested_def be_u32.dec_enc be_u64.dec_enc block.dec_enc)

section \<open>Length\<close>

definition block_len :: "direction_block \<Rightarrow> nat" where
  "block_len b = 16 + (\<Sum>r \<leftarrow> blk_revealed b. 12 + length (rev_bytes r)) + 40 * length (blk_commitments b)"

lemma length_lay_block: "wf_block b \<Longrightarrow> length (lay_block b) = block_len b"
proof -
  assume wf: "wf_block b"
  have "length (concat (map lay_commitment cs)) = 40 * length cs" if "list_all wf_commitment cs" for cs
    using that by (induction cs) (simp_all add: lay_commitment_def wf_commitment_def)
  moreover have "length (concat (map lay_revealed rs)) = (\<Sum>r \<leftarrow> rs. 12 + length (rev_bytes r))" for rs
    by (induction rs) (simp_all add: lay_revealed_def)
  ultimately show ?thesis using wf by (simp add: lay_block_def lay_vec_def wf_block_def block_len_def)
qed

lemmas [eval] = encode_vec_def encode_revealed_range_def encode_range_commitment_def
  encode_direction_block_def encode_attested_def attested_digest_def authority_id_of_def wire_config_def

section \<open>Samples\<close>

text \<open>The record of the cross-language fixture; its authority id is the 32 bytes the fixture opens with.\<close>

definition fixture_id :: bytes where
  "fixture_id = [0x49, 0x30, 0x14, 0x2f, 0x52, 0x83, 0xd4, 0xa8, 0xea, 0xb0, 0xd2, 0x4c, 0x58, 0x8f, 0x00, 0xb2,
     0x12, 0x13, 0xae, 0x2a, 0x47, 0xe7, 0xed, 0x6c, 0x1d, 0xc6, 0xa5, 0x70, 0x44, 0xf1, 0x65, 0x5d]"

definition fixture_record :: attested_data where
  "fixture_record = \<lparr>authority_id = fixture_id, created_at = 1770000000,
     sent_transcript_length = 60, recv_transcript_length = 40,
     sent_block = \<lparr>blk_revealed = [\<lparr>rev_start = 0, rev_bytes = replicate 20 0x61\<rparr>, \<lparr>rev_start = 40, rev_bytes = replicate 20 0x62\<rparr>],
                   blk_commitments = [\<lparr>com_start = 20, com_end = 40, com_commitment = replicate 32 7\<rparr>]\<rparr>,
     received_block = \<lparr>blk_revealed = [\<lparr>rev_start = 0, rev_bytes = replicate 10 0x63\<rparr>],
                   blk_commitments = [\<lparr>com_start = 10, com_end = 40, com_commitment = replicate 32 9\<rparr>]\<rparr>\<rparr>"

lemma fixture_wf: "wf_attested fixture_record"
  by (simp add: wf_attested_def fixture_record_def wf_block_def wf_revealed_def wf_commitment_def fixture_id_def isize_max_def)

section \<open>Properties\<close>

lemma encode_attested_is_layout_parts:
  assumes "big_endian_fixint cfg" and "wf_attested d"
  shows "encode_attested cfg d = Inr (lay_attested d)"
    and "length (lay_attested d) = header_len + block_len (sent_block d) + block_len (received_block d)"
  using encode_attested_lay [OF assms] assms(2)
  by (simp_all add: lay_attested_def wf_attested_def length_lay_block header_len_def)

text \<open>Under the pinned configuration encoding never fails and gives exactly the layout the
  module documents: authority, \<open>createdAt\<close>, the two lengths, then for each direction the
  counted revealed ranges (start, length, plaintext) and the counted commitments (start,
  end, hash), all fixed-width big-endian.\<close>
theorem encode_attested_is_layout:
  assumes "big_endian_fixint cfg" and "wf_attested d"
  shows "encode_attested cfg d = Inr (lay_attested d) \<and>
    length (lay_attested d) = header_len + block_len (sent_block d) + block_len (received_block d)"
  using encode_attested_is_layout_parts [OF assms] by blast


theorem encode_attested_is_layout_witness:
  "encode_attested wire_config fixture_record = Inr (lay_attested fixture_record) \<and> length (lay_attested fixture_record) = 246"
proof -
  have "header_len + block_len (sent_block fixture_record) + block_len (received_block fixture_record) = 246"
    by (simp add: fixture_record_def header_len_def block_len_def)
  then show ?thesis using encode_attested_is_layout [OF wire_config_fixint fixture_wf] by simp
qed

text \<open>Decoding is one forward pass: reading an encoding gives the record back and leaves
  exactly the bytes that follow it.\<close>
theorem attested_roundtrip:
  assumes "big_endian_fixint cfg" and "wf_attested d" and "encode_attested cfg d = Inr bs"
  shows "dec_attested (bs @ rest) = Some (d, rest)"
proof -
  have "bs = lay_attested d" using assms(3) encode_attested_lay [OF assms(1,2)] by simp
  then show ?thesis using attested.dec_enc [OF assms(2)] by simp
qed

theorem attested_roundtrip_witness:
  "dec_attested (lay_attested fixture_record @ [1, 2]) = Some (fixture_record, [1, 2])"
  using attested_roundtrip [OF wire_config_fixint fixture_wf encode_attested_lay [OF wire_config_fixint fixture_wf]] .

lemma attested_preimage_unique_parts:
  assumes "big_endian_fixint cfg" and "\<And>d. d \<in> records \<Longrightarrow> wf_attested d" and "d1 \<in> records" and "d2 \<in> records"
  shows "encode_attested cfg d1 = Inr b1 \<Longrightarrow> encode_attested cfg d2 = Inr b2 \<Longrightarrow> b1 @ r1 = b2 @ r2 \<Longrightarrow> d1 = d2 \<and> r1 = r2"
    and "inj_on keccak256 (lay_attested ` records) \<Longrightarrow>
         attested_digest cfg keccak256 d1 = attested_digest cfg keccak256 d2 \<Longrightarrow> d1 = d2"
proof -
  have e: "encode_attested cfg d1 = Inr (lay_attested d1)" "encode_attested cfg d2 = Inr (lay_attested d2)"
    using encode_attested_lay assms by blast+
  show "encode_attested cfg d1 = Inr b1 \<Longrightarrow> encode_attested cfg d2 = Inr b2 \<Longrightarrow> b1 @ r1 = b2 @ r2 \<Longrightarrow> d1 = d2 \<and> r1 = r2"
    using e attested.enc_prefix_free [of d1 d2 r1 r2] assms(2-4) by simp
  assume "inj_on keccak256 (lay_attested ` records)"
    and "attested_digest cfg keccak256 d1 = attested_digest cfg keccak256 d2"
  then have "lay_attested d1 = lay_attested d2"
    using e assms(3,4) by (auto simp: attested_digest_def inj_on_def)
  then show "d1 = d2" using attested.enc_inj assms by blast
qed

text \<open>C9. Two different attestations cannot share one preimage by shifting a boundary: equal signed
  bytes, whatever follows them, come from equal records, and where the hash does not collide
  on the encodings in question equal digests come from equal records.\<close>
theorem attested_preimage_unique:
  assumes "big_endian_fixint cfg" and "\<And>d. d \<in> records \<Longrightarrow> wf_attested d" and "d1 \<in> records" and "d2 \<in> records"
  shows "(\<forall>b1 b2 r1 r2. encode_attested cfg d1 = Inr b1 \<longrightarrow> encode_attested cfg d2 = Inr b2 \<longrightarrow>
            b1 @ r1 = b2 @ r2 \<longrightarrow> d1 = d2 \<and> r1 = r2) \<and>
         (inj_on keccak256 (lay_attested ` records) \<longrightarrow>
            attested_digest cfg keccak256 d1 = attested_digest cfg keccak256 d2 \<longrightarrow> d1 = d2)"
  using attested_preimage_unique_parts [of cfg records d1 d2] assms by blast


theorem attested_preimage_unique_witness:
  "attested_digest wire_config (\<lambda>bs. take 4 (drop 44 bs)) fixture_record
     \<noteq> attested_digest wire_config (\<lambda>bs. take 4 (drop 44 bs)) (fixture_record\<lparr>recv_transcript_length := 41\<rparr>)"
proof
  let ?d = "fixture_record\<lparr>recv_transcript_length := 41\<rparr>" and ?k = "\<lambda>bs. take 4 (drop 44 (bs :: bytes))"
  assume same: "attested_digest wire_config ?k fixture_record = attested_digest wire_config ?k ?d"
  have wf: "wf_attested ?d" using fixture_wf by (simp add: wf_attested_def)
  have k: "?k (lay_attested fixture_record) = [0, 0, 0, 40]" "?k (lay_attested ?d) = [0, 0, 0, 41]"
    by (simp_all add: lay_attested_def fixture_record_def fixture_id_def eval)
  then have inj: "inj_on ?k (lay_attested ` {fixture_record, ?d})" by (auto simp: inj_on_def)
  have "fixture_record = ?d"
    using attested_preimage_unique [of wire_config "{fixture_record, ?d}" fixture_record ?d ?k] wire_config_fixint
      fixture_wf wf inj same by blast
  then have "recv_transcript_length fixture_record = 41" by (metis attested_data.select_convs(4) attested_data.surjective attested_data.update_convs(4))
  then show False by (simp add: fixture_record_def)
qed

lemma authority_id_canonical_parts:
  shows "eq_ignore_ascii_case a b \<Longrightarrow> authority_id_of keccak256 a = authority_id_of keccak256 b"
    and "inj_on keccak256 {map to_ascii_lowercase a, map to_ascii_lowercase b} \<Longrightarrow>
         authority_id_of keccak256 a = authority_id_of keccak256 b \<longleftrightarrow> eq_ignore_ascii_case a b"
proof -
  show "eq_ignore_ascii_case a b \<Longrightarrow> authority_id_of keccak256 a = authority_id_of keccak256 b"
    by (simp add: eq_ignore_ascii_case_def authority_id_of_def)
  assume inj: "inj_on keccak256 {map to_ascii_lowercase a, map to_ascii_lowercase b}"
  show "authority_id_of keccak256 a = authority_id_of keccak256 b \<longleftrightarrow> eq_ignore_ascii_case a b"
    unfolding eq_ignore_ascii_case_def authority_id_of_def by (rule inj_on_eq_iff [OF inj]) simp_all
qed

text \<open>One authority, one id: server names that differ only in ASCII case hash to the same
  authority id, whatever the hash, and names that differ otherwise do not where the hash
  does not collide on their lowercase forms.\<close>
theorem authority_id_canonical:
  "(eq_ignore_ascii_case a b \<longrightarrow> authority_id_of keccak256 a = authority_id_of keccak256 b) \<and>
   (inj_on keccak256 {map to_ascii_lowercase a, map to_ascii_lowercase b} \<longrightarrow>
      authority_id_of keccak256 a = authority_id_of keccak256 b \<longrightarrow> eq_ignore_ascii_case a b)"
  using authority_id_canonical_parts(1) [of a b keccak256] authority_id_canonical_parts(2) [of keccak256 a b] by blast


theorem authority_id_canonical_witness:
  "authority_id_of rev (ascii ''API.X.com'') = authority_id_of rev (ascii ''api.x.com'') \<and>
   authority_id_of rev (ascii ''api.x.com'') \<noteq> authority_id_of rev (ascii ''api.x.org'')"
proof -
  have "eq_ignore_ascii_case (ascii ''API.X.com'') (ascii ''api.x.com'')"
    "\<not> eq_ignore_ascii_case (ascii ''api.x.com'') (ascii ''api.x.org'')"
    by (simp_all add: eval)
  then show ?thesis
    using authority_id_canonical [of "ascii ''API.X.com''" "ascii ''api.x.com''" rev]
      authority_id_canonical [of "ascii ''api.x.com''" "ascii ''api.x.org''" rev] by (simp add: inj_on_def)
qed

section \<open>The cross-language fixture\<close>

definition fixture_bytes :: bytes where
  "fixture_bytes = fixture_id @ [0, 0, 0, 0, 0x69, 0x80, 0x0e, 0x80, 0, 0, 0, 0x3c, 0, 0, 0, 0x28] @
     [0, 0, 0, 0, 0, 0, 0, 2] @
       [0, 0, 0, 0, 0, 0, 0, 0, 0, 0, 0, 0x14] @ replicate 20 0x61 @
       [0, 0, 0, 0x28, 0, 0, 0, 0, 0, 0, 0, 0x14] @ replicate 20 0x62 @
     [0, 0, 0, 0, 0, 0, 0, 1] @ [0, 0, 0, 0x14, 0, 0, 0, 0x28] @ replicate 32 7 @
     [0, 0, 0, 0, 0, 0, 0, 1] @ [0, 0, 0, 0, 0, 0, 0, 0, 0, 0, 0, 0x0a] @ replicate 10 0x63 @
     [0, 0, 0, 0, 0, 0, 0, 1] @ [0, 0, 0, 0x0a, 0, 0, 0, 0x28] @ replicate 32 9"

lemma agrees_with_the_solidity_decoder: "encode_attested wire_config fixture_record = Inr fixture_bytes"
  by (simp add: fixture_record_def fixture_bytes_def eval)

end
