(* ===== verification/Rust_Str.thy ===== *)
theory Rust_Str
  imports Prelude
begin

text \<open>
  What the program uses of the standard library's strings, on the UTF-8 bytes of a \<open>str\<close>:
  \<open>String::from_utf8_lossy\<close>, \<open>str::contains\<close>, \<open>trim\<close>, \<open>strip_prefix\<close> and \<open>split\<close>.
  The main fact is that lossy decoding neither hides nor invents an ASCII substring.
\<close>

section \<open>String::from_utf8_lossy\<close>

definition is_ascii :: "byte \<Rightarrow> bool" where
  "is_ascii c \<longleftrightarrow> c < 0x80"

definition is_continuation :: "byte \<Rightarrow> bool" where
  "is_continuation c \<longleftrightarrow> 0x80 \<le> c \<and> c \<le> 0xBF"

definition utf8_char_width :: "byte \<Rightarrow> nat" where
  "utf8_char_width c =
     (if c < 0x80 then 1
      else if 0xC2 \<le> c \<and> c \<le> 0xDF then 2
      else if 0xE0 \<le> c \<and> c \<le> 0xEF then 3
      else if 0xF0 \<le> c \<and> c \<le> 0xF4 then 4
      else 0)"

text \<open>The second byte a three or four byte sequence allows after its first.\<close>

definition second_ok :: "byte \<Rightarrow> byte \<Rightarrow> bool" where
  "second_ok c d =
     (if c = 0xE0 then 0xA0 \<le> d \<and> d \<le> 0xBF
      else if c = 0xED then 0x80 \<le> d \<and> d \<le> 0x9F
      else if c = 0xF0 then 0x90 \<le> d \<and> d \<le> 0xBF
      else if c = 0xF4 then 0x80 \<le> d \<and> d \<le> 0x8F
      else is_continuation d)"

definition safe_get :: "bytes \<Rightarrow> nat \<Rightarrow> byte" where
  "safe_get xs i = (if i < length xs then xs ! i else 0)"

text \<open>
  One step of the UTF-8 scanner at the front of a non-empty slice: whether a well-formed
  character stands there, and how many bytes it or the maximal ill-formed part takes.
\<close>

definition utf8_step :: "bytes \<Rightarrow> bool \<times> nat" where
  "utf8_step xs =
     (let c = safe_get xs 0; d = safe_get xs 1; e = safe_get xs 2; f = safe_get xs 3 in
      if utf8_char_width c = 1 then (True, 1)
      else if utf8_char_width c = 2 then (if is_continuation d then (True, 2) else (False, 1))
      else if utf8_char_width c = 3 then
        (if \<not> second_ok c d then (False, 1)
         else if \<not> is_continuation e then (False, 2) else (True, 3))
      else if utf8_char_width c = 4 then
        (if \<not> second_ok c d then (False, 1)
         else if \<not> is_continuation e then (False, 2)
         else if \<not> is_continuation f then (False, 3) else (True, 4))
      else (False, 1))"

lemma utf8_step_pos: "0 < snd (utf8_step xs)"
  by (simp add: utf8_step_def Let_def)

definition replacement :: bytes where
  "replacement = [0xEF, 0xBF, 0xBD]"

function from_utf8_lossy :: "bytes \<Rightarrow> bytes" where
  "from_utf8_lossy xs =
     (if xs = [] then []
      else (if fst (utf8_step xs) then take (snd (utf8_step xs)) xs else replacement)
           @ from_utf8_lossy (drop (snd (utf8_step xs)) xs))"
  by pat_completeness auto
termination
  by (relation "measure length") (auto simp: utf8_step_pos)

declare from_utf8_lossy.simps [simp del]

lemma from_utf8_lossy_Nil [simp]: "from_utf8_lossy [] = []"
  by (simp add: from_utf8_lossy.simps)

lemma from_utf8_lossy_ascii:
  "is_ascii c \<Longrightarrow> from_utf8_lossy (c # xs) = c # from_utf8_lossy xs"
  by (subst from_utf8_lossy.simps)
     (simp add: utf8_step_def Let_def safe_get_def utf8_char_width_def is_ascii_def)

text \<open>What a non-ASCII byte starts is consumed, and replaced, by non-ASCII bytes only.\<close>

lemma second_ok_not_ascii: "second_ok c d \<Longrightarrow> \<not> is_ascii d"
  by (auto simp: second_ok_def is_continuation_def is_ascii_def word_less_nat_alt word_le_nat_alt
      split: if_splits)

lemma continuation_not_ascii: "is_continuation d \<Longrightarrow> \<not> is_ascii d"
  by (simp add: is_continuation_def is_ascii_def not_less)

lemma utf8_step_bytes:
  assumes "\<not> is_ascii (safe_get xs 0)" and "i < snd (utf8_step xs)"
  shows "\<not> is_ascii (safe_get xs i)"
proof -
  have "i = 0 \<or> i = 1 \<or> i = 2 \<or> i = 3"
    using assms(2) by (auto simp: utf8_step_def Let_def split: if_splits)
  then show ?thesis
    using assms by (auto simp: utf8_step_def Let_def utf8_char_width_def is_ascii_def [of "safe_get xs 0"]
        dest: second_ok_not_ascii continuation_not_ascii split: if_splits)
qed

lemma utf8_step_within:
  assumes "xs \<noteq> []"
  shows "snd (utf8_step xs) \<le> length xs"
proof (rule ccontr)
  assume long: "\<not> snd (utf8_step xs) \<le> length xs"
  then have zero: "safe_get xs (length xs) = 0" and lt: "length xs < snd (utf8_step xs)"
    by (simp_all add: safe_get_def)
  show False
  proof (cases "is_ascii (safe_get xs 0)")
    case True
    with lt assms show False
      by (simp add: utf8_step_def Let_def utf8_char_width_def is_ascii_def)
  next
    case False
    then show False using utf8_step_bytes [OF False lt] zero by (simp add: is_ascii_def)
  qed
qed

lemma utf8_step_take_not_ascii:
  assumes "xs \<noteq> []" and "\<not> is_ascii (hd xs)"
  shows "\<forall>c \<in> set (take (snd (utf8_step xs)) xs). \<not> is_ascii c"
proof -
  have *: "\<not> is_ascii (safe_get xs 0)"
    using assms by (cases xs) (simp_all add: safe_get_def)
  have "\<not> is_ascii (xs ! i)" if "i < snd (utf8_step xs)" "i < length xs" for i
    using utf8_step_bytes [OF * that(1)] that(2) by (simp add: safe_get_def)
  then show ?thesis by (auto simp: in_set_conv_nth)
qed

lemma replacement_not_ascii: "\<forall>c \<in> set replacement. \<not> is_ascii c"
  by (simp add: replacement_def is_ascii_def)

lemma from_utf8_lossy_other:
  assumes "xs \<noteq> []" and "\<not> is_ascii (hd xs)"
  obtains skipped shown rest where "xs = skipped @ rest"
    and "from_utf8_lossy xs = shown @ from_utf8_lossy rest"
    and "skipped \<noteq> []" and "shown \<noteq> []"
    and "\<forall>c \<in> set skipped. \<not> is_ascii c" and "\<forall>c \<in> set shown. \<not> is_ascii c"
proof
  let ?n = "snd (utf8_step xs)"
  let ?shown = "if fst (utf8_step xs) then take ?n xs else replacement"
  show "xs = take ?n xs @ drop ?n xs" by simp
  show "from_utf8_lossy xs = ?shown @ from_utf8_lossy (drop ?n xs)"
    using assms(1) by (subst from_utf8_lossy.simps) simp
  show "take ?n xs \<noteq> []" using assms(1) utf8_step_pos [of xs] by simp
  then show "?shown \<noteq> []" by (simp add: replacement_def)
  show "\<forall>c \<in> set (take ?n xs). \<not> is_ascii c"
    using assms by (rule utf8_step_take_not_ascii)
  then show "\<forall>c \<in> set ?shown. \<not> is_ascii c"
    using replacement_not_ascii by simp
qed

section \<open>str::contains\<close>

definition contains :: "bytes \<Rightarrow> bytes \<Rightarrow> bool" where
  "contains xs p \<longleftrightarrow> windows_position (length p) (\<lambda>w. w = p) xs \<noteq> None"

lemma contains_iff: "contains xs p \<longleftrightarrow> (\<exists>i. occurs_at p xs i)"
proof -
  have "contains xs p \<longleftrightarrow> (\<exists>i. window_hit (length p) (\<lambda>w. w = p) xs i)"
    unfolding contains_def by (simp only: win.search_None_iff [OF TrueI]) blast
  then show ?thesis by simp
qed

lemma contains_Nil: "p \<noteq> [] \<Longrightarrow> \<not> contains [] p"
  by (auto simp: contains_iff occurs_at_def)

lemma contains_Cons: "contains (x # xs) p \<longleftrightarrow> occurs_at p (x # xs) 0 \<or> contains xs p"
proof
  assume "contains (x # xs) p"
  then obtain i where "occurs_at p (x # xs) i" by (auto simp: contains_iff)
  then show "occurs_at p (x # xs) 0 \<or> contains xs p"
    by (cases i) (auto simp: contains_iff occurs_at_def)
next
  have "occurs_at p xs i \<Longrightarrow> occurs_at p (x # xs) (Suc i)" for i
    by (simp add: occurs_at_def)
  then show "occurs_at p (x # xs) 0 \<or> contains xs p \<Longrightarrow> contains (x # xs) p"
    unfolding contains_iff by blast
qed

lemma occurs_at_0_Cons: "occurs_at (c # p) (x # xs) 0 \<longleftrightarrow> c = x \<and> occurs_at p xs 0"
  by (auto simp: occurs_at_def)

lemma contains_skip:
  assumes "\<forall>c \<in> set skipped. \<not> is_ascii c" and "\<forall>c \<in> set p. is_ascii c" and "p \<noteq> []"
  shows "contains (skipped @ rest) p \<longleftrightarrow> contains rest p"
  using assms
proof (induction skipped)
  case (Cons x skipped)
  then have "\<not> occurs_at p (x # skipped @ rest) 0"
    by (cases p) (auto simp: occurs_at_0_Cons)
  with Cons show ?case by (simp add: contains_Cons)
qed simp

lemma occurs_front_lossy:
  "\<forall>c \<in> set p. is_ascii c \<Longrightarrow> occurs_at p (from_utf8_lossy xs) 0 \<longleftrightarrow> occurs_at p xs 0"
proof (induction p arbitrary: xs)
  case Nil
  show ?case by (simp add: occurs_at_def)
next
  case (Cons c p)
  show ?case
  proof (cases "xs = []")
    case True
    then show ?thesis by simp
  next
    case False
    then obtain x ys where xs: "xs = x # ys" by (cases xs) auto
    show ?thesis
    proof (cases "is_ascii x")
      case True
      with Cons xs show ?thesis by (simp add: from_utf8_lossy_ascii occurs_at_0_Cons)
    next
      case False
      with xs obtain shown rest where "from_utf8_lossy xs = shown @ rest" "shown \<noteq> []"
          "\<forall>c \<in> set shown. \<not> is_ascii c"
        using from_utf8_lossy_other [of xs] by (metis list.sel(1) list.distinct(1))
      then obtain y zs where "from_utf8_lossy xs = y # zs" "\<not> is_ascii y" by (cases shown) auto
      with False xs Cons.prems show ?thesis by (auto simp: occurs_at_0_Cons)
    qed
  qed
qed

text \<open>Lossy decoding changes no ASCII substring: what the text contains, the bytes contain.\<close>

lemma contains_from_utf8_lossy:
  assumes "\<forall>c \<in> set p. is_ascii c" and "p \<noteq> []"
  shows "contains (from_utf8_lossy xs) p \<longleftrightarrow> contains xs p"
proof (induction xs rule: length_induct)
  case (1 xs)
  show ?case
  proof (cases xs)
    case Nil
    then show ?thesis by simp
  next
    case (Cons x ys)
    show ?thesis
    proof (cases "is_ascii x")
      case True
      with Cons 1 occurs_front_lossy [OF assms(1), of xs] show ?thesis
        by (simp add: from_utf8_lossy_ascii contains_Cons)
    next
      case False
      with Cons obtain skipped shown rest where eq: "xs = skipped @ rest"
          "from_utf8_lossy xs = shown @ from_utf8_lossy rest" "skipped \<noteq> []"
          "\<forall>c \<in> set skipped. \<not> is_ascii c" "\<forall>c \<in> set shown. \<not> is_ascii c"
        using from_utf8_lossy_other [of xs] by (metis list.sel(1) list.distinct(1))
      then have "contains (from_utf8_lossy rest) p \<longleftrightarrow> contains rest p"
        using 1 by (simp add: add_pos_pos)
      with eq show ?thesis by (simp add: contains_skip [OF _ assms])
    qed
  qed
qed

lemmas [eval] = is_ascii_def is_continuation_def utf8_char_width_def second_ok_def safe_get_def
  utf8_step_def replacement_def from_utf8_lossy.simps contains_def

section \<open>trim, strip_prefix and split\<close>

text \<open>The UTF-8 encodings of the characters \<open>char::is_whitespace\<close> accepts (Unicode \<open>White_Space\<close>).\<close>

definition whitespace_chars :: "bytes list" where
  "whitespace_chars =
     map (\<lambda>b. [b]) [0x09, 0x0A, 0x0B, 0x0C, 0x0D, 0x20] @ [[0xC2, 0x85], [0xC2, 0xA0], [0xE1, 0x9A, 0x80]] @
     map (\<lambda>b. [0xE2, 0x80, b]) [0x80, 0x81, 0x82, 0x83, 0x84, 0x85, 0x86, 0x87, 0x88, 0x89, 0x8A, 0xA8, 0xA9, 0xAF] @
     [[0xE2, 0x81, 0x9F], [0xE3, 0x80, 0x80]]"

definition leading_ws :: "bytes \<Rightarrow> nat" where
  "leading_ws xs = (case find (\<lambda>w. take (length w) xs = w) whitespace_chars of None \<Rightarrow> 0 | Some w \<Rightarrow> length w)"

definition trailing_ws :: "bytes \<Rightarrow> nat" where
  "trailing_ws xs =
     (case find (\<lambda>w. drop (length xs - length w) xs = w) whitespace_chars of None \<Rightarrow> 0 | Some w \<Rightarrow> length w)"

lemma whitespace_not_Nil: "w \<in> set whitespace_chars \<Longrightarrow> w \<noteq> []"
  by (auto simp: whitespace_chars_def)

function trim_start :: "bytes \<Rightarrow> bytes" where
  "trim_start xs = (if leading_ws xs = 0 \<or> xs = [] then xs else trim_start (drop (leading_ws xs) xs))"
  by pat_completeness auto
termination by (relation "measure length") auto

function trim_end :: "bytes \<Rightarrow> bytes" where
  "trim_end xs = (if trailing_ws xs = 0 \<or> xs = [] then xs else trim_end (take (length xs - trailing_ws xs) xs))"
  by pat_completeness auto
termination by (relation "measure length") auto

declare trim_start.simps [simp del] trim_end.simps [simp del]

definition trim :: "bytes \<Rightarrow> bytes" where
  "trim xs = trim_end (trim_start xs)"

definition strip_prefix :: "bytes \<Rightarrow> bytes \<Rightarrow> bytes option" where
  "strip_prefix p xs = (if take (length p) xs = p then Some (drop (length p) xs) else None)"

fun split_on :: "byte \<Rightarrow> bytes \<Rightarrow> bytes list" where
  "split_on c [] = [[]]"
| "split_on c (x # xs) =
     (if x = c then [] # split_on c xs
      else (case split_on c xs of [] \<Rightarrow> [[x]] | p # ps \<Rightarrow> (x # p) # ps))"

lemma split_on_neq_Nil [simp]: "split_on c xs \<noteq> []"
  by (cases xs) (auto split: list.splits)

lemma split_on_no_sep: "p \<in> set (split_on c xs) \<Longrightarrow> c \<notin> set p"
  by (induction xs arbitrary: p) (auto split: if_splits list.splits)

lemma split_on_append: "c \<notin> set p \<Longrightarrow> split_on c (p @ c # xs) = p # split_on c xs"
  by (induction p) auto

lemma split_on_free: "c \<notin> set p \<Longrightarrow> split_on c p = [p]"
  by (induction p) auto

lemma leading_ws_0: "leading_ws xs = 0 \<longleftrightarrow> (\<forall>w \<in> set whitespace_chars. take (length w) xs \<noteq> w)"
  using whitespace_not_Nil
  by (auto simp: leading_ws_def find_None_iff find_Some_iff split: option.splits)

lemma trailing_ws_0: "trailing_ws xs = 0 \<longleftrightarrow> (\<forall>w \<in> set whitespace_chars. drop (length xs - length w) xs \<noteq> w)"
  using whitespace_not_Nil
  by (auto simp: trailing_ws_def find_None_iff find_Some_iff split: option.splits)

lemma leading_ws_Nil [simp]: "leading_ws [] = 0"
  using whitespace_not_Nil by (auto simp: leading_ws_0)

lemma trailing_ws_Nil [simp]: "trailing_ws [] = 0"
  using whitespace_not_Nil by (auto simp: trailing_ws_0)

lemma trim_start_done: "leading_ws (trim_start xs) = 0"
proof (induction xs rule: trim_start.induct)
  case (1 xs)
  then show ?case by (cases "leading_ws xs = 0 \<or> xs = []") (auto simp: trim_start.simps [of xs])
qed

lemma trim_end_done: "trailing_ws (trim_end xs) = 0"
proof (induction xs rule: trim_end.induct)
  case (1 xs)
  then show ?case by (cases "trailing_ws xs = 0 \<or> xs = []") (auto simp: trim_end.simps [of xs])
qed

lemma trim_end_prefix: "\<exists>post. xs = trim_end xs @ post"
proof (induction xs rule: trim_end.induct)
  case (1 xs)
  show ?case
  proof (cases "trailing_ws xs = 0 \<or> xs = []")
    case True
    then show ?thesis by (auto simp: trim_end.simps [of xs])
  next
    case False
    with 1 obtain post where "take (length xs - trailing_ws xs) xs = trim_end xs @ post"
      by (auto simp: trim_end.simps [of xs])
    then have "xs = trim_end xs @ post @ drop (length xs - trailing_ws xs) xs"
      by (metis append.assoc append_take_drop_id)
    then show ?thesis by blast
  qed
qed

lemma trim_start_suffix: "\<exists>pre. xs = pre @ trim_start xs"
proof (induction xs rule: trim_start.induct)
  case (1 xs)
  show ?case
  proof (cases "leading_ws xs = 0 \<or> xs = []")
    case True
    then show ?thesis by (auto simp: trim_start.simps [of xs])
  next
    case False
    with 1 obtain pre where "drop (leading_ws xs) xs = pre @ trim_start xs"
      by (auto simp: trim_start.simps [of xs])
    then have "xs = (take (leading_ws xs) xs @ pre) @ trim_start xs"
      by (metis append.assoc append_take_drop_id)
    then show ?thesis by blast
  qed
qed

lemma trim_infix: "\<exists>pre post. xs = pre @ trim xs @ post"
  using trim_start_suffix [of xs] trim_end_prefix [of "trim_start xs"] by (metis trim_def)

lemma trim_no_ws: "leading_ws (trim xs) = 0" "trailing_ws (trim xs) = 0"
proof -
  obtain post where p: "trim_start xs = trim xs @ post" using trim_end_prefix by (metis trim_def)
  have "take (length w) (trim xs) \<noteq> w" if "w \<in> set whitespace_chars" for w
  proof
    assume "take (length w) (trim xs) = w"
    then have "take (length w) (trim_start xs) = w" by (simp add: p) (metis append_Nil2 diff_is_0_eq length_take min.absorb_iff2 min.commute take_0)
    then show False using trim_start_done [of xs] that by (simp add: leading_ws_0)
  qed
  then show "leading_ws (trim xs) = 0" by (simp add: leading_ws_0)
  show "trailing_ws (trim xs) = 0" by (simp add: trim_def trim_end_done)
qed

lemma trim_id: "leading_ws xs = 0 \<Longrightarrow> trailing_ws xs = 0 \<Longrightarrow> trim xs = xs"
  by (simp add: trim_def trim_start.simps trim_end.simps)

lemma trim_idem [simp]: "trim (trim xs) = trim xs"
  by (simp add: trim_id trim_no_ws)

lemma trim_visible:
  assumes "list_all (\<lambda>b. 0x21 \<le> b \<and> b \<le> 0x7e) xs"
  shows "trim xs = xs"
proof (rule trim_id)
  have bad: "\<exists>b \<in> set w. \<not> (0x21 \<le> b \<and> b \<le> 0x7e)" if "w \<in> set whitespace_chars" for w
    using that by (auto simp: whitespace_chars_def)
  have vis: "\<forall>b \<in> set xs. 0x21 \<le> b \<and> b \<le> 0x7e" using assms by (simp add: list_all_iff)
  have "take (length w) xs \<noteq> w" "drop (length xs - length w) xs \<noteq> w" if "w \<in> set whitespace_chars" for w
    using bad [OF that] vis by (metis in_set_takeD, metis in_set_dropD)
  then show "leading_ws xs = 0" "trailing_ws xs = 0" by (simp_all add: leading_ws_0 trailing_ws_0)
qed

lemmas [eval] = whitespace_chars_def leading_ws_def trailing_ws_def trim_start.simps trim_end.simps
  trim_def strip_prefix_def

end
