(* ===== verification/Chunked.thy ===== *)
theory Chunked
  imports Rust_Str
begin

text \<open>
  The errors of \<open>libid-transcript/src/lib.rs\<close> and \<open>decode_chunked_body\<close> of
  \<open>libid-transcript/src/ranges.rs\<close>. The chunk-size reader \<open>httparse::parse_chunk_size\<close> is a
  parameter \<open>pcs\<close>. \<open>framed\<close> states what a chunked body is; the loop joins exactly the
  framed bodies and refuses every other input.
\<close>

section \<open>Errors\<close>

datatype io_error = UnexpectedEof | WriteZero | OtherIo string

datatype 'j error =
  Io io_error
| Json 'j
| WireProtocol string
| Transcript string

section \<open>Chunked bodies\<close>

text \<open>
  \<open>httparse::parse_chunk_size\<close>: an error, a header that is not finished yet, or the number
  of header bytes and the \<open>u64\<close> size of the chunk.
\<close>

datatype 'a status = Complete 'a | Partial

type_synonym chunk_size_parser = "bytes \<Rightarrow> unit + (nat \<times> 64 word) status"

definition bad :: "string \<Rightarrow> 'j error" where
  "bad detail = Transcript (''chunked body: '' @ detail)"

function decode_chunks :: "chunk_size_parser \<Rightarrow> bytes \<Rightarrow> bytes \<Rightarrow> 'j error + bytes" where
  "decode_chunks pcs rest out =
     (case pcs rest of
        Inl _ \<Rightarrow> Inl (bad ''chunk size is not hexadecimal'')
      | Inr Partial \<Rightarrow> Inl (bad ''ends inside a chunk header'')
      | Inr (Complete (header_len, declared)) \<Rightarrow>
          if declared = 0 then Inr out
          else (case usize_try_from (unat declared) of
            None \<Rightarrow> Inl (bad ''chunk larger than this machine'')
          | Some chunk_len \<Rightarrow>
          (case checked_add header_len chunk_len of
            None \<Rightarrow> Inl (bad ''chunk length overflows'')
          | Some body_end \<Rightarrow>
          (case get_range rest (rng header_len body_end) of
            None \<Rightarrow> Inl (bad ''chunk is shorter than its declared size'')
          | Some chunk \<Rightarrow>
          (case get_range rest (rng body_end (body_end + 2)) of
            None \<Rightarrow> Inl (bad ''ends before a chunk terminator'')
          | Some after \<Rightarrow>
              if after \<noteq> crlf then Inl (bad ''chunk is not terminated by CRLF'')
              else decode_chunks pcs (drop (body_end + 2) rest) (out @ chunk))))))"
  by pat_completeness auto
termination
  by (relation "measure (\<lambda>(pcs, rest, out). length rest)")
     (auto simp: get_range_Some_iff in_slice_def)

declare decode_chunks.simps [simp del]

definition decode_chunked_body :: "chunk_size_parser \<Rightarrow> bytes \<Rightarrow> 'j error + bytes" where
  "decode_chunked_body pcs raw = decode_chunks pcs raw []"

section \<open>Chunked framing\<close>

text \<open>
  What a chunked body is, read off the chunk-size reader: chunks of exactly their declared
  size, each closed by CRLF, up to a header that declares zero.
\<close>

inductive framed :: "chunk_size_parser \<Rightarrow> bytes \<Rightarrow> bytes list \<Rightarrow> bool" for pcs where
  framed_last: "pcs raw = Inr (Complete (n, 0)) \<Longrightarrow> framed pcs raw []"
| framed_chunk: "pcs raw = Inr (Complete (n, declared)) \<Longrightarrow> declared \<noteq> 0 \<Longrightarrow>
     n + unat declared + 2 \<le> length raw \<Longrightarrow>
     slice raw (rng (n + unat declared) (n + unat declared + 2)) = crlf \<Longrightarrow>
     framed pcs (drop (n + unat declared + 2) raw) cs \<Longrightarrow>
     framed pcs raw (slice raw (rng n (n + unat declared)) # cs)"

inductive_cases framed_NilE: "framed pcs raw []"
inductive_cases framed_ConsE: "framed pcs raw (c # cs)"

lemma decode_chunks_framed:
  "(decode_chunks pcs rest out :: 'j error + bytes) = Inr res \<Longrightarrow>
   \<exists>cs. framed pcs rest cs \<and> res = out @ concat cs"
proof (induction pcs rest out rule: decode_chunks.induct)
  case (1 pcs rest out)
  from "1.prems" obtain n declared where p: "pcs rest = Inr (Complete (n, declared))"
    by (subst (asm) decode_chunks.simps) (auto split: sum.splits status.splits)
  show ?case
  proof (cases "declared = 0")
    case True
    with "1.prems" p have "res = out"
      by (subst (asm) decode_chunks.simps) simp
    with True p show ?thesis by (intro exI [of _ "[]"]) (simp add: framed_last)
  next
    case False
    let ?e = "n + unat declared"
    from "1.prems" p False have tf: "usize_try_from (unat declared) = Some (unat declared)"
      and add: "checked_add n (unat declared) = Some ?e"
      and ch: "get_range rest (rng n ?e) = Some (slice rest (rng n ?e))"
      and af: "get_range rest (rng ?e (?e + 2)) = Some crlf"
      and rec: "(decode_chunks pcs (drop (?e + 2) rest) (out @ slice rest (rng n ?e)) :: 'j error + bytes) = Inr res"
      unfolding decode_chunks.simps [of pcs rest out]
      by (auto simp: usize_try_from_def checked_add_def get_range_def split: option.splits if_splits)
    from "1.IH" [OF p refl refl False tf add ch af] rec obtain cs
      where cs: "framed pcs (drop (?e + 2) rest) cs" "res = (out @ slice rest (rng n ?e)) @ concat cs"
      by auto
    have "framed pcs rest (slice rest (rng n ?e) # cs)"
      using p False af cs(1) by (intro framed_chunk) (auto simp: get_range_Some_iff in_slice_def)
    with cs(2) show ?thesis by (intro exI [of _ "slice rest (rng n ?e) # cs"]) simp
  qed
qed

lemma framed_decode_chunks:
  "framed pcs raw cs \<Longrightarrow> slice_ok raw \<Longrightarrow>
   (decode_chunks pcs raw out :: 'j error + bytes) = Inr (out @ concat cs)"
proof (induction raw cs arbitrary: out rule: framed.induct)
  case (framed_last raw n)
  then show ?case by (subst decode_chunks.simps) simp
next
  case (framed_chunk raw n declared cs)
  let ?e = "n + unat declared"
  have le: "?e + 2 \<le> usize_max"
    using framed_chunk.hyps(3) framed_chunk.prems isize_lt_usize by linarith
  then have "usize_try_from (unat declared) = Some (unat declared)" "checked_add n (unat declared) = Some ?e"
    by (simp_all add: usize_try_from_def checked_add_def)
  moreover have "get_range raw (rng n ?e) = Some (slice raw (rng n ?e))" "get_range raw (rng ?e (?e + 2)) = Some crlf"
    using framed_chunk.hyps(3,4) by (simp_all add: get_range_def in_slice_def)
  moreover have "(decode_chunks pcs (drop (?e + 2) raw) (out @ slice raw (rng n ?e)) :: 'j error + bytes)
      = Inr ((out @ slice raw (rng n ?e)) @ concat cs)"
    using framed_chunk.IH framed_chunk.prems by auto
  ultimately show ?case
    using framed_chunk.hyps(1,2) by (subst decode_chunks.simps) simp
qed

text \<open>
  The documented contract of the chunk-size reader on a header \<open>hdr n\<close>: it reports the
  header's length and the size it declares, whatever follows.
\<close>

definition reads_headers :: "chunk_size_parser \<Rightarrow> (nat \<Rightarrow> bytes) \<Rightarrow> bool" where
  "reads_headers pcs hdr \<longleftrightarrow>
     (\<forall>n < 2 ^ 64. \<forall>rest. pcs (hdr n @ rest) = Inr (Complete (length (hdr n), of_nat n)))"

definition chunk_frame :: "(nat \<Rightarrow> bytes) \<Rightarrow> bytes \<Rightarrow> bytes" where
  "chunk_frame hdr c = hdr (length c) @ c @ crlf"

definition frame_chunks :: "(nat \<Rightarrow> bytes) \<Rightarrow> bytes list \<Rightarrow> bytes" where
  "frame_chunks hdr cs = concat (map (chunk_frame hdr) cs) @ hdr 0"

lemma framed_frame_chunks:
  assumes "reads_headers pcs hdr" and "\<forall>c \<in> set cs. c \<noteq> [] \<and> slice_ok c"
  shows "framed pcs (frame_chunks hdr cs @ trailer) cs"
  using assms(2)
proof (induction cs)
  case Nil
  then show ?case
    using assms(1) by (auto simp: reads_headers_def frame_chunks_def intro: framed_last)
next
  case (Cons c cs)
  let ?h = "hdr (length c)" and ?rest = "frame_chunks hdr cs @ trailer"
  let ?raw = "?h @ c @ crlf @ ?rest"
  have lt: "length c < 2 ^ 64" using Cons.prems by (simp add: isize_max_def)
  then have u: "unat (of_nat (length c) :: 64 word) = length c" by (simp add: unat_of_nat)
  have p: "pcs ?raw = Inr (Complete (length ?h, of_nat (length c)))"
    using assms(1) lt by (simp add: reads_headers_def)
  have nz: "(of_nat (length c) :: 64 word) \<noteq> 0" using u Cons.prems by auto
  have "framed pcs ?raw (slice ?raw (rng (length ?h) (length ?h + unat (of_nat (length c) :: 64 word))) # cs)"
    using p nz
  proof (rule framed_chunk)
    show "framed pcs (drop (length ?h + unat (of_nat (length c) :: 64 word) + 2) ?raw) cs"
      using Cons by (simp add: u)
  qed (simp_all add: u slice_def)
  then show ?case by (simp add: u slice_def frame_chunks_def chunk_frame_def)
qed

section \<open>An instance of the chunk-size reader\<close>

text \<open>
  The hexadecimal headers of RFC 9112, without extensions, as one instance of the
  parameter: the contract above can be met, and examples can be evaluated.
\<close>

definition hex_digit :: "nat \<Rightarrow> byte" where
  "hex_digit d = (if d < 10 then 0x30 + of_nat d else 0x57 + of_nat d)"

definition hex_value :: "byte \<Rightarrow> nat" where
  "hex_value c = (if c \<le> 0x39 then unat c - 0x30 else if c \<le> 0x46 then unat c - 0x37 else unat c - 0x57)"

fun hex_of :: "nat \<Rightarrow> bytes" where
  "hex_of n = (if n < 16 then [hex_digit n] else hex_of (n div 16) @ [hex_digit (n mod 16)])"

declare hex_of.simps [simp del]

definition hex_header :: "nat \<Rightarrow> bytes" where
  "hex_header n = hex_of n @ crlf"

definition hex_number :: "bytes \<Rightarrow> nat" where
  "hex_number ds = foldl (\<lambda>a c. 16 * a + hex_value c) 0 ds"

definition hex_chunk_size :: chunk_size_parser where
  "hex_chunk_size bs =
     (let ds = takeWhile is_ascii_hexdigit bs; rest = drop (length ds) bs in
      if ds = [] then (if bs = [] then Inr Partial else Inl ())
      else if length ds > 16 then Inl ()
      else if rest = [] \<or> rest = [13] then Inr Partial
      else if take 2 rest = crlf then Inr (Complete (length ds + 2, of_nat (hex_number ds)))
      else Inl ())"

lemma hex_digit_cases: "d < 16 \<Longrightarrow> is_ascii_hexdigit (hex_digit d) \<and> hex_value (hex_digit d) = d"
proof -
  assume "d < 16"
  then have "d = 0 \<or> d = 1 \<or> d = 2 \<or> d = 3 \<or> d = 4 \<or> d = 5 \<or> d = 6 \<or> d = 7 \<or>
      d = 8 \<or> d = 9 \<or> d = 10 \<or> d = 11 \<or> d = 12 \<or> d = 13 \<or> d = 14 \<or> d = 15"
    by arith
  then show ?thesis
    by (elim disjE) (simp_all add: hex_digit_def hex_value_def is_ascii_hexdigit_def is_ascii_digit_def)
qed

lemma hex_of_digits: "\<forall>c \<in> set (hex_of n). is_ascii_hexdigit c"
proof (induction n rule: hex_of.induct)
  case (1 n)
  then show ?case by (subst hex_of.simps) (auto simp: hex_digit_cases)
qed

lemma hex_number_of: "hex_number (hex_of n) = n"
proof (induction n rule: hex_of.induct)
  case (1 n)
  then show ?case
    by (subst hex_of.simps) (auto simp: hex_number_def hex_digit_cases)
qed

lemma hex_of_length: "n < 16 ^ Suc k \<Longrightarrow> length (hex_of n) \<le> Suc k"
proof (induction k arbitrary: n)
  case 0
  then show ?case by (subst hex_of.simps) simp
next
  case (Suc k)
  then have "n div 16 < 16 ^ Suc k" by (simp add: less_mult_imp_div_less)
  from Suc.IH [OF this] show ?case by (subst hex_of.simps) simp
qed

lemma hex_of_neq_Nil [simp]: "hex_of n \<noteq> []"
  by (subst hex_of.simps) simp

lemma hex_chunk_size_reads: "reads_headers hex_chunk_size hex_header"
  unfolding reads_headers_def
proof (intro allI impI)
  fix n :: nat and rest :: bytes
  assume "n < 2 ^ 64"
  then have len: "length (hex_of n) \<le> 16"
    using hex_of_length [of n 15] by simp
  have "takeWhile is_ascii_hexdigit (hex_header n @ rest) = hex_of n"
    using hex_of_digits [of n]
    by (simp add: hex_header_def crlf_def takeWhile_append2 is_ascii_hexdigit_def is_ascii_digit_def)
  then show "hex_chunk_size (hex_header n @ rest) = Inr (Complete (length (hex_header n), of_nat n))"
    using len by (simp add: hex_chunk_size_def Let_def hex_number_of) (simp add: hex_header_def crlf_def)
qed

lemmas [eval] = bad_def decode_chunks.simps decode_chunked_body_def chunk_frame_def frame_chunks_def
  hex_digit_def hex_value_def hex_of.simps hex_header_def hex_number_def hex_chunk_size_def

section \<open>Properties\<close>

lemma length_chunk_le: "c \<in> set cs \<Longrightarrow> length c \<le> length (frame_chunks hdr cs)"
  by (induction cs) (auto simp: frame_chunks_def chunk_frame_def)

text \<open>C13. Chunked decoding is exactly the framing: a body is joined to \<open>out\<close> if and only if it
  is a run of complete, CRLF-closed chunks up to a zero header and \<open>out\<close> is their
  concatenation; every other body is an error, never a shorter body.\<close>
theorem decode_chunked_body_refines:
  assumes "slice_ok raw"
  shows "(decode_chunked_body pcs raw :: 'j error + bytes) = Inr out \<longleftrightarrow>
         (\<exists>cs. framed pcs raw cs \<and> out = concat cs)"
  unfolding decode_chunked_body_def
  using decode_chunks_framed framed_decode_chunks [OF _ assms] by (metis append_Nil sum.inject(2))

theorem decode_chunked_body_refines_witness:
  "(\<exists>cs. framed hex_chunk_size (ascii ''5'' @ crlf @ ascii ''hello'' @ crlf @ ascii ''0'' @ crlf @ crlf) cs \<and>
         ascii ''hello'' = concat cs)"
proof -
  let ?raw = "ascii ''5'' @ crlf @ ascii ''hello'' @ crlf @ ascii ''0'' @ crlf @ crlf"
  have "slice_ok ?raw" by (simp add: isize_max_def)
  moreover have "(decode_chunked_body hex_chunk_size ?raw :: unit error + bytes) = Inr (ascii ''hello'')"
    by (simp add: eval)
  ultimately show ?thesis by (rule decode_chunked_body_refines [where 'j = unit, THEN iffD1])
qed

text \<open>Round trip: whatever non-empty chunks a server frames, and whatever follows the last
  header, decoding gives back the concatenation of the chunks.\<close>
theorem chunked_roundtrip:
  assumes "reads_headers pcs hdr" and "\<forall>c \<in> set cs. c \<noteq> []"
    and "slice_ok (frame_chunks hdr cs @ trailer)"
  shows "decode_chunked_body pcs (frame_chunks hdr cs @ trailer) = Inr (concat cs)"
proof -
  have "\<forall>c \<in> set cs. c \<noteq> [] \<and> slice_ok c"
    using assms(2,3) length_chunk_le [of _ cs hdr] by fastforce
  then show ?thesis
    by (simp add: decode_chunked_body_def framed_decode_chunks [OF framed_frame_chunks [OF assms(1)] assms(3)])
qed

theorem chunked_roundtrip_witness:
  "decode_chunked_body hex_chunk_size
     (frame_chunks hex_header [ascii ''ab'', ascii ''cde''] @ crlf) = Inr (ascii ''abcde'')"
proof -
  have "slice_ok (frame_chunks hex_header [ascii ''ab'', ascii ''cde''] @ crlf)"
    by (simp add: eval)
  then show ?thesis
    using chunked_roundtrip [OF hex_chunk_size_reads, of "[ascii ''ab'', ascii ''cde'']" crlf]
    by (simp add: ascii_def)
qed

end
