(* ===== verification/Json_Members.thy ===== *)
theory Json_Members
  imports Rust_Str
begin

text \<open>
  The JSON member scans of \<open>libid-transcript/src/ranges.rs\<close> over one body: \<open>find_first\<close>,
  \<open>skip_json_whitespace\<close>, \<open>key_and_value\<close>, \<open>JsonMember::in_body\<close> and
  \<open>find_json_bare_snippet_range\<close>. \<open>member_at\<close> says what a match is without the scan; the scan
  is the least match, and each result is exactly its template at its offset.
\<close>

section \<open>JSON members\<close>

text \<open>\<open>needle\<close> is never empty at any call.\<close>

definition find_first :: "bytes \<Rightarrow> bytes \<Rightarrow> nat option" where
  "find_first haystack needle = windows_position (length needle) (\<lambda>w. w = needle) haystack"

definition is_json_whitespace :: "byte \<Rightarrow> bool" where
  "is_json_whitespace c \<longleftrightarrow> c = 0x20 \<or> c = 0x09 \<or> c = 0x0A \<or> c = 0x0D"

function skip_json_whitespace :: "bytes \<Rightarrow> nat \<Rightarrow> nat" where
  "skip_json_whitespace body at =
     (case get_at body at of
        Some c \<Rightarrow> if is_json_whitespace c then skip_json_whitespace body (at + 1) else at
      | None \<Rightarrow> at)"
  by pat_completeness auto
termination
  by (relation "measure (\<lambda>(body, at). length body - at)") (auto simp: get_at_Some_iff)

declare skip_json_whitespace.simps [simp del]

abbreviation quote :: byte where "quote \<equiv> 0x22"
abbreviation colon :: byte where "colon \<equiv> 0x3A"
abbreviation comma :: byte where "comma \<equiv> 0x2C"
abbreviation rbrace :: byte where "rbrace \<equiv> 0x7D"

text \<open>
  What follows the key found at \<open>start\<close>: the value's offset when a colon (and, if asked
  for, a quote) follows; \<open>Some None\<close> is "not this occurrence", \<open>None\<close> the early return of
  a \<open>?\<close>.
\<close>

definition value_after_key :: "bytes \<Rightarrow> bytes \<Rightarrow> bool \<Rightarrow> nat \<Rightarrow> nat option option" where
  "value_after_key body key quoted start = do {
     after_key \<leftarrow> checked_add start (length key);
     let at_colon = skip_json_whitespace body after_key;
     if get_at body at_colon = Some colon then do {
       after_colon \<leftarrow> checked_add at_colon 1;
       let at_value = skip_json_whitespace body after_colon;
       Some (if \<not> quoted \<or> get_at body at_value = Some quote then Some at_value else None)
     } else Some None
   }"

text \<open>The loop of \<open>key_and_value\<close>, one call per value of \<open>from\<close>.\<close>

function key_and_value_from :: "bytes \<Rightarrow> bytes \<Rightarrow> bool \<Rightarrow> nat \<Rightarrow> (nat \<times> nat) option" where
  "key_and_value_from body key quoted from = do {
     rest \<leftarrow> get_from body from;
     p \<leftarrow> find_first rest key;
     start \<leftarrow> checked_add p from;
     hit \<leftarrow> value_after_key body key quoted start;
     (case hit of
        Some at_value \<Rightarrow> Some (start, at_value)
      | None \<Rightarrow> do { from' \<leftarrow> checked_add start 1; key_and_value_from body key quoted from' })
   }"
  by pat_completeness auto
termination
  by (relation "measure (\<lambda>(body, key, quoted, from). Suc (length body) - from)")
     (auto simp: get_from_Some_iff checked_add_Some_iff)

declare key_and_value_from.simps [simp del]

definition quoted_key :: "bytes \<Rightarrow> bytes" where
  "quoted_key field = [quote] @ field @ [quote]"

definition key_and_value :: "bytes \<Rightarrow> bytes \<Rightarrow> bool \<Rightarrow> (nat \<times> nat) option" where
  "key_and_value body field quoted = key_and_value_from body (quoted_key field) quoted 0"

record json_member =
  member_rng :: span
  value_rng :: span

definition in_body :: "bytes \<Rightarrow> bytes \<Rightarrow> json_member option" where
  "in_body body field = do {
     (start, at_quote) \<leftarrow> key_and_value body field True;
     at_value \<leftarrow> checked_add at_quote 1;
     rest \<leftarrow> get_from body at_value;
     p \<leftarrow> position (\<lambda>b. b = quote) rest;
     close \<leftarrow> checked_add p at_value;
     member_end \<leftarrow> checked_add close 1;
     Some \<lparr>member_rng = rng start member_end, value_rng = rng at_value close\<rparr>
   }"

definition find_json_snippet_range :: "bytes \<Rightarrow> bytes \<Rightarrow> span option" where
  "find_json_snippet_range body field = map_option member_rng (in_body body field)"

definition find_json_bare_snippet_range :: "bytes \<Rightarrow> bytes \<Rightarrow> span option" where
  "find_json_bare_snippet_range body field = do {
     (start, digits) \<leftarrow> key_and_value body field False;
     rest \<leftarrow> get_from body digits;
     let width = length (takeWhile is_ascii_digit rest);
     if width = 0 then None
     else if width > 1 \<and> rest ! 0 = 0x30 then None
     else do {
       after_digits \<leftarrow> checked_add digits width;
       let term = skip_json_whitespace body after_digits;
       (case get_at body term of
          Some c \<Rightarrow> if c = comma \<or> c = rbrace
                    then do { e \<leftarrow> checked_add term 1; Some (rng start e) }
                    else None
        | None \<Rightarrow> None)
     }
   }"

section \<open>What the scans find\<close>

lemma skip_json_whitespace_eq:
  "skip_json_whitespace body at = at + length (takeWhile is_json_whitespace (drop at body))"
proof (induction body at rule: skip_json_whitespace.induct)
  case (1 body at)
  show ?case
  proof (cases "at < length body")
    case True
    then have "drop at body = body ! at # drop (Suc at) body" by (simp add: Cons_nth_drop_Suc)
    with True 1 show ?thesis
      by (subst skip_json_whitespace.simps) (simp add: get_at_def)
  next
    case False
    then show ?thesis by (subst skip_json_whitespace.simps) (simp add: get_at_def)
  qed
qed

lemma skip_json_whitespace_bounds:
  "at \<le> length body \<Longrightarrow> at \<le> skip_json_whitespace body at \<and> skip_json_whitespace body at \<le> length body"
  using length_takeWhile_le [of is_json_whitespace "drop at body"]
  by (auto simp: skip_json_whitespace_eq)

interpretation key_search: first_search "\<lambda>xs. find_first xs needle" "occurs_at needle" "\<lambda>_. True" for needle
proof (unfold_locales, goal_cases)
  case (1 xs i)
  then show ?case using win.search_hit by (fastforce simp: find_first_def)
next
  case (2 xs i j)
  then show ?case using win.search_least by (fastforce simp: find_first_def)
next
  case (3 xs j)
  then show ?case
    using win.search_complete [of "length needle" "\<lambda>w. w = needle" xs j] by (simp add: find_first_def)
qed

text \<open>
  What the scan looks for, independent of the scan: a key at \<open>s\<close>, a colon after the
  whitespace behind it, and the value at \<open>v\<close> after the whitespace behind that.
\<close>

definition member_at :: "bytes \<Rightarrow> bytes \<Rightarrow> bool \<Rightarrow> nat \<Rightarrow> nat \<Rightarrow> bool" where
  "member_at body key quoted s v \<longleftrightarrow>
     (let c = skip_json_whitespace body (s + length key) in
      occurs_at key body s \<and> get_at body c = Some colon \<and>
      v = skip_json_whitespace body (c + 1) \<and> (quoted \<longrightarrow> get_at body v = Some quote))"

lemma value_after_key_hit:
  "value_after_key body key quoted start = Some (Some v) \<Longrightarrow> occurs_at key body start \<Longrightarrow>
   member_at body key quoted start v"
  by (auto simp: value_after_key_def member_at_def Let_def bind_eq_Some_conv checked_add_Some_iff
      split: if_splits)

lemma value_after_key_miss:
  "value_after_key body key quoted start = Some None \<Longrightarrow> \<not> member_at body key quoted start v"
  by (auto simp: value_after_key_def member_at_def Let_def bind_eq_Some_conv checked_add_Some_iff
      split: if_splits)

lemma value_after_key_returns:
  assumes "slice_ok body" and "occurs_at key body start"
  shows "value_after_key body key quoted start \<noteq> None"
proof -
  have "checked_add start (length key) = Some (start + length key)"
    using assms by (intro checked_add_slice [of body]) (auto simp: occurs_at_def)
  moreover have "checked_add c 1 = Some (c + 1)" if "get_at body c = Some x" for c x
    using that assms(1) by (intro checked_add_slice [of body]) (auto simp: get_at_Some_iff)
  ultimately show ?thesis by (auto simp: value_after_key_def Let_def)
qed

lemma key_and_value_from_Some:
  "key_and_value_from body key quoted from = Some (s, v) \<Longrightarrow>
   from \<le> s \<and> member_at body key quoted s v \<and> (\<forall>j v'. from \<le> j \<and> j < s \<longrightarrow> \<not> member_at body key quoted j v')"
proof (induction body key quoted "from" arbitrary: s v rule: key_and_value_from.induct)
  case (1 body key quoted "from")
  from "1.prems" obtain rest p start hit where
      rest: "get_from body from = Some rest" and p: "find_first rest key = Some p"
    and start: "checked_add p from = Some start"
    and hit: "value_after_key body key quoted start = Some hit"
    and res: "(case hit of
        Some at_value \<Rightarrow> Some (start, at_value)
      | None \<Rightarrow> do { from' \<leftarrow> checked_add start 1; key_and_value_from body key quoted from' }) = Some (s, v)"
    unfolding key_and_value_from.simps [of body key quoted "from"]
    by (auto simp: bind_eq_Some_conv simp del: One_nat_def)
  have r: "rest = drop from body" "from \<le> length body" using rest by (simp_all add: get_from_Some_iff)
  have st: "start = p + from" using start by (simp add: checked_add_Some_iff)
  have occ: "occurs_at key body start"
    using key_search.search_hit [OF p] r st by (auto simp: occurs_at_def add.commute)
  have skipped: "\<not> member_at body key quoted j v'" if "from \<le> j" "j < start" for j v'
  proof -
    have "\<not> occurs_at key rest (j - from)"
      using key_search.search_least [OF p, of "j - from"] that st by simp
    then have "\<not> occurs_at key body j"
      using r that by (auto simp: occurs_at_def)
    then show ?thesis by (simp add: member_at_def Let_def)
  qed
  show ?case
  proof (cases hit)
    case (Some at_value)
    with res have "s = start" "v = at_value" by simp_all
    moreover have "member_at body key quoted start at_value"
      using value_after_key_hit hit Some occ by blast
    ultimately show ?thesis using skipped st by auto
  next
    case None
    with res obtain from' where f: "checked_add start 1 = Some from'"
        "key_and_value_from body key quoted from' = Some (s, v)"
      by (auto simp: bind_eq_Some_conv)
    have here: "\<not> member_at body key quoted start v'" for v'
      using hit None value_after_key_miss by blast
    have ih: "from' \<le> s \<and> member_at body key quoted s v \<and>
        (\<forall>j v'. from' \<le> j \<and> j < s \<longrightarrow> \<not> member_at body key quoted j v')"
      using "1.IH" rest p start hit None f by blast
    have f': "from' = Suc start" using f by (simp add: checked_add_Some_iff)
    have "\<not> member_at body key quoted j v'" if "from \<le> j" "j < s" for j v'
    proof (cases "j = start")
      case False
      then consider "j < start" | "from' \<le> j" using f' by linarith
      then show ?thesis using that ih skipped by cases auto
    qed (use here in simp)
    with ih f' st show ?thesis by auto
  qed
qed

lemma key_and_value_from_None:
  "key_and_value_from body key quoted from = None \<Longrightarrow> slice_ok body \<Longrightarrow> from \<le> j \<Longrightarrow>
   \<not> member_at body key quoted j v"
proof (induction body key quoted "from" arbitrary: rule: key_and_value_from.induct)
  case (1 body key quoted "from")
  show ?case
  proof
    assume m: "member_at body key quoted j v"
    then have occ: "occurs_at key body j" by (simp add: member_at_def Let_def)
    then have j: "j \<le> length body" by (simp add: occurs_at_def)
    with "1.prems" have rest: "get_from body from = Some (drop from body)"
      by (simp add: get_from_def)
    have "occurs_at key (drop from body) (j - from)"
      using occ "1.prems"(3) by (auto simp: occurs_at_def)
    then obtain p where p: "find_first (drop from body) key = Some p" "p \<le> j - from"
      using key_search.search_finds [OF TrueI] by blast
    let ?start = "p + from"
    have "occurs_at key (drop from body) p" using key_search.search_hit [OF p(1)] .
    then have occ': "occurs_at key body ?start"
      using j "1.prems"(3) by (auto simp: occurs_at_def add.commute)
    have start: "checked_add p from = Some ?start"
      using p j "1.prems" by (intro checked_add_slice) auto
    obtain hit where hit: "value_after_key body key quoted ?start = Some hit"
      using value_after_key_returns [OF "1.prems"(2) occ'] by blast
    have eq: "key_and_value_from body key quoted from = (case hit of
        Some at_value \<Rightarrow> Some (?start, at_value)
      | None \<Rightarrow> do { from' \<leftarrow> checked_add ?start 1; key_and_value_from body key quoted from' })"
      unfolding key_and_value_from.simps [of body key quoted "from"]
      using rest p(1) start hit by (simp del: One_nat_def)
    with "1.prems"(1) have none: "hit = None" by (cases hit) simp_all
    have one: "checked_add ?start 1 = Some (Suc ?start)"
      using checked_add_slice [OF "1.prems"(2), of ?start 1] p j "1.prems"(3) by simp
    with eq none "1.prems"(1) have "key_and_value_from body key quoted (Suc ?start) = None" by simp
    moreover have "Suc ?start \<le> j"
      using value_after_key_miss [of body key quoted ?start v] hit none m p(2) "1.prems"(3)
      by (cases "?start = j") auto
    ultimately show False
      using "1.IH" [OF rest p(1) start hit none one] "1.prems"(2) m by blast
  qed
qed

definition member_start :: "bytes \<Rightarrow> bool \<Rightarrow> bytes \<Rightarrow> nat \<Rightarrow> bool" where
  "member_start field quoted body s \<longleftrightarrow> (\<exists>v. member_at body (quoted_key field) quoted s v)"

interpretation member_scan: first_search "\<lambda>body. map_option fst (key_and_value body field quoted)"
  "member_start field quoted" slice_ok for field quoted
proof (unfold_locales, goal_cases)
  case (1 xs i)
  then show ?case by (auto simp: key_and_value_def member_start_def dest: key_and_value_from_Some)
next
  case (2 xs i j)
  then show ?case by (auto simp: key_and_value_def member_start_def dest: key_and_value_from_Some)
next
  case (3 xs j)
  then show ?case
    using key_and_value_from_None [of xs "quoted_key field" quoted 0 j]
    by (auto simp: key_and_value_def member_start_def)
qed

section \<open>Templates\<close>

definition json_ws :: "bytes \<Rightarrow> bool" where
  "json_ws ws \<longleftrightarrow> (\<forall>c \<in> set ws. is_json_whitespace c)"

definition ws_ends :: "bytes \<Rightarrow> bool" where
  "ws_ends post \<longleftrightarrow> post = [] \<or> \<not> is_json_whitespace (hd post)"

lemma structural_not_ws [simp]:
  "\<not> is_json_whitespace colon" "\<not> is_json_whitespace quote"
  "\<not> is_json_whitespace comma" "\<not> is_json_whitespace rbrace"
  by (simp_all add: is_json_whitespace_def)

lemma ws_ends_Cons [simp]: "ws_ends (c # post) \<longleftrightarrow> \<not> is_json_whitespace c"
  by (simp add: ws_ends_def)

lemma takeWhile_ws: "json_ws ws \<Longrightarrow> ws_ends post \<Longrightarrow> takeWhile is_json_whitespace (ws @ post) = ws"
  by (cases post) (auto simp: json_ws_def ws_ends_def takeWhile_tail)

lemma skip_over:
  assumes "json_ws ws" and "ws_ends post" and "body = pre @ ws @ post" and "at = length pre"
  shows "skip_json_whitespace body at = length pre + length ws"
  using takeWhile_ws [OF assms(1,2)] assms(3,4) by (simp add: skip_json_whitespace_eq)

lemma skip_splits:
  assumes "at \<le> length body"
  obtains ws post where "drop at body = ws @ post" and "json_ws ws" and "ws_ends post"
    and "skip_json_whitespace body at = at + length ws"
proof
  let ?ws = "takeWhile is_json_whitespace (drop at body)"
  let ?post = "dropWhile is_json_whitespace (drop at body)"
  show "drop at body = ?ws @ ?post" by simp
  show "json_ws ?ws" by (auto simp: json_ws_def dest: set_takeWhileD)
  show "ws_ends ?post" unfolding ws_ends_def using hd_dropWhile by blast
  show "skip_json_whitespace body at = at + length ?ws" by (rule skip_json_whitespace_eq)
qed

lemma get_at_split: "get_at body i = Some c \<Longrightarrow> drop i body = c # drop (Suc i) body"
  by (auto simp: get_at_Some_iff Cons_nth_drop_Suc)

text \<open>The template a match is an instance of, on either kind of value.\<close>

lemma member_at_iff:
  "member_at body key quoted s v \<longleftrightarrow>
   (\<exists>pre ws1 ws2 post. body = pre @ key @ ws1 @ [colon] @ ws2 @ post \<and> length pre = s \<and>
      json_ws ws1 \<and> json_ws ws2 \<and> ws_ends post \<and> (quoted \<longrightarrow> post \<noteq> [] \<and> hd post = quote) \<and>
      v = s + length key + length ws1 + 1 + length ws2)"
  (is "_ \<longleftrightarrow> ?R")
proof
  assume m: "member_at body key quoted s v"
  let ?c = "skip_json_whitespace body (s + length key)"
  from m obtain pre rest where pre: "body = pre @ key @ rest" "length pre = s"
    by (auto simp: member_at_def Let_def occurs_at_split)
  then have "s + length key \<le> length body" by simp
  then obtain ws1 rest1 where ws1: "drop (s + length key) body = ws1 @ rest1" "json_ws ws1"
      "?c = s + length key + length ws1"
    by (rule skip_splits)
  have rest: "rest = ws1 @ rest1" using pre ws1(1) by simp
  from m have "get_at body ?c = Some colon" by (simp add: member_at_def Let_def)
  from get_at_split [OF this] obtain rest2 where rest1: "rest1 = colon # rest2"
    using pre rest ws1(3) by simp
  have c1: "?c + 1 \<le> length body" and d: "drop (?c + 1) body = rest2"
    using pre rest rest1 ws1(3) by simp_all
  from c1 obtain ws2 post where ws2: "drop (?c + 1) body = ws2 @ post" "json_ws ws2" "ws_ends post"
      "skip_json_whitespace body (?c + 1) = ?c + 1 + length ws2"
    by (rule skip_splits)
  from m have "v = skip_json_whitespace body (?c + 1)" and q: "quoted \<longrightarrow> get_at body v = Some quote"
    unfolding member_at_def Let_def by blast+
  with ws2(4) have v: "v = ?c + 1 + length ws2" by simp
  have body: "body = pre @ key @ ws1 @ [colon] @ ws2 @ post"
    using pre rest rest1 d ws2(1) by simp
  moreover have "quoted \<longrightarrow> post \<noteq> [] \<and> hd post = quote"
    using q v ws1(3) body pre(2) by (auto dest!: get_at_split) (metis list.sel(1))
  ultimately show ?R
    by - (rule exI [of _ pre], rule exI [of _ ws1], rule exI [of _ ws2], rule exI [of _ post], use pre(2) ws1(2,3) ws2(2,3) v in simp)
next
  assume ?R
  then obtain pre ws1 ws2 post where b: "body = pre @ key @ ws1 @ [colon] @ ws2 @ post"
    and s: "length pre = s" and ws: "json_ws ws1" "json_ws ws2" "ws_ends post"
    and q: "quoted \<longrightarrow> post \<noteq> [] \<and> hd post = quote"
    and v: "v = s + length key + length ws1 + 1 + length ws2" by blast
  have c: "skip_json_whitespace body (s + length key) = length (pre @ key) + length ws1"
    by (rule skip_over [OF ws(1), of "[colon] @ ws2 @ post"]) (simp_all add: b s)
  have vv: "skip_json_whitespace body (length (pre @ key) + length ws1 + 1)
      = length (pre @ key @ ws1 @ [colon]) + length ws2"
    by (rule skip_over [OF ws(2,3)]) (simp_all add: b)
  have "occurs_at key body s" using b s by (auto simp: occurs_at_split)
  moreover have "get_at body (length (pre @ key) + length ws1) = Some colon"
    by (simp add: get_at_def b nth_append)
  moreover have "quoted \<longrightarrow> get_at body v = Some quote"
    using q by (cases post) (auto simp: get_at_def b v s [symmetric] nth_append)
  ultimately show "member_at body key quoted s v"
    using c vv v s by (simp add: member_at_def Let_def)
qed

text \<open>A string member: the key, the colon with its whitespace, and the quoted value.\<close>

definition member_text :: "bytes \<Rightarrow> bytes \<Rightarrow> bytes \<Rightarrow> bytes \<Rightarrow> bytes" where
  "member_text field ws1 ws2 val = quoted_key field @ ws1 @ [colon] @ ws2 @ [quote] @ val @ [quote]"

definition member_head :: "bytes \<Rightarrow> bytes \<Rightarrow> bytes \<Rightarrow> bytes" where
  "member_head field ws1 ws2 = quoted_key field @ ws1 @ [colon] @ ws2 @ [quote]"

lemma member_text_head: "member_text field ws1 ws2 val = member_head field ws1 ws2 @ val @ [quote]"
  by (simp add: member_text_def member_head_def)

lemma member_text_value:
  assumes "json_ws ws1" "json_ws ws2" "json_ws ws1'" "json_ws ws2'"
    and eq: "member_text field ws1 ws2 val = member_text field ws1' ws2' val'"
  shows "ws1 = ws1' \<and> ws2 = ws2' \<and> val = val'"
proof -
  from eq have e1: "ws1 @ colon # ws2 @ quote # val @ [quote] = ws1' @ colon # ws2' @ quote # val' @ [quote]"
    by (simp add: member_text_def)
  then have "ws1 = ws1'"
    using takeWhile_ws [OF assms(1)] takeWhile_ws [OF assms(3)] by (metis ws_ends_Cons structural_not_ws(1))
  with e1 have e2: "ws2 @ quote # val @ [quote] = ws2' @ quote # val' @ [quote]" by simp
  then have "ws2 = ws2'"
    using takeWhile_ws [OF assms(2)] takeWhile_ws [OF assms(4)] by (metis ws_ends_Cons structural_not_ws(2))
  with e2 \<open>ws1 = ws1'\<close> show ?thesis by simp
qed

definition located :: "nat \<Rightarrow> bytes \<Rightarrow> bytes \<Rightarrow> bytes \<Rightarrow> bytes \<Rightarrow> json_member" where
  "located at field ws1 ws2 val =
     (let vs = at + length (member_head field ws1 ws2) in
      \<lparr>member_rng = rng at (vs + length val + 1), value_rng = rng vs (vs + length val)\<rparr>)"

definition first_member :: "bytes \<Rightarrow> bytes \<Rightarrow> bytes \<Rightarrow> bytes \<Rightarrow> bytes \<Rightarrow> bytes \<Rightarrow> bytes \<Rightarrow> bool" where
  "first_member body field pre ws1 ws2 val post \<longleftrightarrow>
     body = pre @ member_text field ws1 ws2 val @ post \<and> json_ws ws1 \<and> json_ws ws2 \<and>
     quote \<notin> set val \<and> (\<forall>j < length pre. \<not> member_start field True body j)"

lemma in_body_Some:
  assumes "in_body body field = Some m"
  obtains pre ws1 ws2 val post where "first_member body field pre ws1 ws2 val post"
    and "m = located (length pre) field ws1 ws2 val"
proof -
  from assms obtain s q p where kv: "key_and_value body field True = Some (s, q)"
    and q1: "q + 1 \<le> length body" and p: "position (\<lambda>b. b = quote) (drop (q + 1) body) = Some p"
    and m: "m = \<lparr>member_rng = rng s (p + (q + 1) + 1), value_rng = rng (q + 1) (p + (q + 1))\<rparr>"
    by (auto simp: in_body_def bind_eq_Some_conv checked_add_Some_iff get_from_Some_iff)
  from kv have at: "member_at body (quoted_key field) True s q"
    and least: "\<forall>j < s. \<not> member_start field True body j"
    by (auto simp: key_and_value_def member_start_def dest: key_and_value_from_Some)
  from at obtain pre ws1 ws2 rest where b: "body = pre @ quoted_key field @ ws1 @ [colon] @ ws2 @ rest"
    and s: "length pre = s" and ws: "json_ws ws1" "json_ws ws2" and r: "rest \<noteq> []" "hd rest = quote"
    and q: "q = s + length (quoted_key field) + length ws1 + 1 + length ws2"
    unfolding member_at_iff by auto
  from r obtain rest' where rest: "rest = quote # rest'" by (cases rest) auto
  have d: "drop (q + 1) body = rest'" using b s q rest by simp
  from p d have pp: "p < length rest'" "rest' ! p = quote" "\<forall>j<p. rest' ! j \<noteq> quote"
    by (auto simp: position_Some_iff)
  let ?val = "take p rest'"
  have "rest' = ?val @ [quote] @ drop (Suc p) rest'"
    using pp by (simp add: id_take_nth_drop [symmetric]) (metis id_take_nth_drop)
  then have "body = pre @ member_text field ws1 ws2 ?val @ drop (Suc p) rest'"
    using b rest by (simp add: member_text_def)
  moreover have "quote \<notin> set ?val" using pp(1,3) by (auto simp: in_set_conv_nth)
  ultimately have "first_member body field pre ws1 ws2 ?val (drop (Suc p) rest')"
    using ws least s by (simp add: first_member_def)
  moreover have "m = located (length pre) field ws1 ws2 ?val"
    using m q s pp(1) by (simp add: located_def Let_def member_head_def)
  ultimately show ?thesis by (rule that)
qed

lemma in_body_complete:
  assumes ok: "slice_ok body" and fm: "first_member body field pre ws1 ws2 val post"
  shows "in_body body field = Some (located (length pre) field ws1 ws2 val)"
proof -
  let ?v = "length pre + length (quoted_key field) + length ws1 + 1 + length ws2"
  from fm have "body = pre @ member_text field ws1 ws2 val @ post"
    and rest: "json_ws ws1" "json_ws ws2" "quote \<notin> set val" "\<forall>j < length pre. \<not> member_start field True body j"
    unfolding first_member_def by blast+
  then have b: "body = pre @ quoted_key field @ ws1 @ [colon] @ ws2 @ (quote # val @ quote # post)"
    by (simp add: member_text_def)
  then have "member_at body (quoted_key field) True (length pre) ?v"
    unfolding member_at_iff
    by - (rule exI [of _ pre], rule exI [of _ ws1], rule exI [of _ ws2],
        rule exI [of _ "quote # val @ quote # post"], use b rest in auto)
  then have "member_start field True body (length pre)" by (auto simp: member_start_def)
  with rest(4) have "map_option fst (key_and_value body field True) = Some (length pre)"
    using member_scan.search_Some_iff [OF ok, of field True "length pre"] by blast
  then obtain v where kv: "key_and_value body field True = Some (length pre, v)" by auto
  then have at: "member_at body (quoted_key field) True (length pre) v"
    by (auto simp: key_and_value_def dest: key_and_value_from_Some)
  have v: "v = ?v"
    using at \<open>member_at body (quoted_key field) True (length pre) ?v\<close> by (simp add: member_at_def Let_def)
  have len: "length body = ?v + length val + length post + 2" using b by simp
  have d: "drop (?v + 1) body = val @ quote # post" using b by simp
  have p: "position (\<lambda>b. b = quote) (val @ quote # post) = Some (length val)"
    using rest(3) by (auto simp: position_Some_iff nth_append) (metis nth_mem)
  have adds: "checked_add ?v 1 = Some (?v + 1)" "checked_add (length val) (?v + 1) = Some (?v + 1 + length val)"
    "checked_add (?v + 1 + length val) 1 = Some (?v + 1 + length val + 1)"
    using len checked_add_slice [OF ok] by (simp_all add: add_ac)
  show ?thesis
    unfolding in_body_def kv v
    using adds d p len by (simp add: get_from_def located_def Let_def member_head_def)
qed

lemma located_slices:
  assumes "first_member body field pre ws1 ws2 val post"
  shows "slice body (member_rng (located (length pre) field ws1 ws2 val)) = member_text field ws1 ws2 val"
    and "slice body (value_rng (located (length pre) field ws1 ws2 val)) = val"
    and "in_slice body (member_rng (located (length pre) field ws1 ws2 val))"
    and "in_slice body (value_rng (located (length pre) field ws1 ws2 val))"
  using assms
  by (auto simp: first_member_def located_def Let_def member_text_head slice_def in_slice_def)

lemma in_body_brackets:
  assumes "in_body body field = Some m"
  shows "sp_start (member_rng m) < sp_start (value_rng m)"
    and "sp_start (value_rng m) \<le> sp_end (value_rng m)"
    and "sp_end (value_rng m) < sp_end (member_rng m)"
    and "in_slice body (member_rng m)" and "in_slice body (value_rng m)"
  using assms
  by (auto elim!: in_body_Some simp: located_slices)
     (auto simp: located_def Let_def member_head_def)

section \<open>Bare numbers\<close>

definition canonical_digits :: "bytes \<Rightarrow> bool" where
  "canonical_digits ds \<longleftrightarrow>
     ds \<noteq> [] \<and> (\<forall>c \<in> set ds. is_ascii_digit c) \<and> (length ds > 1 \<longrightarrow> hd ds \<noteq> 0x30)"

definition bare_text :: "bytes \<Rightarrow> bytes \<Rightarrow> bytes \<Rightarrow> bytes \<Rightarrow> bytes \<Rightarrow> byte \<Rightarrow> bytes" where
  "bare_text field ws1 ws2 ds ws3 c = quoted_key field @ ws1 @ [colon] @ ws2 @ ds @ ws3 @ [c]"

definition first_bare ::
  "bytes \<Rightarrow> bytes \<Rightarrow> bytes \<Rightarrow> bytes \<Rightarrow> bytes \<Rightarrow> bytes \<Rightarrow> bytes \<Rightarrow> byte \<Rightarrow> bytes \<Rightarrow> bool" where
  "first_bare body field pre ws1 ws2 ds ws3 c post \<longleftrightarrow>
     body = pre @ bare_text field ws1 ws2 ds ws3 c @ post \<and>
     json_ws ws1 \<and> json_ws ws2 \<and> json_ws ws3 \<and> canonical_digits ds \<and> (c = comma \<or> c = rbrace) \<and>
     (\<forall>j < length pre. \<not> member_start field False body j)"

lemma digit_not_ws: "is_ascii_digit c \<Longrightarrow> \<not> is_json_whitespace c"
  by (auto simp: is_ascii_digit_def is_json_whitespace_def)

lemma ws_not_digit: "is_json_whitespace c \<Longrightarrow> \<not> is_ascii_digit c"
  by (auto simp: is_ascii_digit_def is_json_whitespace_def)

lemma bare_Some:
  assumes "find_json_bare_snippet_range body field = Some r"
  obtains pre ws1 ws2 ds ws3 c post where "first_bare body field pre ws1 ws2 ds ws3 c post"
    and "r = rng (length pre) (length pre + length (bare_text field ws1 ws2 ds ws3 c))"
proof -
  let ?ds = "\<lambda>d. takeWhile is_ascii_digit (drop d body)"
  from assms obtain s d where kv: "key_and_value body field False = Some (s, d)"
    and d: "d \<le> length body" and nz: "length (?ds d) \<noteq> 0"
    and lead: "\<not> (length (?ds d) > 1 \<and> drop d body ! 0 = 0x30)"
    and fin: "(case get_at body (skip_json_whitespace body (d + length (?ds d))) of
          Some c \<Rightarrow> if c = comma \<or> c = rbrace
                    then do { e \<leftarrow> checked_add (skip_json_whitespace body (d + length (?ds d))) 1;
                              Some (rng s e) }
                    else None
        | None \<Rightarrow> None) = Some r"
    by (auto simp: find_json_bare_snippet_range_def bind_eq_Some_conv checked_add_Some_iff
        get_from_Some_iff Let_def simp del: One_nat_def split: if_splits)
  let ?t = "skip_json_whitespace body (d + length (?ds d))"
  from fin obtain c where c: "get_at body ?t = Some c" "c = comma \<or> c = rbrace" and r: "r = rng s (?t + 1)"
    by (auto simp: bind_eq_Some_conv checked_add_Some_iff split: option.splits if_splits)
  from kv have at: "member_at body (quoted_key field) False s d"
    and least: "\<forall>j < s. \<not> member_start field False body j"
    by (auto simp: key_and_value_def member_start_def dest: key_and_value_from_Some)
  from at obtain pre ws1 ws2 rest where b: "body = pre @ quoted_key field @ ws1 @ [colon] @ ws2 @ rest"
    and s: "length pre = s" and ws: "json_ws ws1" "json_ws ws2"
    and dd: "d = s + length (quoted_key field) + length ws1 + 1 + length ws2"
    unfolding member_at_iff by auto
  have rest: "drop d body = rest" using b s dd by simp
  let ?digs = "takeWhile is_ascii_digit rest"
  have dl: "d + length ?digs \<le> length body"
    using d rest length_takeWhile_le [of is_ascii_digit rest] by (metis length_drop le_diff_conv2 add.commute)
  obtain ws3 rest' where w3: "drop (d + length ?digs) body = ws3 @ rest'" "json_ws ws3"
      "?t = d + length ?digs + length ws3"
    using skip_splits [OF dl] rest by metis
  have rsplit: "rest = ?digs @ ws3 @ rest'"
    using w3(1) rest by (metis takeWhile_dropWhile_id dropWhile_eq_drop drop_drop add.commute)
  have tl: "drop ?t body = rest'"
    using w3(1,3) by (metis append_eq_conv_conj drop_drop add.commute)
  then obtain post where post: "rest' = c # post" using get_at_split [OF c(1)] by metis
  have ds: "canonical_digits ?digs"
    using nz lead rest by (cases rest) (auto simp: canonical_digits_def dest: set_takeWhileD split: if_splits)
  have "first_bare body field pre ws1 ws2 ?digs ws3 c post"
    using b rsplit post ws w3(2) c(2) ds least s by (simp add: first_bare_def bare_text_def)
  moreover have "r = rng (length pre) (length pre + length (bare_text field ws1 ws2 ?digs ws3 c))"
    using r w3(3) dd s by (simp add: bare_text_def)
  ultimately show ?thesis by (rule that)
qed

lemma bare_text_neq_Nil [simp]: "bare_text field ws1 ws2 ds ws3 c \<noteq> []"
  by (simp add: bare_text_def)

lemma bare_slices:
  assumes "first_bare body field pre ws1 ws2 ds ws3 c post"
  shows "slice body (rng (length pre) (length pre + length (bare_text field ws1 ws2 ds ws3 c)))
           = bare_text field ws1 ws2 ds ws3 c"
    and "in_slice body (rng (length pre) (length pre + length (bare_text field ws1 ws2 ds ws3 c)))"
  using assms by (auto simp: first_bare_def slice_def in_slice_def)

lemma bare_complete:
  assumes ok: "slice_ok body" and fb: "first_bare body field pre ws1 ws2 ds ws3 c post"
  shows "find_json_bare_snippet_range body field
           = Some (rng (length pre) (length pre + length (bare_text field ws1 ws2 ds ws3 c)))"
proof -
  let ?d = "length pre + length (quoted_key field) + length ws1 + 1 + length ws2"
  from fb have "body = pre @ bare_text field ws1 ws2 ds ws3 c @ post"
    and ws: "json_ws ws1" "json_ws ws2" "json_ws ws3" and ds: "canonical_digits ds"
    and c: "c = comma \<or> c = rbrace" and least: "\<forall>j < length pre. \<not> member_start field False body j"
    unfolding first_bare_def by blast+
  then have b: "body = pre @ quoted_key field @ ws1 @ [colon] @ ws2 @ (ds @ ws3 @ c # post)"
    by (simp add: bare_text_def)
  have c': "\<not> is_json_whitespace c" "\<not> is_ascii_digit c"
    using c by (auto simp: is_ascii_digit_def)
  have "ws_ends (ds @ ws3 @ c # post)"
    using ds by (cases ds) (auto simp: canonical_digits_def digit_not_ws)
  then have at: "member_at body (quoted_key field) False (length pre) ?d"
    unfolding member_at_iff
    by - (rule exI [of _ pre], rule exI [of _ ws1], rule exI [of _ ws2],
        rule exI [of _ "ds @ ws3 @ c # post"], use b ws in auto)
  then have "member_start field False body (length pre)" by (auto simp: member_start_def)
  with least have "map_option fst (key_and_value body field False) = Some (length pre)"
    using member_scan.search_Some_iff [OF ok, of field False "length pre"] by blast
  then obtain v where kv: "key_and_value body field False = Some (length pre, v)" by auto
  then have "member_at body (quoted_key field) False (length pre) v"
    by (auto simp: key_and_value_def dest: key_and_value_from_Some)
  with at have v: "v = ?d" by (simp add: member_at_def Let_def)
  have d: "drop ?d body = ds @ ws3 @ c # post" using b by simp
  have "takeWhile is_ascii_digit (ws3 @ c # post) = []"
    using ws(3) c' by (cases ws3) (auto simp: json_ws_def ws_not_digit)
  then have tw: "takeWhile is_ascii_digit (ds @ ws3 @ c # post) = ds"
    using ds by (simp add: canonical_digits_def takeWhile_append)
  have lead: "ds \<noteq> []" "\<not> (1 < length ds \<and> (ds @ ws3 @ c # post) ! 0 = 0x30)"
    using ds by (auto simp: canonical_digits_def hd_conv_nth nth_append)
  have t: "skip_json_whitespace body (?d + length ds) = ?d + length ds + length ws3"
    using skip_over [OF ws(3), of "c # post" body "pre @ quoted_key field @ ws1 @ [colon] @ ws2 @ ds"] b c'
    by (simp add: add_ac)
  have len: "length body = ?d + length ds + length ws3 + 1 + length post" using b by simp
  have g: "get_at body (?d + length ds + length ws3) = Some c"
    using b by (simp add: get_at_def nth_append add_ac)
  have adds: "checked_add ?d (length ds) = Some (?d + length ds)"
    "checked_add (?d + length ds + length ws3) 1 = Some (?d + length ds + length ws3 + 1)"
    using len checked_add_slice [OF ok] by simp_all
  show ?thesis
    unfolding find_json_bare_snippet_range_def kv v
    using d tw lead adds t g c len
    by (simp add: get_from_def Let_def bare_text_def del: One_nat_def)
qed

lemmas [eval] = find_first_def is_json_whitespace_def skip_json_whitespace.simps value_after_key_def
  key_and_value_from.simps quoted_key_def key_and_value_def in_body_def find_json_snippet_range_def
  find_json_bare_snippet_range_def member_text_def bare_text_def

section \<open>Properties\<close>

text \<open>C12. \<open>JsonMember::in_body\<close> finds a member exactly when the body holds the template
  \<open>"field" ws : ws "value"\<close>, takes the first one, and returns the offsets of the whole
  member and of the value between its quotes.\<close>
theorem in_body_exact:
  assumes "slice_ok body"
  shows "in_body body field = Some m \<longleftrightarrow>
         (\<exists>pre ws1 ws2 val post. first_member body field pre ws1 ws2 val post \<and>
            m = located (length pre) field ws1 ws2 val)"
proof
  assume "in_body body field = Some m"
  then show "\<exists>pre ws1 ws2 val post. first_member body field pre ws1 ws2 val post \<and>
      m = located (length pre) field ws1 ws2 val"
    by (rule in_body_Some) blast
qed (use in_body_complete [OF assms] in blast)

theorem in_body_exact_witness:
  "\<exists>pre ws1 ws2 val post. first_member (ascii ''{'' @ member_text (ascii ''id'') [] [32] (ascii ''7'') @ ascii ''}'')
      (ascii ''id'') pre ws1 ws2 val post \<and>
      \<lparr>member_rng = rng 1 10, value_rng = rng 8 9\<rparr> = located (length pre) (ascii ''id'') ws1 ws2 val"
proof -
  let ?body = "ascii ''{'' @ member_text (ascii ''id'') [] [32] (ascii ''7'') @ ascii ''}''"
  have "slice_ok ?body" by (simp add: isize_max_def member_text_def quoted_key_def)
  moreover have "in_body ?body (ascii ''id'') = Some \<lparr>member_rng = rng 1 10, value_rng = rng 8 9\<rparr>"
    by (simp add: eval)
  ultimately show ?thesis by (simp only: in_body_exact [symmetric])
qed

text \<open>C39. \<open>find_json_bare_snippet_range\<close> finds a number exactly when the first \<open>"field" ws : ws\<close>
  is followed by canonical decimal digits, JSON whitespace and \<open>,\<close> or a closing brace, and the
  range is the whole of it, terminator included.\<close>
theorem bare_number_exact:
  assumes "slice_ok body"
  shows "find_json_bare_snippet_range body field = Some r \<longleftrightarrow>
         (\<exists>pre ws1 ws2 ds ws3 c post. first_bare body field pre ws1 ws2 ds ws3 c post \<and>
            r = rng (length pre) (length pre + length (bare_text field ws1 ws2 ds ws3 c)))"
proof
  assume "find_json_bare_snippet_range body field = Some r"
  then show "\<exists>pre ws1 ws2 ds ws3 c post. first_bare body field pre ws1 ws2 ds ws3 c post \<and>
      r = rng (length pre) (length pre + length (bare_text field ws1 ws2 ds ws3 c))"
    by (rule bare_Some) blast
qed (use bare_complete [OF assms] in blast)

theorem bare_number_exact_witness:
  "\<exists>pre ws1 ws2 ds ws3 c post.
     first_bare (ascii ''{'' @ bare_text (ascii ''id'') [] [32] (ascii ''583231'') [10] rbrace) (ascii ''id'')
       pre ws1 ws2 ds ws3 c post \<and>
     rng 1 15 = rng (length pre) (length pre + length (bare_text (ascii ''id'') ws1 ws2 ds ws3 c))"
proof -
  let ?body = "ascii ''{'' @ bare_text (ascii ''id'') [] [32] (ascii ''583231'') [10] rbrace"
  have "slice_ok ?body" by (simp add: isize_max_def bare_text_def quoted_key_def)
  moreover have "find_json_bare_snippet_range ?body (ascii ''id'') = Some (rng 1 15)"
    by (simp add: eval)
  ultimately show ?thesis by (simp only: bare_number_exact [symmetric])
qed

text \<open>A number with a leading zero is refused although a terminator follows it.\<close>

lemma leading_zero_is_refused:
  "find_json_bare_snippet_range ([quote] @ ascii ''id'' @ [quote, colon] @ ascii ''07,'') (ascii ''id'') = None"
  by (simp add: eval)

end
