(* ===== verification/Ranges.thy ===== *)
theory Ranges
  imports Chunked Json_Members
begin

text \<open>
  The rest of \<open>libid-transcript/src/ranges.rs\<close>: header values, the response body, and the
  members of a response at their offsets in the raw transcript. Lemmas: every range
  returned indexes the transcript without panicking, lies behind the head, and holds what
  the decoded body holds.
\<close>

section \<open>Header, request line and body ranges\<close>

definition find_header_range :: "bytes \<Rightarrow> bytes \<Rightarrow> span option" where
  "find_header_range data name = do {
     let needle = crlf @ name @ ascii '': '';
     start \<leftarrow> windows_position (length needle) (\<lambda>w. eq_ignore_ascii_case w needle) data;
     value_start \<leftarrow> checked_add start (length needle);
     rest \<leftarrow> get_from data value_start;
     pos \<leftarrow> windows_position 2 (\<lambda>w. w = crlf) rest;
     value_end \<leftarrow> checked_add value_start pos;
     Some (rng value_start value_end)
   }"

definition extract_header :: "bytes \<Rightarrow> bytes \<Rightarrow> bytes option" where
  "extract_header data name =
     map_option (\<lambda>r. from_utf8_lossy (slice data r)) (find_header_range data name)"

definition find_request_line_range :: "bytes \<Rightarrow> span" where
  "find_request_line_range sent =
     rng 0 (case windows_position 2 (\<lambda>w. w = crlf) sent of Some i \<Rightarrow> i | None \<Rightarrow> length sent)"

definition head_marker :: bytes where
  "head_marker = crlf @ crlf"

definition find_response_body_range :: "bytes \<Rightarrow> span option" where
  "find_response_body_range recv =
     map_option (\<lambda>body_start. rng body_start (length recv))
       (Option.bind (windows_position (length head_marker) (\<lambda>w. w = head_marker) recv)
          (\<lambda>pos. checked_add pos (length head_marker)))"

definition extract_response_body :: "chunk_size_parser \<Rightarrow> bytes \<Rightarrow> 'j error + bytes" where
  "extract_response_body pcs recv =
     (case find_response_body_range recv of
        None \<Rightarrow> Inl (Transcript ''no response body found'')
      | Some body_range \<Rightarrow>
          let raw_body = slice recv body_range in
          (case extract_header recv (ascii ''Transfer-Encoding'') of
             Some te \<Rightarrow> if contains te (ascii ''chunked'') then decode_chunked_body pcs raw_body
                        else Inr raw_body
           | None \<Rightarrow> Inr raw_body))"

section \<open>Members of a response\<close>

definition require_contiguous :: "bytes \<Rightarrow> bytes \<Rightarrow> unit option" where
  "require_contiguous raw decoded = (if raw = decoded then Some () else None)"

definition ok :: "'e + 'a \<Rightarrow> 'a option" where
  "ok r = (case r of Inl _ \<Rightarrow> None | Inr x \<Rightarrow> Some x)"

definition in_response :: "chunk_size_parser \<Rightarrow> bytes \<Rightarrow> bytes \<Rightarrow> json_member option" where
  "in_response pcs recv field_name = do {
     body_range \<leftarrow> find_response_body_range recv;
     let raw_body = slice recv body_range;
     decoded_body \<leftarrow> ok (extract_response_body pcs recv :: unit error + bytes);
     decoded \<leftarrow> in_body decoded_body field_name;
     raw \<leftarrow> in_body raw_body field_name;
     raw_text \<leftarrow> get_range raw_body (member_rng raw);
     decoded_text \<leftarrow> get_range decoded_body (member_rng decoded);
     _ \<leftarrow> require_contiguous raw_text decoded_text;
     ms \<leftarrow> checked_add (sp_start body_range) (sp_start (member_rng raw));
     me \<leftarrow> checked_add (sp_start body_range) (sp_end (member_rng raw));
     vs \<leftarrow> checked_add (sp_start body_range) (sp_start (value_rng raw));
     ve \<leftarrow> checked_add (sp_start body_range) (sp_end (value_rng raw));
     Some \<lparr>member_rng = rng ms me, value_rng = rng vs ve\<rparr>
   }"

definition compute_field_snippet_range :: "chunk_size_parser \<Rightarrow> bytes \<Rightarrow> bytes \<Rightarrow> span option" where
  "compute_field_snippet_range pcs recv field_name =
     map_option member_rng (in_response pcs recv field_name)"

definition compute_id_snippet_range ::
  "chunk_size_parser \<Rightarrow> bytes \<Rightarrow> bytes \<Rightarrow> bool \<Rightarrow> span option" where
  "compute_id_snippet_range pcs recv field_name quoted =
     (if quoted then compute_field_snippet_range pcs recv field_name
      else do {
        body_range \<leftarrow> find_response_body_range recv;
        let raw_body = slice recv body_range;
        decoded_body \<leftarrow> ok (extract_response_body pcs recv :: unit error + bytes);
        decoded_range \<leftarrow> find_json_bare_snippet_range decoded_body field_name;
        raw_snippet_range \<leftarrow> find_json_bare_snippet_range raw_body field_name;
        raw_text \<leftarrow> get_range raw_body raw_snippet_range;
        decoded_text \<leftarrow> get_range decoded_body decoded_range;
        _ \<leftarrow> require_contiguous raw_text decoded_text;
        s \<leftarrow> checked_add (sp_start body_range) (sp_start raw_snippet_range);
        e \<leftarrow> checked_add (sp_start body_range) (sp_end raw_snippet_range);
        Some (rng s e)
      })"

section \<open>Reading a body and moving the answer into the transcript\<close>

text \<open>
  What \<open>in_response\<close> and the bare branch of \<open>compute_id_snippet_range\<close> share: a reader of
  bodies is asked about the decoded and about the raw body, the two texts must be equal,
  and the raw answer moves by the offset of the body.
\<close>

definition relocate ::
  "chunk_size_parser \<Rightarrow> (bytes \<Rightarrow> bytes \<Rightarrow> 'm option) \<Rightarrow> ('m \<Rightarrow> span) \<Rightarrow> (nat \<Rightarrow> 'm \<Rightarrow> 'm) \<Rightarrow>
   bytes \<Rightarrow> bytes \<Rightarrow> 'm option" where
  "relocate pcs reader whole move recv field = do {
     body_range \<leftarrow> find_response_body_range recv;
     decoded_body \<leftarrow> ok (extract_response_body pcs recv :: unit error + bytes);
     decoded \<leftarrow> reader decoded_body field;
     raw \<leftarrow> reader (slice recv body_range) field;
     raw_text \<leftarrow> get_range (slice recv body_range) (whole raw);
     decoded_text \<leftarrow> get_range decoded_body (whole decoded);
     _ \<leftarrow> require_contiguous raw_text decoded_text;
     Some (move (sp_start body_range) raw)
   }"

lemma find_response_body_range_Some:
  "find_response_body_range recv = Some r \<longleftrightarrow>
     (\<exists>h. windows_position 4 (\<lambda>w. w = head_marker) recv = Some h \<and> h + 4 \<le> usize_max \<and>
          r = rng (h + 4) (length recv))"
  by (auto simp: find_response_body_range_def head_marker_def bind_eq_Some_conv checked_add_Some_iff)

lemma body_start_within: "find_response_body_range recv = Some r \<Longrightarrow>
  sp_end r = length recv \<and> sp_start r \<le> length recv \<and> 4 \<le> sp_start r"
  using win.search_hit by (fastforce simp: find_response_body_range_Some window_hit_def)

lemma raw_body_eq: "find_response_body_range recv = Some r \<Longrightarrow> slice recv r = drop (sp_start r) recv"
  using body_start_within [of recv r] by (simp add: slice_def)

lemma require_contiguous_Some [simp]: "require_contiguous a b = Some u \<longleftrightarrow> a = b"
  by (simp add: require_contiguous_def)

locale body_reader =
  fixes reader :: "bytes \<Rightarrow> bytes \<Rightarrow> 'm option"
    and whole :: "'m \<Rightarrow> span"
    and move :: "nat \<Rightarrow> 'm \<Rightarrow> 'm"
  assumes whole_in_slice: "reader body field = Some m \<Longrightarrow> in_slice body (whole m)"
    and whole_not_empty: "reader body field = Some m \<Longrightarrow> sp_start (whole m) < sp_end (whole m)"
    and move_whole: "whole (move k m) = shift k (whole m)"
begin

lemma relocate_Some:
  assumes "relocate pcs reader whole move recv field = Some m"
  obtains r decoded_body decoded raw where "find_response_body_range recv = Some r"
    and "(extract_response_body pcs recv :: unit error + bytes) = Inr decoded_body"
    and "reader decoded_body field = Some decoded" and "reader (drop (sp_start r) recv) field = Some raw"
    and "slice (drop (sp_start r) recv) (whole raw) = slice decoded_body (whole decoded)"
    and "m = move (sp_start r) raw"
  using assms
  by (auto simp: relocate_def bind_eq_Some_conv get_range_Some_iff ok_def raw_body_eq
      split: sum.splits)

lemma relocate_contiguous:
  assumes "relocate pcs reader whole move recv field = Some m"
  obtains decoded_body decoded
  where "(extract_response_body pcs recv :: unit error + bytes) = Inr decoded_body"
    and "reader decoded_body field = Some decoded"
    and "slice recv (whole m) = slice decoded_body (whole decoded)"
proof -
  from assms obtain r decoded_body decoded raw where f: "find_response_body_range recv = Some r"
      "(extract_response_body pcs recv :: unit error + bytes) = Inr decoded_body"
      "reader decoded_body field = Some decoded"
      "slice (drop (sp_start r) recv) (whole raw) = slice decoded_body (whole decoded)"
      "m = move (sp_start r) raw"
    by (rule relocate_Some)
  with body_start_within [OF f(1)] have "slice recv (whole m) = slice decoded_body (whole decoded)"
    by (simp add: move_whole slice_shift)
  with f show ?thesis by (intro that)
qed

lemma relocate_in_body:
  assumes "relocate pcs reader whole move recv field = Some m"
  obtains r where "find_response_body_range recv = Some r" and "sp_start r \<le> sp_start (whole m)"
    and "in_slice recv (whole m)" and "sp_start (whole m) < sp_end (whole m)"
proof -
  from assms obtain r raw where f: "find_response_body_range recv = Some r"
      "reader (drop (sp_start r) recv) field = Some raw" "m = move (sp_start r) raw"
    by (rule relocate_Some)
  moreover have "in_slice recv (whole m)"
    using f whole_in_slice [OF f(2)] body_start_within [OF f(1)] by (simp add: move_whole in_slice_shift)
  moreover have "sp_start (whole m) < sp_end (whole m)" "sp_start r \<le> sp_start (whole m)"
    using f whole_not_empty [OF f(2)] by (simp_all add: move_whole shift_def)
  ultimately show ?thesis by (intro that)
qed

end

definition shift_member :: "nat \<Rightarrow> json_member \<Rightarrow> json_member" where
  "shift_member k m = \<lparr>member_rng = shift k (member_rng m), value_rng = shift k (value_rng m)\<rparr>"

interpretation string_member: body_reader in_body member_rng shift_member
  by unfold_locales
     (auto dest: in_body_brackets(4) simp: shift_member_def
       intro: less_le_trans [OF in_body_brackets(1) less_imp_le [OF le_less_trans [OF in_body_brackets(2,3)]]])

interpretation bare_number: body_reader find_json_bare_snippet_range "\<lambda>r. r" shift
  by unfold_locales (auto elim!: bare_Some simp: bare_slices)

lemma in_response_relocates:
  "in_response pcs recv field = Some m \<Longrightarrow>
   relocate pcs in_body member_rng shift_member recv field = Some m"
  by (auto simp: in_response_def relocate_def bind_eq_Some_conv checked_add_Some_iff Let_def
      shift_member_def shift_def)

lemma compute_id_relocates:
  "compute_id_snippet_range pcs recv field False = Some r \<Longrightarrow>
   relocate pcs find_json_bare_snippet_range (\<lambda>r. r) shift recv field = Some r"
  by (auto simp: compute_id_snippet_range_def relocate_def bind_eq_Some_conv checked_add_Some_iff
      Let_def shift_def)

section \<open>Headers\<close>

text \<open>
  A header value: what stands between the header's name, matched without regard to ASCII
  case, and the next CRLF.
\<close>

definition header_needle :: "bytes \<Rightarrow> bytes" where
  "header_needle name = crlf @ name @ ascii '': ''"

definition header_at :: "bytes \<Rightarrow> bytes \<Rightarrow> nat \<Rightarrow> bool" where
  "header_at data name i \<longleftrightarrow>
     window_hit (length (header_needle name)) (\<lambda>w. eq_ignore_ascii_case w (header_needle name)) data i"

lemma find_header_range_Some:
  assumes "find_header_range data name = Some r"
  obtains i where "header_at data name i" and "\<forall>j<i. \<not> header_at data name j"
    and "sp_start r = i + length (header_needle name)" and "in_slice data r"
    and "occurs_at crlf data (sp_end r)" and "\<forall>j. \<not> occurs_at crlf (slice data r) j"
proof -
  let ?n = "header_needle name"
  from assms obtain i p where i: "windows_position (length ?n) (\<lambda>w. eq_ignore_ascii_case w ?n) data = Some i"
    and le: "i + length ?n \<le> length data"
    and p: "windows_position (length crlf) (\<lambda>w. w = crlf) (drop (i + length ?n) data) = Some p"
    and r: "r = rng (i + length ?n) (i + length ?n + p)"
    by (auto simp: find_header_range_def header_needle_def Let_def bind_eq_Some_conv
        checked_add_Some_iff get_from_Some_iff)
  have o: "occurs_at crlf (drop (i + length ?n) data) p"
    using win.search_hit [OF p] by (simp only: window_hit_eq)
  then have e: "occurs_at crlf data (i + length ?n + p)" using le
    by (auto simp: occurs_at_def add_ac)
  have "\<not> occurs_at crlf (slice data r) j" for j
  proof
    assume "occurs_at crlf (slice data r) j"
    then have "occurs_at crlf (take p (drop (i + length ?n) data)) j" by (simp add: r slice_def)
    then have "j + 2 \<le> p" "occurs_at crlf (drop (i + length ?n) data) j"
      by (auto simp: occurs_at_def drop_take min_def split: if_splits)
    then show False using win.search_least [OF p, of j] by (simp add: window_hit_eq [of crlf, simplified])
  qed
  moreover have "in_slice data r" using e by (simp add: r in_slice_def occurs_at_def)
  moreover have "header_at data name i" "\<forall>j<i. \<not> header_at data name j"
    using win.search_hit [OF i] win.search_least [OF i] by (auto simp: header_at_def)
  ultimately show ?thesis using r e by (intro that) auto
qed

lemma te_chunked_ascii: "\<forall>c \<in> set (ascii ''chunked''). is_ascii c" "ascii ''chunked'' \<noteq> []"
  by (simp_all add: ascii_def is_ascii_def)

lemma lossy_contains_chunked:
  "contains (from_utf8_lossy xs) (ascii ''chunked'') \<longleftrightarrow> (\<exists>i. occurs_at (ascii ''chunked'') xs i)"
  using contains_from_utf8_lossy [OF te_chunked_ascii] contains_iff by metis

lemmas [eval] = find_header_range_def extract_header_def find_request_line_range_def head_marker_def
  find_response_body_range_def extract_response_body_def require_contiguous_def ok_def
  in_response_def compute_field_snippet_range_def compute_id_snippet_range_def

section \<open>A sample response\<close>

definition sample_response :: bytes where
  "sample_response = ascii ''200'' @ crlf @ ascii ''Transfer-Encoding: chunked'' @ crlf @ crlf @
     frame_chunks hex_header [[0x7B] @ member_text (ascii ''login'') [] [32] (ascii ''octocat'') @ [comma],
                              bare_text (ascii ''id'') [] [32] (ascii ''1'') [] rbrace] @ crlf"

lemma sample_login:
  "in_response hex_chunk_size sample_response (ascii ''login'')
     = Some \<lparr>member_rng = rng 40 58, value_rng = rng 50 57\<rparr>"
  by (simp add: sample_response_def eval)

lemma sample_id:
  "compute_id_snippet_range hex_chunk_size sample_response (ascii ''id'') False = Some (rng 64 72)"
  by (simp add: sample_response_def eval)

section \<open>Members of a response, raw and decoded\<close>

lemma in_response_text:
  assumes "in_response pcs recv field = Some m"
  obtains body pre ws1 ws2 val post at
  where "(extract_response_body pcs recv :: unit error + bytes) = Inr body"
    and "first_member body field pre ws1 ws2 val post"
    and "in_body body field = Some (located (length pre) field ws1 ws2 val)"
    and "m = located at field ws1 ws2 val" and "slice recv (member_rng m) = member_text field ws1 ws2 val"
proof -
  obtain r body d raw where f: "find_response_body_range recv = Some r"
      "(extract_response_body pcs recv :: unit error + bytes) = Inr body"
      "in_body body field = Some d" "in_body (drop (sp_start r) recv) field = Some raw"
      "slice (drop (sp_start r) recv) (member_rng raw) = slice body (member_rng d)"
      "m = shift_member (sp_start r) raw"
    using string_member.relocate_Some [OF in_response_relocates [OF assms]] .
  from f(3) obtain pre ws1 ws2 val post where d: "first_member body field pre ws1 ws2 val post"
      "d = located (length pre) field ws1 ws2 val" by (rule in_body_Some)
  from f(4) obtain pre' ws1' ws2' val' post'
    where raw: "first_member (drop (sp_start r) recv) field pre' ws1' ws2' val' post'"
      "raw = located (length pre') field ws1' ws2' val'" by (rule in_body_Some)
  have "member_text field ws1' ws2' val' = member_text field ws1 ws2 val"
    using f(5) d raw by (simp add: located_slices)
  then have same: "ws1' = ws1" "ws2' = ws2" "val' = val"
    using member_text_value d(1) raw(1) unfolding first_member_def by blast+
  have "m = located (sp_start r + length pre') field ws1 ws2 val"
    using f(6) raw(2) same by (simp add: shift_member_def located_def shift_def Let_def)
  moreover have "slice recv (member_rng m) = member_text field ws1 ws2 val"
    using f(5,6) d raw body_start_within [OF f(1)]
    by (simp add: located_slices shift_member_def slice_shift)
  ultimately show ?thesis using that f(2,3) d by blast
qed

lemma located_parts:
  assumes "m = located at field ws1 ws2 val" and "slice xs (member_rng m) = member_text field ws1 ws2 val"
  shows "slice xs (rng (sp_start (member_rng m)) (sp_start (value_rng m))) = member_head field ws1 ws2"
    and "slice xs (value_rng m) = val"
    and "slice xs (rng (sp_end (value_rng m)) (sp_end (member_rng m))) = [quote]"
proof -
  let ?h = "length (member_head field ws1 ws2)" and ?e = "at + length (member_text field ws1 ws2 val)"
  have m: "sp_start (member_rng m) = at" "sp_start (value_rng m) = at + ?h"
      "sp_end (value_rng m) = at + ?h + length val" "sp_end (member_rng m) = ?e"
    using assms(1) by (simp_all add: located_def Let_def member_text_head)
  have whole: "slice xs (rng at ?e) = member_head field ws1 ws2 @ val @ [quote]"
    using assms(2) m by (cases "member_rng m") (simp add: member_text_head)
  have part: "slice xs (rng (at + i) (at + j)) = slice (member_head field ws1 ws2 @ val @ [quote]) (rng i j)"
    if "i \<le> j" "at + j \<le> ?e" for i j
    using slice_slice [of at "at + i" "at + j" ?e xs] that by (simp only: whole) simp
  have "value_rng m = rng (at + ?h) (at + ?h + length val)"
    using m by (cases "value_rng m") simp
  then show "slice xs (rng (sp_start (member_rng m)) (sp_start (value_rng m))) = member_head field ws1 ws2"
      "slice xs (value_rng m) = val"
      "slice xs (rng (sp_end (value_rng m)) (sp_end (member_rng m))) = [quote]"
    using part [of 0 ?h] part [of ?h "?h + length val"]
      part [of "?h + length val" "?h + length val + 1"]
    by (simp_all add: m member_text_head slice_def add.assoc)
qed

lemma in_response_decoded:
  assumes "in_response pcs recv field = Some m"
  obtains body d where "(extract_response_body pcs recv :: unit error + bytes) = Inr body"
    and "in_body body field = Some d"
    and "slice recv (member_rng m) = slice body (member_rng d)"
    and "slice recv (value_rng m) = slice body (value_rng d)"
  using assms
proof (rule in_response_text)
  fix body pre ws1 ws2 val post at
  assume f: "(extract_response_body pcs recv :: unit error + bytes) = Inr body"
    "first_member body field pre ws1 ws2 val post"
    "in_body body field = Some (located (length pre) field ws1 ws2 val)"
    "m = located at field ws1 ws2 val" "slice recv (member_rng m) = member_text field ws1 ws2 val"
  show thesis
    by (rule that [OF f(1,3)]) (simp_all add: located_slices [OF f(2)] located_parts [OF f(4,5)] f(5))
qed

lemma in_response_head:
  assumes "in_response pcs recv field = Some m"
  obtains h where "occurs_at head_marker recv h" and "\<forall>j<h. \<not> occurs_at head_marker recv j"
    and "h + 4 \<le> sp_start (member_rng m)" and "sp_start (member_rng m) < sp_start (value_rng m)"
    and "sp_start (value_rng m) \<le> sp_end (value_rng m)"
    and "sp_end (value_rng m) < sp_end (member_rng m)" and "sp_end (member_rng m) \<le> length recv"
proof -
  obtain r raw where f: "find_response_body_range recv = Some r"
      "in_body (drop (sp_start r) recv) field = Some raw" "m = shift_member (sp_start r) raw"
    using string_member.relocate_Some [OF in_response_relocates [OF assms]] by metis
  from f(1) obtain h where h: "windows_position (length head_marker) (\<lambda>w. w = head_marker) recv = Some h"
      "sp_start r = h + 4" by (auto simp: find_response_body_range_Some head_marker_def)
  have "occurs_at head_marker recv h" "\<forall>j<h. \<not> occurs_at head_marker recv j"
    using win.search_hit [OF h(1)] win.search_least [OF h(1)] by auto
  then show ?thesis
    by (rule that) (use f(3) h(2) in_body_brackets [OF f(2)] body_start_within [OF f(1)]
    in \<open>auto simp: shift_member_def shift_def in_slice_def\<close>)
qed

section \<open>Properties\<close>

text \<open>C5. The value a member of a response carries in the RAW transcript is byte for byte the value
  of the same member in the decoded body: no chunk framing is ever inside the revealed
  member or the committed value.\<close>
theorem in_response_carries_decoded_value:
  assumes "in_response pcs recv field = Some m"
  shows "\<exists>body d. (extract_response_body pcs recv :: unit error + bytes) = Inr body \<and>
           in_body body field = Some d \<and>
           slice recv (member_rng m) = slice body (member_rng d) \<and>
           slice recv (value_rng m) = slice body (value_rng d)"
  using assms by (rule in_response_decoded) blast

theorem in_response_carries_decoded_value_witness:
  "\<exists>body d. (extract_response_body hex_chunk_size sample_response :: unit error + bytes) = Inr body \<and>
     in_body body (ascii ''login'') = Some d \<and> ascii ''octocat'' = slice body (value_rng d)"
proof -
  have "slice sample_response (rng 50 57) = ascii ''octocat''"
    by (simp add: sample_response_def eval)
  then show ?thesis using in_response_carries_decoded_value [OF sample_login] by fastforce
qed

text \<open>A header cannot answer for the body: a member found in a response lies wholly behind the
  first blank line, is a valid index range of the transcript, and its value sits strictly
  between its delimiters.\<close>
theorem in_response_behind_head:
  assumes "in_response pcs recv field = Some m"
  shows "\<exists>h. occurs_at head_marker recv h \<and> (\<forall>j<h. \<not> occurs_at head_marker recv j) \<and>
           h + 4 \<le> sp_start (member_rng m) \<and> sp_start (member_rng m) < sp_start (value_rng m) \<and>
           sp_start (value_rng m) \<le> sp_end (value_rng m) \<and>
           sp_end (value_rng m) < sp_end (member_rng m) \<and> sp_end (member_rng m) \<le> length recv"
  using assms by (rule in_response_head) blast

theorem in_response_behind_head_witness:
  "\<exists>h. occurs_at head_marker sample_response h \<and> h + 4 \<le> (40::nat)"
  using in_response_behind_head [OF sample_login] by auto

text \<open>A bare id found in a response is the same text in the raw transcript and in the decoded
  body, ends with its terminator, and lies behind the head.\<close>
theorem bare_id_contiguous:
  assumes "compute_id_snippet_range pcs recv field False = Some r"
  shows "\<exists>body d h. (extract_response_body pcs recv :: unit error + bytes) = Inr body \<and>
           find_json_bare_snippet_range body field = Some d \<and> slice recv r = slice body d \<and>
           find_response_body_range recv = Some h \<and> sp_start h \<le> sp_start r \<and>
           sp_start r < sp_end r \<and> in_slice recv r"
proof -
  note rel = compute_id_relocates [OF assms]
  show ?thesis
    using bare_number.relocate_contiguous [OF rel] bare_number.relocate_in_body [OF rel] by metis
qed

theorem bare_id_contiguous_witness:
  "\<exists>body d. find_json_bare_snippet_range body (ascii ''id'') = Some d \<and>
     slice sample_response (rng 64 72) = slice body d"
  using bare_id_contiguous [OF sample_id] by blast

text \<open>A header value range is the first match of the name without regard to case, indexes the
  transcript, ends at a CRLF and holds none.\<close>
theorem header_range_exact:
  assumes "find_header_range data name = Some r"
  shows "\<exists>i. header_at data name i \<and> (\<forall>j<i. \<not> header_at data name j) \<and>
           sp_start r = i + length (header_needle name) \<and> in_slice data r \<and>
           occurs_at crlf data (sp_end r) \<and> (\<forall>j. \<not> occurs_at crlf (slice data r) j)"
  using assms by (rule find_header_range_Some) blast

theorem header_range_exact_witness:
  "\<exists>i. header_at sample_response (ascii ''TRANSFER-ENCODING'') i"
proof -
  have "find_header_range sample_response (ascii ''TRANSFER-ENCODING'') = Some (rng 24 31)"
    by (simp add: sample_response_def eval)
  from header_range_exact [OF this] show ?thesis by blast
qed

text \<open>The body of a response: refused without a blank line; otherwise everything behind it, and
  joined from its chunks exactly when the bytes of the first Transfer-Encoding value contain
  \<open>chunked\<close> (the lossy text of the value contains it exactly when its bytes do).\<close>
theorem extract_response_body_cases:
  "(extract_response_body pcs recv :: 'j error + bytes) =
     (case find_response_body_range recv of
        None \<Rightarrow> Inl (Transcript ''no response body found'')
      | Some r \<Rightarrow>
          (if \<exists>h. find_header_range recv (ascii ''Transfer-Encoding'') = Some h \<and>
                  (\<exists>i. occurs_at (ascii ''chunked'') (slice recv h) i)
           then decode_chunked_body pcs (drop (sp_start r) recv)
           else Inr (drop (sp_start r) recv)))"
  by (auto simp: extract_response_body_def extract_header_def raw_body_eq Let_def
      lossy_contains_chunked split: option.splits)

section \<open>A header name in the body\<close>

text \<open>
  \<open>extract_header\<close> searches the whole transcript, not the head: a body that carries a line
  of the form of the header turns chunk decoding on.
\<close>

lemma header_in_the_body_switches_decoding:
  "(extract_response_body hex_chunk_size
      (ascii ''200'' @ crlf @ crlf @ ascii ''{}'' @ crlf @
       ascii ''transfer-encoding: chunked'' @ crlf) :: unit error + bytes)
   = Inl (bad ''chunk size is not hexadecimal'')"
  by (simp add: eval)

end
