(* ===== verification/Layouts.thy ===== *)
theory Layouts
  imports Ranges "HOL-Library.Multiset"
begin

text \<open>
  \<open>libid-transcript/src/ceremony.rs\<close>: what a notarized session reveals and commits. The
  profile types \<open>TokenSession\<close>, \<open>IdentitySession\<close> and \<open>IdShape\<close> come from the generated
  crate \<open>libid-profiles\<close>; the records below have the fields this module reads, and every
  profile is an argument. Lemmas: when a layout tiles, what tiling means for the bytes of
  the transcript, and what each constructor reveals and commits.
\<close>

section \<open>Types\<close>

record layout =
  reveal :: "span list"
  commit :: "span list"

datatype layout_error =
  MissingHeader bytes
| MissingField bytes
| NoHeadBoundary
| MissingCredential

record token_session =
  secret_field :: "bytes option"

datatype id_shape = JsonString | OtherShape

record identity_session =
  id_field :: bytes
  handle_field :: bytes
  id_shape_of :: id_shape

section \<open>Complement and revealing\<close>

text \<open>The loop of \<open>complement\<close>, with \<open>at\<close> the end of the last reveal.\<close>

fun complement_from :: "nat \<Rightarrow> span list \<Rightarrow> nat \<Rightarrow> span list" where
  "complement_from at [] len = (if at < len then [rng at len] else [])"
| "complement_from at (r # rs) len =
     (if sp_start r > at then [rng at (sp_start r)] else []) @ complement_from (sp_end r) rs len"

definition complement :: "span list \<Rightarrow> nat \<Rightarrow> span list" where
  "complement rs len = complement_from 0 rs len"

text \<open>The condition of the \<open>debug_assert!\<close>: each reveal ends before the next one starts.\<close>

fun non_overlapping :: "span list \<Rightarrow> bool" where
  "non_overlapping (a # b # rs) \<longleftrightarrow> sp_end a \<le> sp_start b \<and> non_overlapping (b # rs)"
| "non_overlapping _ \<longleftrightarrow> True"

text \<open>\<open>sort_by_key\<close> is a stable sort. In a release build the assertion is not compiled in.\<close>

definition revealing :: "span list \<Rightarrow> nat \<Rightarrow> layout" where
  "revealing rs len =
     (let sorted_rs = sort_key sp_start rs in \<lparr>reveal = sorted_rs, commit = complement sorted_rs len\<rparr>)"

definition revealing_asserts :: "span list \<Rightarrow> bool" where
  "revealing_asserts rs \<longleftrightarrow> non_overlapping (sort_key sp_start rs)"

section \<open>The four constructors\<close>

definition token_request :: "bytes \<Rightarrow> token_session \<Rightarrow> layout_error + layout" where
  "token_request sent session =
     (case secret_field session of
        None \<Rightarrow> Inr (revealing [rng 0 (length sent)] (length sent))
      | Some field \<Rightarrow>
          let needle = ascii ''&'' @ field @ ascii ''='' in
          (case windows_position (length needle) (\<lambda>w. w = needle) sent of
             None \<Rightarrow> Inl MissingCredential
           | Some start \<Rightarrow> Inr (revealing [rng 0 start] (length sent))))"

definition access_token_field :: bytes where
  "access_token_field = ascii ''access_token''"

definition token_response :: "chunk_size_parser \<Rightarrow> bytes \<Rightarrow> layout_error + layout" where
  "token_response pcs recv =
     (case in_response pcs recv access_token_field of
        None \<Rightarrow> Inl (MissingField access_token_field)
      | Some found \<Rightarrow>
          if span_is_empty (value_rng found) then Inl (MissingField access_token_field)
          else Inr (revealing
            [rng (sp_start (member_rng found)) (sp_start (value_rng found)),
             rng (sp_end (value_rng found)) (sp_end (member_rng found))] (length recv)))"

definition bearer_prefix :: bytes where
  "bearer_prefix = crlf @ ascii ''authorization: Bearer ''"

definition identity_request :: "bytes \<Rightarrow> layout_error + layout" where
  "identity_request sent =
     (case windows_position (length bearer_prefix) (\<lambda>w. w = bearer_prefix) sent of
        None \<Rightarrow> Inl (MissingHeader (ascii ''authorization''))
      | Some prefix_at \<Rightarrow>
          let value_start = prefix_at + length bearer_prefix in
          (case windows_position 2 (\<lambda>w. w = crlf) (drop value_start sent) of
             None \<Rightarrow> Inl (MissingHeader (ascii ''authorization''))
           | Some p \<Rightarrow>
               let value_end = value_start + p in
               Inr (revealing [rng 0 value_start, rng value_end (length sent)] (length sent))))"

definition identity_response ::
  "chunk_size_parser \<Rightarrow> bytes \<Rightarrow> identity_session \<Rightarrow> layout_error + layout" where
  "identity_response pcs recv session =
     (let quoted = (id_shape_of session = JsonString) in
      case compute_id_snippet_range pcs recv (id_field session) quoted of
        None \<Rightarrow> Inl (MissingField (id_field session))
      | Some id_rng \<Rightarrow>
          (case compute_field_snippet_range pcs recv (handle_field session) of
             None \<Rightarrow> Inl (MissingField (handle_field session))
           | Some handle_rng \<Rightarrow> Inr (revealing [id_rng, handle_rng] (length recv))))"

text \<open>The needle of \<open>token_request\<close>, \<open>format!("&{field}=")\<close>.\<close>

definition secret_key :: "bytes \<Rightarrow> bytes" where
  "secret_key field = ascii ''&'' @ field @ ascii ''=''"

section \<open>Tiling\<close>

text \<open>
  The property every layout must have, as the module's own tests state it: sorted by start,
  the reveals and the commitments are non-empty, each starts where the last one ended, and
  the last one ends at the end of the transcript.
\<close>

fun tiles_from :: "nat \<Rightarrow> span list \<Rightarrow> nat \<Rightarrow> bool" where
  "tiles_from at [] len \<longleftrightarrow> at = len"
| "tiles_from at (s # ss) len \<longleftrightarrow> sp_start s = at \<and> sp_start s < sp_end s \<and> tiles_from (sp_end s) ss len"

definition spans_of :: "layout \<Rightarrow> span list" where
  "spans_of l = sort_key sp_start (reveal l @ commit l)"

definition tiles :: "layout \<Rightarrow> nat \<Rightarrow> bool" where
  "tiles l len \<longleftrightarrow> tiles_from 0 (spans_of l) len"

lemmas [eval] = complement_def revealing_def revealing_asserts_def token_request_def
  access_token_field_def token_response_def bearer_prefix_def identity_request_def
  identity_response_def spans_of_def tiles_def

section \<open>When a layout tiles\<close>

definition disjoint_spans :: "span \<Rightarrow> span \<Rightarrow> bool" where
  "disjoint_spans a b \<longleftrightarrow> sp_end a \<le> sp_start b \<or> sp_end b \<le> sp_start a"

definition span_ok :: "nat \<Rightarrow> span \<Rightarrow> bool" where
  "span_ok len r \<longleftrightarrow> sp_start r < sp_end r \<and> sp_end r \<le> len"

text \<open>Reveals in order, and reveals interleaved with what lies between them.\<close>

fun chained :: "nat \<Rightarrow> span list \<Rightarrow> nat \<Rightarrow> bool" where
  "chained at [] len \<longleftrightarrow> at \<le> len"
| "chained at (r # rs) len \<longleftrightarrow> at \<le> sp_start r \<and> sp_start r < sp_end r \<and> chained (sp_end r) rs len"

fun merged :: "nat \<Rightarrow> span list \<Rightarrow> nat \<Rightarrow> span list" where
  "merged at [] len = (if at < len then [rng at len] else [])"
| "merged at (r # rs) len =
     (if at < sp_start r then [rng at (sp_start r)] else []) @ r # merged (sp_end r) rs len"

lemma mset_merged: "mset (merged at rs len) = mset (rs @ complement_from at rs len)"
  by (induction at rs len rule: merged.induct) auto

lemma tiles_from_merged: "chained at rs len \<Longrightarrow> tiles_from at (merged at rs len) len"
  by (induction at rs len rule: merged.induct) auto

lemma tiles_from_order:
  "tiles_from at ss len \<Longrightarrow>
   at \<le> len \<and> sorted_wrt (\<lambda>a b. sp_end a \<le> sp_start b) ss \<and> (\<forall>s \<in> set ss. at \<le> sp_start s \<and> span_ok len s)"
proof (induction at ss len rule: tiles_from.induct)
  case (2 at s ss len)
  then have "sp_end s \<le> len" "sorted_wrt (\<lambda>a b. sp_end a \<le> sp_start b) ss"
      "\<forall>t \<in> set ss. sp_end s \<le> sp_start t \<and> span_ok len t" "sp_start s = at" "sp_start s < sp_end s"
    by auto
  then show ?case by (auto simp: span_ok_def intro: order.trans less_imp_le)
qed simp

lemma tiles_from_starts:
  assumes "tiles_from at ss len"
  shows "sorted (map sp_start ss)" and "inj_on sp_start (set ss)" and "distinct ss"
proof -
  have o: "sorted_wrt (\<lambda>a b. sp_end a \<le> sp_start b) ss" "\<forall>s \<in> set ss. span_ok len s"
    using tiles_from_order [OF assms] by auto
  then have lt: "sorted_wrt (\<lambda>a b. sp_start a < sp_start b) ss"
    by (induction ss) (auto simp: span_ok_def intro: less_le_trans)
  then have "sorted_wrt (<) (map sp_start ss)" by (simp add: sorted_wrt_map)
  then have "sorted (map sp_start ss) \<and> distinct (map sp_start ss)"
    by (simp add: strict_sorted_iff)
  then show "sorted (map sp_start ss)" "inj_on sp_start (set ss)" "distinct ss"
    by (simp_all add: distinct_map)
qed

lemma sorted_wrt_sym_mset:
  assumes sym: "\<And>a b. P a b \<Longrightarrow> P b a"
  shows "mset xs = mset ys \<Longrightarrow> sorted_wrt P xs \<Longrightarrow> sorted_wrt P ys"
proof (induction xs arbitrary: ys)
  case (Cons x xs)
  then have "x \<in> set ys" by (metis list.set_intros(1) set_mset_mset)
  then obtain us vs where ys: "ys = us @ x # vs" by (meson split_list)
  with Cons.prems(1) have m: "mset xs = mset (us @ vs)" by simp
  with Cons have "sorted_wrt P (us @ vs)" by simp
  moreover have "\<forall>y \<in> set (us @ vs). P x y"
    using Cons.prems(2) m by (metis set_mset_mset sorted_wrt.simps(2))
  ultimately show ?case using sym by (auto simp: ys sorted_wrt_append)
qed simp

lemma chained_forward:
  "chained at rs len \<Longrightarrow>
   at \<le> len \<and> (\<forall>r \<in> set rs. at \<le> sp_start r \<and> span_ok len r) \<and> non_overlapping rs"
proof (induction at rs len rule: chained.induct)
  case (2 at r rs len)
  then have ih: "sp_end r \<le> len" "\<forall>t \<in> set rs. sp_end r \<le> sp_start t \<and> span_ok len t" "non_overlapping rs"
      and r: "at \<le> sp_start r" "sp_start r < sp_end r"
    by auto
  moreover from ih have "non_overlapping (r # rs)" by (cases rs) auto
  moreover have "\<forall>t \<in> set rs. at \<le> sp_start t" using ih(2) r by fastforce
  ultimately show ?case by (auto simp: span_ok_def)
qed simp

lemma chained_backward:
  "at \<le> len \<Longrightarrow> (case rs of [] \<Rightarrow> True | r # _ \<Rightarrow> at \<le> sp_start r) \<Longrightarrow> \<forall>r \<in> set rs. span_ok len r \<Longrightarrow>
   non_overlapping rs \<Longrightarrow> chained at rs len"
proof (induction at rs len rule: chained.induct)
  case (2 at r rs len)
  then show ?case by (cases rs) (simp_all add: span_ok_def)
qed simp

lemma chained_iff:
  "chained at rs len \<longleftrightarrow>
   at \<le> len \<and> (\<forall>r \<in> set rs. at \<le> sp_start r \<and> span_ok len r) \<and> non_overlapping rs"
  using chained_forward [of at rs len] chained_backward [of at len rs] by (auto split: list.splits)

text \<open>The assertion, the bounds and non-emptiness of the reveals are exactly what tiling needs.\<close>

lemma revealing_tiles:
  assumes "\<forall>r \<in> set rs. span_ok len r" and "revealing_asserts rs"
  shows "tiles (revealing rs len) len"
proof -
  let ?rs = "sort_key sp_start rs"
  have "chained 0 ?rs len"
    using assms by (simp add: chained_iff revealing_asserts_def)
  then have t: "tiles_from 0 (merged 0 ?rs len) len" by (rule tiles_from_merged)
  have m: "mset (?rs @ complement ?rs len) = mset (merged 0 ?rs len)"
    by (simp add: mset_merged complement_def)
  have "inj_on sp_start (set (?rs @ complement ?rs len))"
    using tiles_from_starts(2) [OF t] m by (metis set_mset_mset)
  then have "sort_key sp_start (?rs @ complement ?rs len) = merged 0 ?rs len"
    using m tiles_from_starts(1) [OF t] by (intro sort_key_inj_key_eq) auto
  with t show ?thesis by (simp add: tiles_def spans_of_def revealing_def Let_def)
qed

lemma tiles_disjoint:
  assumes "tiles l len"
  shows "\<forall>r \<in> set (reveal l @ commit l). span_ok len r" and "sorted_wrt disjoint_spans (reveal l @ commit l)"
proof -
  have t: "tiles_from 0 (spans_of l) len" using assms by (simp add: tiles_def)
  have set_eq: "set (spans_of l) = set (reveal l @ commit l)" by (simp add: spans_of_def)
  have "sorted_wrt disjoint_spans (spans_of l)"
    using tiles_from_order [OF t] by (auto simp: disjoint_spans_def elim: sorted_wrt_mono_rel [rotated])
  then show "sorted_wrt disjoint_spans (reveal l @ commit l)"
    by (rule sorted_wrt_sym_mset [rotated -1]) (auto simp: disjoint_spans_def spans_of_def)
  show "\<forall>r \<in> set (reveal l @ commit l). span_ok len r"
    using tiles_from_order [OF t] set_eq by auto
qed

lemma non_overlappingI:
  "sorted (map sp_start rs) \<Longrightarrow> sorted_wrt disjoint_spans rs \<Longrightarrow> \<forall>r \<in> set rs. span_ok len r \<Longrightarrow> non_overlapping rs"
  by (induction rs rule: non_overlapping.induct) (auto simp: disjoint_spans_def span_ok_def)

lemma tiles_revealing_asserts:
  assumes "tiles (revealing rs len) len"
  shows "(\<forall>r \<in> set rs. span_ok len r) \<and> revealing_asserts rs"
proof -
  note d = tiles_disjoint [OF assms]
  then have "sorted_wrt disjoint_spans (sort_key sp_start rs)" "\<forall>r \<in> set rs. span_ok len r"
    by (auto simp: revealing_def Let_def sorted_wrt_append)
  then show ?thesis
    by (auto simp: revealing_asserts_def intro!: non_overlappingI [where len = len])
qed

text \<open>Two reveals that do not touch satisfy the assertion.\<close>

lemma asserts_one: "revealing_asserts [a]"
  by (simp add: revealing_asserts_def)

lemma asserts_two: "disjoint_spans a b \<Longrightarrow> span_ok len a \<Longrightarrow> span_ok len b \<Longrightarrow> revealing_asserts [a, b]"
  by (auto simp: revealing_asserts_def disjoint_spans_def span_ok_def)

lemma complement_one: "complement [rng a b] len =
    (if 0 < a then [rng 0 a] else []) @ (if b < len then [rng b len] else [])"
  by (simp add: complement_def)

lemma complement_two: "complement [rng a b, rng c d] len =
    (if 0 < a then [rng 0 a] else []) @ (if b < c then [rng b c] else []) @ (if d < len then [rng d len] else [])"
  by (simp add: complement_def)

lemma revealing_one: "revealing [a] len = \<lparr>reveal = [a], commit = complement [a] len\<rparr>"
  by (simp add: revealing_def Let_def)

lemma revealing_two:
  "sp_start a \<le> sp_start b \<Longrightarrow> revealing [a, b] len = \<lparr>reveal = [a, b], commit = complement [a, b] len\<rparr>"
  by (simp add: revealing_def Let_def)

section \<open>What a tiling says of the transcript\<close>

definition covers :: "nat \<Rightarrow> span \<Rightarrow> bool" where
  "covers i s \<longleftrightarrow> sp_start s \<le> i \<and> i < sp_end s"

lemma tiles_from_once:
  "tiles_from at ss len \<Longrightarrow> at \<le> i \<Longrightarrow> i < len \<Longrightarrow> length (filter (covers i) ss) = 1"
proof (induction at ss len rule: tiles_from.induct)
  case (2 at s ss len)
  then have later: "\<forall>t \<in> set ss. sp_end s \<le> sp_start t" using tiles_from_order by auto
  show ?case
  proof (cases "i < sp_end s")
    case True
    with later have "filter (covers i) ss = []" by (auto simp: filter_empty_conv covers_def)
    moreover have "covers i s" using True 2 by (simp add: covers_def)
    ultimately show ?thesis by simp
  next
    case False
    with 2 show ?thesis by (simp add: covers_def)
  qed
qed simp

lemma tiles_from_concat:
  "tiles_from at ss (length t) \<Longrightarrow> concat (map (slice t) ss) = drop at t"
proof (induction at ss "length t" rule: tiles_from.induct)
  case (2 at s ss)
  then have "sp_end s \<le> length t" "sp_start s \<le> sp_end s" using tiles_from_order by fastforce+
  with 2 show ?case
    using slice_adjacent [of at "sp_end s" "length t" t] by (cases s) (simp add: slice_suffix)
qed simp

lemma tiles_once: "tiles l len \<Longrightarrow> i < len \<Longrightarrow> length (filter (covers i) (reveal l @ commit l)) = 1"
proof -
  assume "tiles l len" "i < len"
  then have "length (filter (covers i) (spans_of l)) = 1" by (simp add: tiles_def tiles_from_once)
  then show ?thesis by (simp add: spans_of_def filter_sort)
qed

text \<open>
  The contract of a constructor: what it returns is \<open>revealing\<close> applied to reveals that are
  non-empty, inside the transcript and pairwise apart.
\<close>

locale tiling_constructor =
  fixes build :: "'i \<Rightarrow> layout_error + layout"
    and transcript :: "'i \<Rightarrow> bytes"
    and good :: "'i \<Rightarrow> bool"
  assumes built: "good i \<Longrightarrow> build i = Inr l \<Longrightarrow>
    \<exists>rs. l = revealing rs (length (transcript i)) \<and> (\<forall>r \<in> set rs. span_ok (length (transcript i)) r) \<and>
         revealing_asserts rs"
begin

lemma built_tiles: "good i \<Longrightarrow> build i = Inr l \<Longrightarrow> tiles l (length (transcript i))"
  using built revealing_tiles by blast

lemma built_reassembles:
  "good i \<Longrightarrow> build i = Inr l \<Longrightarrow> concat (map (slice (transcript i)) (spans_of l)) = transcript i"
  using built_tiles [of i l] tiles_from_concat [of 0 "spans_of l" "transcript i"] by (simp add: tiles_def)

lemma built_once:
  "good i \<Longrightarrow> build i = Inr l \<Longrightarrow> n < length (transcript i) \<Longrightarrow>
   length (filter (covers n) (reveal l @ commit l)) = 1"
  using built_tiles tiles_once by blast

lemma built_commit_hidden:
  assumes "good i" "build i = Inr l" "c \<in> set (commit l)" "covers n c" "r \<in> set (reveal l)"
  shows "\<not> covers n r"
proof
  assume "covers n r"
  have "sp_end c \<le> length (transcript i)"
    using tiles_disjoint(1) [OF built_tiles [OF assms(1,2)]] assms(3) by (simp add: span_ok_def)
  then have "length (filter (covers n) (reveal l @ commit l)) = 1"
    using built_once assms by (auto simp: covers_def)
  moreover have "filter (covers n) (reveal l) \<noteq> []" "filter (covers n) (commit l) \<noteq> []"
    using \<open>covers n r\<close> assms by (auto simp: filter_empty_conv)
  ultimately show False
    by (cases "filter (covers n) (reveal l)"; cases "filter (covers n) (commit l)") simp_all
qed

end

section \<open>The constructors meet the contract\<close>

lemma token_request_Some: "token_request sent session = Inr l \<longleftrightarrow>
   (case secret_field session of
      None \<Rightarrow> l = revealing [rng 0 (length sent)] (length sent)
    | Some field \<Rightarrow> (\<exists>start. occurs_at (secret_key field) sent start \<and>
        (\<forall>j < start. \<not> occurs_at (secret_key field) sent j) \<and> l = revealing [rng 0 start] (length sent)))"
proof (cases "secret_field session")
  case (Some field)
  then have "token_request sent session =
      (case windows_position (length (secret_key field)) (\<lambda>w. w = secret_key field) sent of
         None \<Rightarrow> Inl MissingCredential | Some start \<Rightarrow> Inr (revealing [rng 0 start] (length sent)))"
    by (simp add: token_request_def secret_key_def Let_def)
  then have "token_request sent session = Inr l \<longleftrightarrow>
      (\<exists>start. windows_position (length (secret_key field)) (\<lambda>w. w = secret_key field) sent = Some start \<and>
        l = revealing [rng 0 start] (length sent))"
    by (auto split: option.splits)
  with Some show ?thesis by (simp add: needle_search_Some)
qed (auto simp: token_request_def)

lemma token_response_Inr: "token_response pcs recv = Inr l \<longleftrightarrow>
   (\<exists>m. in_response pcs recv access_token_field = Some m \<and> sp_start (value_rng m) < sp_end (value_rng m) \<and>
        l = revealing [rng (sp_start (member_rng m)) (sp_start (value_rng m)),
                       rng (sp_end (value_rng m)) (sp_end (member_rng m))] (length recv))"
  by (auto simp: token_response_def span_is_empty_def split: option.splits)

lemma identity_response_Inr: "identity_response pcs recv session = Inr l \<longleftrightarrow>
   (\<exists>i h. compute_id_snippet_range pcs recv (id_field session) (id_shape_of session = JsonString) = Some i \<and>
          compute_field_snippet_range pcs recv (handle_field session) = Some h \<and>
          l = revealing [i, h] (length recv))"
  by (auto simp: identity_response_def Let_def split: option.splits)

lemma identity_request_Inr: "identity_request sent = Inr l \<longleftrightarrow>
   (\<exists>p e. occurs_at bearer_prefix sent p \<and> (\<forall>j < p. \<not> occurs_at bearer_prefix sent j) \<and>
          p + length bearer_prefix \<le> e \<and> occurs_at crlf sent e \<and>
          (\<forall>j. p + length bearer_prefix \<le> j \<and> j < e \<longrightarrow> \<not> occurs_at crlf sent j) \<and>
          l = revealing [rng 0 (p + length bearer_prefix), rng e (length sent)] (length sent))"
  (is "?L \<longleftrightarrow> ?R")
proof -
  let ?k = "length bearer_prefix"
  have drop: "occurs_at crlf (drop (p + ?k) sent) q \<longleftrightarrow> occurs_at crlf sent (p + ?k + q)"
    if "occurs_at bearer_prefix sent p" for p q
    using that by (auto simp: occurs_at_def add_ac)
  have two: "windows_position 2 (\<lambda>w. w = crlf) xs = windows_position (length crlf) (\<lambda>w. w = crlf) xs" for xs
    by simp
  show ?thesis
  proof
    assume ?L
    then obtain p q where p: "occurs_at bearer_prefix sent p" "\<forall>j < p. \<not> occurs_at bearer_prefix sent j"
      and q: "occurs_at crlf (drop (p + ?k) sent) q" "\<forall>j < q. \<not> occurs_at crlf (drop (p + ?k) sent) j"
      and l: "l = revealing [rng 0 (p + ?k), rng (p + ?k + q) (length sent)] (length sent)"
      unfolding identity_request_def two
      by (auto simp: Let_def win.search_Some_iff window_hit_eq simp del: length_crlf split: option.splits)
    have "\<not> occurs_at crlf sent j" if "p + ?k \<le> j" "j < p + ?k + q" for j
      using q(2) [rule_format, of "j - (p + ?k)"] that drop [OF p(1)] by auto
    with p q l drop [OF p(1)] show ?R by (intro exI [of _ p] exI [of _ "p + ?k + q"]) auto
  next
    assume ?R
    then obtain p e where p: "occurs_at bearer_prefix sent p" "\<forall>j < p. \<not> occurs_at bearer_prefix sent j"
      and e: "p + ?k \<le> e" "occurs_at crlf sent e" "\<forall>j. p + ?k \<le> j \<and> j < e \<longrightarrow> \<not> occurs_at crlf sent j"
      and l: "l = revealing [rng 0 (p + ?k), rng e (length sent)] (length sent)" by blast
    have "windows_position ?k (\<lambda>w. w = bearer_prefix) sent = Some p"
      using p by (simp add: win.search_Some_iff)
    moreover have "windows_position (length crlf) (\<lambda>w. w = crlf) (drop (p + ?k) sent) = Some (e - (p + ?k))"
      unfolding win.search_Some_iff [OF TrueI] window_hit_eq using e drop [OF p(1)] by auto
    ultimately show ?L using e(1) l by (simp add: identity_request_def two Let_def del: length_crlf)
  qed
qed

lemma length_bearer_prefix: "length bearer_prefix = 24"
  by (simp add: bearer_prefix_def)

lemma occurs_bounds: "occurs_at n xs i \<Longrightarrow> i + length n \<le> length xs"
  by (simp add: occurs_at_def)

definition starts_with_secret :: "token_session \<Rightarrow> bytes \<Rightarrow> bool" where
  "starts_with_secret session sent \<longleftrightarrow>
     (case secret_field session of None \<Rightarrow> sent = [] | Some field \<Rightarrow> occurs_at (secret_key field) sent 0)"

interpretation tok_req: tiling_constructor "\<lambda>(sent, session). token_request sent session" fst
  "\<lambda>(sent, session). \<not> starts_with_secret session sent"
proof (unfold_locales, clarsimp)
  fix sent session l
  assume good: "\<not> starts_with_secret session sent" and l: "token_request sent session = Inr l"
  have "\<exists>n. l = revealing [rng 0 n] (length sent) \<and> span_ok (length sent) (rng 0 n)"
  proof (cases "secret_field session")
    case None
    with good l show ?thesis by (auto simp: token_request_Some starts_with_secret_def span_ok_def)
  next
    case (Some field)
    with l obtain start where s: "occurs_at (secret_key field) sent start" "l = revealing [rng 0 start] (length sent)"
      by (auto simp: token_request_Some)
    with good Some have "0 < start" by (cases start) (auto simp: starts_with_secret_def)
    with s occurs_bounds [OF s(1)] show ?thesis by (auto simp: span_ok_def)
  qed
  then show "\<exists>rs. l = revealing rs (length sent) \<and> (\<forall>r \<in> set rs. span_ok (length sent) r) \<and> revealing_asserts rs"
    using asserts_one by fastforce
qed

lemma revealing_pair:
  "span_ok len a \<Longrightarrow> span_ok len b \<Longrightarrow> disjoint_spans a b \<Longrightarrow> l = revealing [a, b] len \<Longrightarrow>
   \<exists>rs. l = revealing rs len \<and> (\<forall>r \<in> set rs. span_ok len r) \<and> revealing_asserts rs"
  using asserts_two by (intro exI [of _ "[a, b]"]) auto

interpretation tok_resp: tiling_constructor "\<lambda>(pcs, recv). token_response pcs recv" snd "\<lambda>_. True"
proof (unfold_locales, clarsimp)
  fix pcs recv l
  assume "token_response pcs recv = Inr l"
  then obtain m where m: "in_response pcs recv access_token_field = Some m"
      "sp_start (value_rng m) < sp_end (value_rng m)"
    and l: "l = revealing [rng (sp_start (member_rng m)) (sp_start (value_rng m)),
                       rng (sp_end (value_rng m)) (sp_end (member_rng m))] (length recv)"
    unfolding token_response_Inr by blast
  show "\<exists>rs. l = revealing rs (length recv) \<and> (\<forall>r \<in> set rs. span_ok (length recv) r) \<and> revealing_asserts rs"
    using m by (intro revealing_pair [OF _ _ _ l]; elim in_response_head) (auto simp: span_ok_def disjoint_spans_def)
qed

interpretation id_req: tiling_constructor identity_request "\<lambda>sent. sent" "\<lambda>_. True"
proof (unfold_locales)
  fix sent l
  assume "identity_request sent = Inr l"
  then obtain p e where e: "p + length bearer_prefix \<le> e" "occurs_at crlf sent e"
    and l: "l = revealing [rng 0 (p + length bearer_prefix), rng e (length sent)] (length sent)"
    unfolding identity_request_Inr by blast
  show "\<exists>rs. l = revealing rs (length sent) \<and> (\<forall>r \<in> set rs. span_ok (length sent) r) \<and> revealing_asserts rs"
    using e occurs_bounds [OF e(2)]
    by (intro revealing_pair [OF _ _ _ l]) (auto simp: span_ok_def disjoint_spans_def length_bearer_prefix)
qed

definition members_apart :: "chunk_size_parser \<Rightarrow> bytes \<Rightarrow> identity_session \<Rightarrow> bool" where
  "members_apart pcs recv session \<longleftrightarrow>
     (case (compute_id_snippet_range pcs recv (id_field session) (id_shape_of session = JsonString),
            compute_field_snippet_range pcs recv (handle_field session)) of
        (Some i, Some h) \<Rightarrow> disjoint_spans i h
      | _ \<Rightarrow> True)"

lemma compute_field_span_ok:
  "compute_field_snippet_range pcs recv field = Some r \<Longrightarrow> span_ok (length recv) r"
  by (auto simp: compute_field_snippet_range_def span_ok_def elim!: in_response_head)

lemma compute_id_span_ok:
  "compute_id_snippet_range pcs recv field quoted = Some r \<Longrightarrow> span_ok (length recv) r"
proof (cases quoted)
  case False
  assume "compute_id_snippet_range pcs recv field quoted = Some r"
  then have rel: "relocate pcs find_json_bare_snippet_range (\<lambda>r. r) shift recv field = Some r"
    using False compute_id_relocates by simp
  show ?thesis by (rule bare_number.relocate_in_body [OF rel]) (simp add: span_ok_def in_slice_def)
qed (simp add: compute_id_snippet_range_def compute_field_span_ok)

interpretation id_resp: tiling_constructor "\<lambda>(pcs, recv, session). identity_response pcs recv session"
  "\<lambda>(pcs, recv, session). recv" "\<lambda>(pcs, recv, session). members_apart pcs recv session"
proof (unfold_locales, clarsimp)
  fix pcs recv session l
  assume good: "members_apart pcs recv session" and "identity_response pcs recv session = Inr l"
  then obtain i h where s: "compute_id_snippet_range pcs recv (id_field session) (id_shape_of session = JsonString) = Some i"
      "compute_field_snippet_range pcs recv (handle_field session) = Some h"
    and l: "l = revealing [i, h] (length recv)"
    unfolding identity_response_Inr by blast
  show "\<exists>rs. l = revealing rs (length recv) \<and> (\<forall>r \<in> set rs. span_ok (length recv) r) \<and> revealing_asserts rs"
    using s good compute_id_span_ok [OF s(1)] compute_field_span_ok [OF s(2)]
    by (intro revealing_pair [OF _ _ _ l]) (simp_all add: members_apart_def)
qed

section \<open>Layouts a prover can obtain\<close>

text \<open>
  A specification, not code: the layouts the four constructors return outside the two cases in
  which a layout does not tile. No constructor tests these two conditions in a release
  build: \<open>members_apart\<close> is the debug assertion of \<open>revealing\<close>, and a request that starts with
  its credential is not tested at all. \<open>constructed_layouts_tile\<close> states what happens there.
\<close>

inductive constructed :: "bytes \<Rightarrow> layout \<Rightarrow> bool" where
  token_request: "token_request sent session = Inr l \<Longrightarrow> \<not> starts_with_secret session sent \<Longrightarrow> constructed sent l"
| token_response: "token_response pcs recv = Inr l \<Longrightarrow> constructed recv l"
| identity_request: "identity_request sent = Inr l \<Longrightarrow> constructed sent l"
| identity_response: "identity_response pcs recv session = Inr l \<Longrightarrow> members_apart pcs recv session \<Longrightarrow>
    constructed recv l"

inductive_cases constructedE: "constructed t l"

lemma constructed_tiles: "constructed t l \<Longrightarrow> tiles l (length t)"
proof (induction rule: constructed.induct)
  case (token_request sent session l)
  then show ?case using tok_req.built_tiles [of "(sent, session)" l] by simp
next
  case (token_response pcs recv l)
  then show ?case using tok_resp.built_tiles [of "(pcs, recv)" l] by simp
next
  case (identity_request sent l)
  then show ?case by (rule id_req.built_tiles [OF TrueI])
next
  case (identity_response pcs recv session l)
  then show ?case using id_resp.built_tiles [of "(pcs, recv, session)" l] by simp
qed

definition bearer_sample :: bytes where
  "bearer_sample = ascii ''GET'' @ bearer_prefix @ ascii ''tok'' @ crlf @ crlf"

lemma bearer_sample_layout: "identity_request bearer_sample =
    Inr \<lparr>reveal = [rng 0 27, rng 30 34], commit = [rng 27 30]\<rparr>"
  by (simp add: bearer_sample_def complement_def eval)

definition exchange_sample :: bytes where
  "exchange_sample = ascii ''a=1&s=2''"

definition exchange_session :: token_session where
  "exchange_session = \<lparr>secret_field = Some (ascii ''s'')\<rparr>"

lemma exchange_sample_layout: "token_request exchange_sample exchange_session =
    Inr \<lparr>reveal = [rng 0 3], commit = [rng 3 7]\<rparr>"
  by (simp add: exchange_sample_def exchange_session_def complement_def eval)

definition token_sample :: bytes where
  "token_sample = ascii ''200'' @ head_marker @ [0x7B] @ member_text access_token_field [] [] (ascii ''ab'') @ [rbrace]"

lemma token_sample_layout: "token_response hex_chunk_size token_sample =
    Inr \<lparr>reveal = [rng 8 24, rng 26 27], commit = [rng 0 8, rng 24 26, rng 27 28]\<rparr>"
  by (simp add: token_sample_def complement_def eval)

definition identity_sample_session :: identity_session where
  "identity_sample_session = \<lparr>id_field = ascii ''id'', handle_field = ascii ''login'', id_shape_of = OtherShape\<rparr>"

lemma identity_sample_layout: "identity_response hex_chunk_size sample_response identity_sample_session =
    Inr \<lparr>reveal = [rng 40 58, rng 64 72],
         commit = [rng 0 40, rng 58 64, rng 72 (length sample_response)]\<rparr>"
proof -
  have "72 < length sample_response" by (simp add: sample_response_def eval)
  then show ?thesis
    by (simp add: identity_response_def identity_sample_session_def sample_id
        compute_field_snippet_range_def sample_login revealing_def complement_def)
qed

section \<open>Properties\<close>

text \<open>Tiling is by construction exactly up to the caller's obligation: the layout \<open>revealing\<close>
  builds tiles the transcript if and only if the reveals are non-empty, in bounds, and pass
  the debug assertion (no two overlap, in whatever order they were given).\<close>
theorem revealing_tiles_iff:
  "tiles (revealing rs len) len \<longleftrightarrow> list_all (span_ok len) rs \<and> revealing_asserts rs"
  using revealing_tiles [of rs len] tiles_revealing_asserts [of rs len] by (auto simp: list_all_iff)

text \<open>
  A layout that partitions a transcript: the runs are non-empty and follow each other without a
  gap or an overlap, put in order they rebuild the bytes, and each byte is in exactly one run.
\<close>

definition partitions :: "layout \<Rightarrow> bytes \<Rightarrow> bool" where
  "partitions l t \<longleftrightarrow> tiles l (length t) \<and> concat (map (slice t) (spans_of l)) = t \<and>
     (\<forall>n < length t. length (filter (covers n) (reveal l @ commit l)) = 1)"

lemma partitions_iff_tiles: "partitions l t \<longleftrightarrow> tiles l (length t)"
  using tiles_from_concat [of 0 "spans_of l" t] tiles_once by (auto simp: partitions_def tiles_def)

lemma token_request_tiles_iff:
  assumes "token_request sent session = Inr l"
  shows "tiles l (length sent) \<longleftrightarrow> \<not> starts_with_secret session sent"
proof
  show "\<not> starts_with_secret session sent" if "tiles l (length sent)"
  proof
    assume "starts_with_secret session sent"
    then have "l = revealing [rng 0 0] (length sent)"
      using assms by (fastforce simp: token_request_Some starts_with_secret_def split: option.splits)
    then show False using that tiles_revealing_asserts by (fastforce simp: span_ok_def)
  qed
  show "tiles l (length sent)" if "\<not> starts_with_secret session sent"
    using that assms tok_req.built_tiles [of "(sent, session)" l] by simp
qed

lemma identity_response_tiles_iff_parts:
  assumes "identity_response pcs recv session = Inr l"
  shows "tiles l (length recv) = members_apart pcs recv session"
    and "\<exists>i h. mset (reveal l) = {#i, h#} \<and>
           compute_id_snippet_range pcs recv (id_field session) (id_shape_of session = JsonString) = Some i \<and>
           compute_field_snippet_range pcs recv (handle_field session) = Some h"
proof -
  from assms obtain i h where s: "compute_id_snippet_range pcs recv (id_field session) (id_shape_of session = JsonString) = Some i"
      "compute_field_snippet_range pcs recv (handle_field session) = Some h"
    and l: "l = revealing [i, h] (length recv)"
    unfolding identity_response_Inr by blast
  have m: "mset (reveal l) = {#i, h#}" by (simp add: l revealing_def Let_def)
  then show "\<exists>i h. mset (reveal l) = {#i, h#} \<and>
           compute_id_snippet_range pcs recv (id_field session) (id_shape_of session = JsonString) = Some i \<and>
           compute_field_snippet_range pcs recv (handle_field session) = Some h"
    using s by blast
  have "members_apart pcs recv session" if "tiles l (length recv)"
  proof -
    have "sorted_wrt disjoint_spans (reveal l)"
      using tiles_disjoint(2) [OF that] by (simp add: sorted_wrt_append)
    then have "disjoint_spans i h"
      using sorted_wrt_sym_mset [of disjoint_spans "reveal l" "[i, h]"] m
      by (auto simp: disjoint_spans_def)
    then show ?thesis using s by (simp add: members_apart_def)
  qed
  then show "tiles l (length recv) = members_apart pcs recv session"
    using id_resp.built_tiles [of "(pcs, recv, session)" l] assms by auto
qed

text \<open>C1. Every layout the four constructors return partitions its transcript, so each byte is
  revealed or committed and never both, with exactly two exceptions: a token request whose
  first bytes are already the credential (or an empty request of a public client), and an
  identity response whose two members overlap. The token response and the identity request
  partition whenever they answer.\<close>
theorem constructed_layouts_tile:
  "(\<forall>l. token_request t session = Inr l \<longrightarrow> partitions l t = (\<not> starts_with_secret session t)) \<and>
   (\<forall>l. token_response pcs t = Inr l \<longrightarrow> partitions l t) \<and>
   (\<forall>l. identity_request t = Inr l \<longrightarrow> partitions l t) \<and>
   (\<forall>l. identity_response pcs t profile = Inr l \<longrightarrow> partitions l t = members_apart pcs t profile)"
proof (intro conjI allI impI)
  fix l
  show "partitions l t = (\<not> starts_with_secret session t)" if "token_request t session = Inr l"
    using token_request_tiles_iff [OF that] by (simp add: partitions_iff_tiles)
  show "partitions l t" if "token_response pcs t = Inr l"
    using tok_resp.built_tiles [of "(pcs, t)" l] that by (simp add: partitions_iff_tiles)
  show "partitions l t" if "identity_request t = Inr l"
    using id_req.built_tiles [OF TrueI that] by (simp add: partitions_iff_tiles)
  show "partitions l t = members_apart pcs t profile" if "identity_response pcs t profile = Inr l"
    using identity_response_tiles_iff_parts(1) [OF that] by (simp add: partitions_iff_tiles)
qed

theorem constructed_layouts_tile_witness:
  "partitions \<lparr>reveal = [rng 0 27, rng 30 34], commit = [rng 27 30]\<rparr> bearer_sample \<and>
   partitions \<lparr>reveal = [rng 8 24, rng 26 27], commit = [rng 0 8, rng 24 26, rng 27 28]\<rparr> token_sample \<and>
   partitions \<lparr>reveal = [rng 0 3], commit = [rng 3 7]\<rparr> exchange_sample \<and>
   partitions \<lparr>reveal = [rng 40 58, rng 64 72],
         commit = [rng 0 40, rng 58 64, rng 72 (length sample_response)]\<rparr> sample_response"
proof -
  have "\<not> starts_with_secret exchange_session exchange_sample"
    by (simp add: starts_with_secret_def exchange_session_def exchange_sample_def occurs_at_def secret_key_def eval)
  moreover have "members_apart hex_chunk_size sample_response identity_sample_session"
    by (simp add: members_apart_def identity_sample_session_def sample_id sample_login
        compute_field_snippet_range_def disjoint_spans_def)
  ultimately show ?thesis
    using constructed_layouts_tile [of exchange_sample exchange_session]
      constructed_layouts_tile [of token_sample _ hex_chunk_size] constructed_layouts_tile [of bearer_sample]
      constructed_layouts_tile [of sample_response _ hex_chunk_size identity_sample_session]
      exchange_sample_layout token_sample_layout bearer_sample_layout identity_sample_layout by simp
qed

text \<open>C36. The token request of a profile with a body credential commits one run: it starts at the
  first \<open>&field=\<close> of the request and reaches its end, so every occurrence of the credential
  field is inside the commitment and the revealed prefix holds none.\<close>
theorem token_request_commits_secret:
  assumes "token_request sent session = Inr l" and "secret_field session = Some field"
  shows "\<exists>start. l = \<lparr>reveal = [rng 0 start], commit = [rng start (length sent)]\<rparr> \<and>
           occurs_at (secret_key field) sent start \<and>
           (\<forall>j. occurs_at (secret_key field) sent j \<longrightarrow> start \<le> j) \<and>
           (\<forall>j. \<not> occurs_at (secret_key field) (slice sent (rng 0 start)) j)"
proof -
  from assms obtain start where s: "occurs_at (secret_key field) sent start"
      "\<forall>j < start. \<not> occurs_at (secret_key field) sent j" "l = revealing [rng 0 start] (length sent)"
    by (auto simp: token_request_Some)
  have b: "start + length (secret_key field) \<le> length sent" using s(1) by (rule occurs_bounds)
  have pos: "0 < length (secret_key field)" by (simp add: secret_key_def)
  have "start < length sent" using b pos by linarith
  with s(3) have "l = \<lparr>reveal = [rng 0 start], commit = [rng start (length sent)]\<rparr>"
    by (simp add: revealing_one complement_def)
  moreover have "\<not> occurs_at (secret_key field) (slice sent (rng 0 start)) j" for j
  proof
    assume "occurs_at (secret_key field) (slice sent (rng 0 start)) j"
    then have "occurs_at (secret_key field) sent j" "j + length (secret_key field) \<le> start"
      using b by (auto simp: slice_prefix occurs_at_def drop_take min_def split: if_splits)
    moreover from this have "j < start" using pos by linarith
    ultimately show False using s(2) by simp
  qed
  ultimately show ?thesis using s(1,2) by (metis not_less)
qed

theorem token_request_commits_secret_witness:
  "occurs_at (secret_key (ascii ''s'')) exchange_sample 3"
proof -
  have "secret_field exchange_session = Some (ascii ''s'')" by (simp add: exchange_session_def)
  from token_request_commits_secret [OF exchange_sample_layout this] show ?thesis by auto
qed

text \<open>The token request tiles except at one boundary: a request whose first bytes are already
  the credential (or, for a public client, an empty request) yields an empty reveal. The only
  error is a missing credential field.\<close>
theorem token_request_outcomes:
  "(case token_request sent session of
      Inr l \<Rightarrow> tiles l (length sent) = (\<not> starts_with_secret session sent)
    | Inl e \<Rightarrow> e = MissingCredential \<and>
        (\<exists>field. secret_field session = Some field \<and> (\<nexists>i. occurs_at (secret_key field) sent i)))"
proof (cases "token_request sent session")
  case (Inl e)
  then obtain field where f: "secret_field session = Some field" "e = MissingCredential"
      "windows_position (length (secret_key field)) (\<lambda>w. w = secret_key field) sent = None"
    by (auto simp: token_request_def secret_key_def Let_def split: option.splits)
  then show ?thesis using Inl by (auto simp: needle_search split: if_splits)
next
  case (Inr l)
  then show ?thesis using token_request_tiles_iff by simp
qed

text \<open>C4. The token response reveals exactly the two delimiters of the \<open>access_token\<close> member and
  commits the bearer as a non-empty run of its own: the run holds the bytes of the bearer
  in the decoded body, and the reveals hold the key and the closing quote.\<close>
theorem token_response_commits_bearer:
  assumes "token_response pcs recv = Inr l"
  shows "\<exists>body pre ws1 ws2 bearer post open_at v e close_at.
           (extract_response_body pcs recv :: unit error + bytes) = Inr body \<and>
           first_member body access_token_field pre ws1 ws2 bearer post \<and> bearer \<noteq> [] \<and>
           reveal l = [rng open_at v, rng e close_at] \<and> rng v e \<in> set (commit l) \<and>
           slice recv (rng open_at v) = member_head access_token_field ws1 ws2 \<and>
           slice recv (rng v e) = bearer \<and> slice recv (rng e close_at) = [quote]"
proof -
  from assms obtain m where m: "in_response pcs recv access_token_field = Some m"
      "sp_start (value_rng m) < sp_end (value_rng m)"
    and l: "l = revealing [rng (sp_start (member_rng m)) (sp_start (value_rng m)),
                       rng (sp_end (value_rng m)) (sp_end (member_rng m))] (length recv)"
    unfolding token_response_Inr by blast
  from m(1) obtain body pre ws1 ws2 val post at
    where t: "(extract_response_body pcs recv :: unit error + bytes) = Inr body"
      "first_member body access_token_field pre ws1 ws2 val post"
      "m = located at access_token_field ws1 ws2 val"
      "slice recv (member_rng m) = member_text access_token_field ws1 ws2 val"
    by (rule in_response_text)
  note parts = located_parts [OF t(3,4)]
  have order: "sp_start (member_rng m) \<le> sp_end (value_rng m)" "val \<noteq> []"
    using m(2) t(3) by (auto simp: located_def Let_def)
  then have "reveal l = [rng (sp_start (member_rng m)) (sp_start (value_rng m)),
                         rng (sp_end (value_rng m)) (sp_end (member_rng m))]"
      "rng (sp_start (value_rng m)) (sp_end (value_rng m)) \<in> set (commit l)"
    using l m(2) by (simp_all add: revealing_two complement_two)
  moreover have "slice recv (rng (sp_start (value_rng m)) (sp_end (value_rng m))) = val"
    using parts(2) by (cases "value_rng m") simp
  ultimately show ?thesis using t(1,2) parts(1,3) order(2) by blast
qed

theorem token_response_commits_bearer_witness:
  "\<exists>ws1 ws2. slice token_sample (rng 8 24) = member_head access_token_field ws1 ws2"
  using token_response_commits_bearer [OF token_sample_layout] by auto

lemma identity_request_exact_parts:
  assumes "identity_request sent = Inr l"
  shows "\<exists>p bearer. sent = take p sent @ bearer_prefix @ bearer @ crlf @ drop (p + length (bearer_prefix @ bearer @ crlf)) sent \<and>
           (\<forall>j < p. \<not> occurs_at bearer_prefix sent j) \<and> (\<nexists>i. occurs_at crlf bearer i) \<and>
           concat (map (slice sent) (commit l)) = bearer \<and>
           concat (map (slice sent) (reveal l)) = take (p + length bearer_prefix) sent @ drop (p + length (bearer_prefix @ bearer)) sent"
proof -
  let ?k = "length bearer_prefix"
  from assms obtain p e where p: "occurs_at bearer_prefix sent p" "\<forall>j < p. \<not> occurs_at bearer_prefix sent j"
    and e: "p + ?k \<le> e" "occurs_at crlf sent e" "\<forall>j. p + ?k \<le> j \<and> j < e \<longrightarrow> \<not> occurs_at crlf sent j"
    and l: "l = revealing [rng 0 (p + ?k), rng e (length sent)] (length sent)"
    unfolding identity_request_Inr by blast
  let ?b = "slice sent (rng (p + ?k) e)"
  have le: "e + 2 \<le> length sent" using occurs_bounds [OF e(2)] by simp
  then have in_b: "in_slice sent (rng (p + ?k) e)" using e(1) by (simp add: in_slice_def)
  have len: "length ?b = e - (p + ?k)" using length_slice [OF in_b] by (simp add: span_len_def)
  have "occurs_at crlf (drop (p + ?k) sent) (e - (p + ?k))"
    using e(1,2) by (auto simp: occurs_at_def)
  from occurs_at_cut [OF this] have "drop (p + ?k) sent = ?b @ crlf @ drop (e + 2) sent"
    using e(1) by (simp add: slice_def)
  then have "sent = take p sent @ bearer_prefix @ ?b @ crlf @ drop (e + 2) sent"
    using occurs_at_cut [OF p(1)] by simp
  moreover have "p + length (bearer_prefix @ ?b @ crlf) = e + 2" "p + length (bearer_prefix @ ?b) = e"
    using len e(1) by simp_all
  moreover have "\<not> occurs_at crlf ?b i" for i
  proof
    assume o: "occurs_at crlf ?b i"
    then have "i + 2 \<le> length ?b" by (simp add: occurs_at_def)
    then have i: "p + ?k + i + 2 \<le> e" using len by simp
    have "take 2 (drop i ?b) = take 2 (drop (p + ?k + i) sent)"
      using i by (simp add: slice_def drop_take take_take add.commute)
    then have "occurs_at crlf sent (p + ?k + i)" using o i le by (simp add: occurs_at_def)
    then show False using e(3) i by auto
  qed
  moreover have "concat (map (slice sent) (commit l)) = ?b"
    using l e(1) le by (cases "p + ?k < e") (simp_all add: revealing_two complement_two slice_def length_bearer_prefix)
  moreover have "concat (map (slice sent) (reveal l)) = take (p + ?k) sent @ drop e sent"
    using l by (simp add: revealing_two slice_prefix slice_suffix)
  ultimately show ?thesis using p(2) by (intro exI [of _ p] exI [of _ ?b]) simp
qed

text \<open>C14. The identity request reveals everything but the bearer: what is committed is exactly the
  bytes between the first \<open>authorization: Bearer\<close> and the next CRLF, and the two reveals are
  everything before and everything from that CRLF on.\<close>
theorem identity_request_exact:
  assumes "identity_request sent = Inr l"
  shows "\<exists>p bearer. sent = take p sent @ bearer_prefix @ bearer @ crlf @ drop (p + length (bearer_prefix @ bearer @ crlf)) sent \<and>
           (\<forall>j < p. \<not> occurs_at bearer_prefix sent j) \<and> (\<nexists>i. occurs_at crlf bearer i) \<and>
           concat (map (slice sent) (commit l)) = bearer \<and>
           concat (map (slice sent) (reveal l)) = take (p + length bearer_prefix) sent @ drop (p + length (bearer_prefix @ bearer)) sent"
  using assms by (rule identity_request_exact_parts)

theorem identity_request_exact_witness:
  "\<exists>bearer. slice bearer_sample (rng 27 30) = bearer \<and> (\<nexists>i. occurs_at crlf bearer i)"
  using identity_request_exact [OF bearer_sample_layout] by auto




section \<open>Members that overlap\<close>

text \<open>
  A body in which the quote that closes one key is the quote that opens the next: both scans
  answer, the two members overlap, and the layout the release build returns does not tile
  (a debug build stops at the assertion).
\<close>

definition overlapping_session :: identity_session where
  "overlapping_session = \<lparr>id_field = ascii ''id'', handle_field = ascii ''username'', id_shape_of = JsonString\<rparr>"

definition overlapping_response :: bytes where
  "overlapping_response = ascii ''200'' @ head_marker @ [quote] @ ascii ''id'' @ [quote, colon, quote] @
     ascii ''username'' @ [quote, colon, quote] @ ascii ''x'' @ [quote]"

lemma overlapping_members_do_not_tile:
  "identity_response hex_chunk_size overlapping_response overlapping_session =
     Inr \<lparr>reveal = [rng 7 22, rng 12 26], commit = [rng 0 7]\<rparr>"
  "\<not> tiles \<lparr>reveal = [rng 7 22, rng 12 26], commit = [rng 0 7]\<rparr> 26"
  "\<not> revealing_asserts [rng 7 22, rng 12 26]"
  by (simp_all add: overlapping_response_def overlapping_session_def complement_def eval)

text \<open>
  An empty bearer: the two reveals touch and nothing is committed. The token response refuses
  an empty value; the identity request does not.
\<close>

lemma empty_bearer_commits_nothing:
  "identity_request (bearer_prefix @ crlf @ crlf) = Inr \<lparr>reveal = [rng 0 24, rng 24 28], commit = []\<rparr>"
  by (simp add: complement_def eval)

end
