(* ===== verification/Observed.thy ===== *)
theory Observed
  imports Attestation Layouts
begin

text \<open>
  \<open>libid-tlsn/src/attest.rs\<close>: the attested-data record of an observed session. The transcript
  and the commitments are \<open>tlsn\<close> values; the records below have what the accessors this
  module calls return. Lemmas: when a record exists, what it holds, which error is
  reported, and that the order of the commitments does not matter.
\<close>

section \<open>Observed sessions\<close>

datatype direction = Sent | Received

datatype hash_alg_id = SHA256 | OtherAlg byte

text \<open>A \<open>RangeSet\<close> iterates its ranges in ascending order; they are not empty and do not touch.\<close>

record plaintext_hash =
  ph_direction :: direction
  ph_idx :: "span list"
  ph_alg :: hash_alg_id
  ph_value :: bytes

datatype transcript_commitment = HashCommitment plaintext_hash | UnknownCommitment

record partial_transcript =
  len_sent :: nat
  len_received :: nat
  sent_authed :: "span list"
  received_authed :: "span list"
  sent_unsafe :: bytes
  received_unsafe :: bytes

record observed_session =
  obs_transcript :: partial_transcript
  obs_authority :: bytes
  obs_commitments :: "transcript_commitment list"
  obs_created_at :: "64 word"

datatype attest_error =
  WrongCommitmentAlgorithm hash_alg_id
| DisjointCommitment nat
| BadCommitmentLength nat
| OffsetTooLarge nat

text \<open>Indexing \<open>data[range]\<close> out of bounds panics; every other stop is an error value.\<close>

datatype attest_stop = Refused attest_error | IndexPanic

section \<open>Building the record\<close>

definition u32_of :: "nat \<Rightarrow> attest_stop + 32 word" where
  "u32_of value = (if value < 2 ^ 32 then Inr (of_nat value) else Inl (Refused (OffsetTooLarge value)))"

fun reveal_ranges :: "bytes \<Rightarrow> span list \<Rightarrow> revealed_range list \<Rightarrow> attest_stop + revealed_range list" where
  "reveal_ranges data [] revealed = Inr revealed"
| "reveal_ranges data (r # rs) revealed =
     and_then (u32_of (sp_end r)) (\<lambda>_.
     and_then (u32_of (sp_start r)) (\<lambda>start.
     and_then (ok_or (get_range data r) IndexPanic) (\<lambda>bs.
     reveal_ranges data rs (revealed @ [\<lparr>rev_start = start, rev_bytes = bs\<rparr>]))))"

definition commitment_of :: "plaintext_hash \<Rightarrow> attest_stop + range_commitment" where
  "commitment_of hash =
     (if ph_alg hash \<noteq> SHA256 then Inl (Refused (WrongCommitmentAlgorithm (ph_alg hash)))
      else case ph_idx hash of
        [r] \<Rightarrow>
          if length (ph_value hash) \<noteq> 32 then Inl (Refused (BadCommitmentLength (length (ph_value hash))))
          else and_then (u32_of (sp_start r)) (\<lambda>s.
               and_then (u32_of (sp_end r)) (\<lambda>e.
               Inr \<lparr>com_start = s, com_end = e, com_commitment = ph_value hash\<rparr>))
      | ranges \<Rightarrow> Inl (Refused (DisjointCommitment (length ranges))))"

fun commit_ranges ::
  "direction \<Rightarrow> transcript_commitment list \<Rightarrow> range_commitment list \<Rightarrow> attest_stop + range_commitment list" where
  "commit_ranges dir [] out = Inr out"
| "commit_ranges dir (UnknownCommitment # cs) out = commit_ranges dir cs out"
| "commit_ranges dir (HashCommitment hash # cs) out =
     (if ph_direction hash \<noteq> dir then commit_ranges dir cs out
      else and_then (commitment_of hash) (\<lambda>c. commit_ranges dir cs (out @ [c])))"

definition block_from_observed :: "observed_session \<Rightarrow> direction \<Rightarrow> attest_stop + direction_block" where
  "block_from_observed session dir =
     (let t = obs_transcript session;
          (authed, data) = (case dir of Sent \<Rightarrow> (sent_authed t, sent_unsafe t)
                                      | Received \<Rightarrow> (received_authed t, received_unsafe t)) in
      and_then (reveal_ranges data authed []) (\<lambda>revealed.
      and_then (commit_ranges dir (obs_commitments session) []) (\<lambda>out.
      Inr \<lparr>blk_revealed = revealed, blk_commitments = sort_key com_start out\<rparr>)))"

definition from_observed :: "(bytes \<Rightarrow> bytes) \<Rightarrow> observed_session \<Rightarrow> attest_stop + attested_data" where
  "from_observed keccak256 session =
     and_then (u32_of (len_sent (obs_transcript session))) (\<lambda>ns.
     and_then (u32_of (len_received (obs_transcript session))) (\<lambda>nr.
     and_then (block_from_observed session Sent) (\<lambda>s.
     and_then (block_from_observed session Received) (\<lambda>r.
     Inr \<lparr>authority_id = authority_id_of keccak256 (obs_authority session),
          created_at = obs_created_at session,
          sent_transcript_length = ns, recv_transcript_length = nr,
          sent_block = s, received_block = r\<rparr>))))"

section \<open>When a record exists\<close>

definition fits :: "span \<Rightarrow> bool" where
  "fits r \<longleftrightarrow> sp_start r < 2 ^ 32 \<and> sp_end r < 2 ^ 32"

definition hashes_of :: "direction \<Rightarrow> transcript_commitment list \<Rightarrow> plaintext_hash list" where
  "hashes_of dir cs = List.map_filter
     (\<lambda>c. case c of HashCommitment h \<Rightarrow> if ph_direction h = dir then Some h else None | UnknownCommitment \<Rightarrow> None) cs"

definition describable :: "plaintext_hash \<Rightarrow> bool" where
  "describable h \<longleftrightarrow> ph_alg h = SHA256 \<and> length (ph_idx h) = 1 \<and> length (ph_value h) = 32 \<and> fits (hd (ph_idx h))"

definition revealed_of :: "bytes \<Rightarrow> span \<Rightarrow> revealed_range" where
  "revealed_of data r = \<lparr>rev_start = of_nat (sp_start r), rev_bytes = slice data r\<rparr>"

definition described :: "plaintext_hash \<Rightarrow> range_commitment" where
  "described h = \<lparr>com_start = of_nat (sp_start (hd (ph_idx h))), com_end = of_nat (sp_end (hd (ph_idx h))),
                  com_commitment = ph_value h\<rparr>"

definition authed_of :: "direction \<Rightarrow> partial_transcript \<Rightarrow> span list" where
  "authed_of dir t = (case dir of Sent \<Rightarrow> sent_authed t | Received \<Rightarrow> received_authed t)"

definition unsafe_of :: "direction \<Rightarrow> partial_transcript \<Rightarrow> bytes" where
  "unsafe_of dir t = (case dir of Sent \<Rightarrow> sent_unsafe t | Received \<Rightarrow> received_unsafe t)"

lemma hashes_of_simps [simp]:
  "hashes_of dir [] = []"
  "hashes_of dir (UnknownCommitment # cs) = hashes_of dir cs"
  "hashes_of dir (HashCommitment h # cs) = (if ph_direction h = dir then h # hashes_of dir cs else hashes_of dir cs)"
  by (simp_all add: hashes_of_def map_filter_simps)

lemma hashes_of_append: "hashes_of dir (xs @ ys) = hashes_of dir xs @ hashes_of dir ys"
  by (simp add: hashes_of_def List.map_filter_def)

lemma u32_of_Inr [simp]: "u32_of v = Inr w \<longleftrightarrow> v < 2 ^ 32 \<and> w = of_nat v"
  by (auto simp: u32_of_def)

lemma u32_of_Inl [simp]: "u32_of v = Inl e \<longleftrightarrow> 2 ^ 32 \<le> v \<and> e = Refused (OffsetTooLarge v)"
  by (auto simp: u32_of_def)

lemma commitment_of_Inr: "commitment_of h = Inr c \<longleftrightarrow> describable h \<and> c = described h"
  by (auto simp: commitment_of_def describable_def described_def fits_def and_then_Inr_iff
      length_Suc_conv split: list.splits)

lemma commitment_of_Inl:
  "commitment_of h = Inl e \<Longrightarrow>
   (case e of
      Refused (WrongCommitmentAlgorithm a) \<Rightarrow> a = ph_alg h \<and> a \<noteq> SHA256
    | Refused (DisjointCommitment n) \<Rightarrow> n = length (ph_idx h) \<and> n \<noteq> 1
    | Refused (BadCommitmentLength n) \<Rightarrow> n = length (ph_value h) \<and> n \<noteq> 32
    | Refused (OffsetTooLarge v) \<Rightarrow> 2 ^ 32 \<le> v \<and> v \<in> {sp_start (hd (ph_idx h)), sp_end (hd (ph_idx h))}
    | IndexPanic \<Rightarrow> False)"
  by (auto simp: commitment_of_def and_then_Inl_iff split: if_splits list.splits)

lemma reveal_ranges_Inr:
  "reveal_ranges data rs acc = Inr out \<longleftrightarrow>
   list_all fits rs \<and> list_all (in_slice data) rs \<and> out = acc @ map (revealed_of data) rs"
  by (induction data rs acc rule: reveal_ranges.induct)
     (auto simp: and_then_Inr_iff get_range_Some_iff fits_def revealed_of_def)

lemma reveal_ranges_Inl:
  "reveal_ranges data rs acc = Inl e \<Longrightarrow>
   \<exists>r \<in> set rs. (e = IndexPanic \<and> \<not> in_slice data r) \<or>
     (\<exists>v. e = Refused (OffsetTooLarge v) \<and> 2 ^ 32 \<le> v \<and> v \<in> {sp_start r, sp_end r})"
  by (induction data rs acc rule: reveal_ranges.induct)
     (auto simp: and_then_Inl_iff get_range_def split: if_splits)

lemma commit_ranges_Inr:
  "commit_ranges dir cs acc = Inr out \<longleftrightarrow>
   list_all describable (hashes_of dir cs) \<and> out = acc @ map described (hashes_of dir cs)"
  by (induction dir cs acc rule: commit_ranges.induct) (auto simp: and_then_Inr_iff commitment_of_Inr)

lemma commit_ranges_Inl:
  "commit_ranges dir cs acc = Inl e \<Longrightarrow>
   \<exists>before h rest. hashes_of dir cs = before @ h # rest \<and> list_all describable before \<and> commitment_of h = Inl e"
proof (induction dir cs acc rule: commit_ranges.induct)
  case (3 dir hash cs out)
  show ?case
  proof (cases "ph_direction hash = dir")
    case True
    with "3.prems" consider "commitment_of hash = Inl e"
      | c where "commitment_of hash = Inr c" "commit_ranges dir cs (out @ [c]) = Inl e"
      by (auto simp: and_then_Inl_iff)
    then show ?thesis
    proof cases
      case 1
      with True show ?thesis by (intro exI [of _ "[]"]) auto
    next
      case 2
      with "3.IH"(2) True obtain before h rest
        where "hashes_of dir cs = before @ h # rest" "list_all describable before" "commitment_of h = Inl e" by blast
      with 2 True show ?thesis
        by (intro exI [of _ "hash # before"] exI [of _ h] exI [of _ rest]) (simp add: commitment_of_Inr)
    qed
  next
    case False
    with 3 show ?thesis by auto
  qed
qed auto

lemma block_from_observed_Inr:
  "block_from_observed session dir = Inr b \<longleftrightarrow>
   list_all fits (authed_of dir (obs_transcript session)) \<and>
   list_all (in_slice (unsafe_of dir (obs_transcript session))) (authed_of dir (obs_transcript session)) \<and>
   list_all describable (hashes_of dir (obs_commitments session)) \<and>
   b = \<lparr>blk_revealed = map (revealed_of (unsafe_of dir (obs_transcript session))) (authed_of dir (obs_transcript session)),
        blk_commitments = sort_key com_start (map described (hashes_of dir (obs_commitments session)))\<rparr>"
  by (auto simp: block_from_observed_def Let_def and_then_Inr_iff reveal_ranges_Inr commit_ranges_Inr
      authed_of_def unsafe_of_def split: direction.splits)

lemma from_observed_Inr:
  "from_observed keccak256 session = Inr d \<longleftrightarrow>
   len_sent (obs_transcript session) < 2 ^ 32 \<and> len_received (obs_transcript session) < 2 ^ 32 \<and>
   block_from_observed session Sent = Inr (sent_block d) \<and>
   block_from_observed session Received = Inr (received_block d) \<and>
   authority_id d = authority_id_of keccak256 (obs_authority session) \<and>
   created_at d = obs_created_at session \<and>
   sent_transcript_length d = of_nat (len_sent (obs_transcript session)) \<and>
   recv_transcript_length d = of_nat (len_received (obs_transcript session))"
  by (cases d) (auto simp: from_observed_def and_then_Inr_iff)

lemmas [eval] = u32_of_def commitment_of_def block_from_observed_def from_observed_def

section \<open>The record as a function of the session\<close>

definition direction_describable :: "observed_session \<Rightarrow> direction \<Rightarrow> bool" where
  "direction_describable session dir \<longleftrightarrow>
     (let t = obs_transcript session in
      list_all fits (authed_of dir t) \<and> list_all (in_slice (unsafe_of dir t)) (authed_of dir t) \<and>
      list_all describable (hashes_of dir (obs_commitments session)))"

definition session_describable :: "observed_session \<Rightarrow> bool" where
  "session_describable session \<longleftrightarrow>
     len_sent (obs_transcript session) < 2 ^ 32 \<and> len_received (obs_transcript session) < 2 ^ 32 \<and>
     direction_describable session Sent \<and> direction_describable session Received"

definition block_of :: "observed_session \<Rightarrow> direction \<Rightarrow> direction_block" where
  "block_of session dir =
     \<lparr>blk_revealed = map (revealed_of (unsafe_of dir (obs_transcript session))) (authed_of dir (obs_transcript session)),
      blk_commitments = sort_key com_start (map described (hashes_of dir (obs_commitments session)))\<rparr>"

definition record_of :: "(bytes \<Rightarrow> bytes) \<Rightarrow> observed_session \<Rightarrow> attested_data" where
  "record_of keccak256 session =
     \<lparr>authority_id = authority_id_of keccak256 (obs_authority session), created_at = obs_created_at session,
      sent_transcript_length = of_nat (len_sent (obs_transcript session)),
      recv_transcript_length = of_nat (len_received (obs_transcript session)),
      sent_block = block_of session Sent, received_block = block_of session Received\<rparr>"

lemma block_from_observed_eq:
  "block_from_observed session dir = Inr b \<longleftrightarrow> direction_describable session dir \<and> b = block_of session dir"
  by (auto simp: block_from_observed_Inr direction_describable_def block_of_def Let_def)

lemma from_observed_eq:
  "from_observed keccak256 session = Inr d \<longleftrightarrow> session_describable session \<and> d = record_of keccak256 session"
  by (cases d) (auto simp: from_observed_Inr block_from_observed_eq session_describable_def record_of_def)

lemma mset_hashes_of:
  "mset (hashes_of dir cs) =
   image_mset (\<lambda>c. case c of HashCommitment h \<Rightarrow> h | UnknownCommitment \<Rightarrow> undefined)
     (filter_mset (\<lambda>c. case c of HashCommitment h \<Rightarrow> ph_direction h = dir | UnknownCommitment \<Rightarrow> False) (mset cs))"
proof (induction cs)
  case (Cons c cs)
  then show ?case by (cases c) simp_all
qed simp

lemma length_hashes_of: "length (hashes_of dir cs) \<le> length cs"
proof (induction cs)
  case (Cons c cs)
  then show ?case by (cases c) simp_all
qed simp

lemma hashes_of_perm: "mset cs = mset cs' \<Longrightarrow> mset (hashes_of dir cs) = mset (hashes_of dir cs')"
  by (simp add: mset_hashes_of)

lemma block_of_perm:
  assumes "mset cs = mset (obs_commitments session)"
    and "distinct (map (com_start \<circ> described) (hashes_of dir (obs_commitments session)))"
  shows "block_of (session\<lparr>obs_commitments := cs\<rparr>) dir = block_of session dir"
proof -
  let ?old = "map described (hashes_of dir (obs_commitments session))" and ?new = "map described (hashes_of dir cs)"
  have m: "mset ?new = mset ?old" using hashes_of_perm [OF assms(1)] by (metis mset_map)
  have "distinct (map com_start ?old)" using assms(2) by simp
  then have inj: "inj_on com_start (set ?new)"
    using m by (metis distinct_map set_mset_mset)
  have "sort_key com_start ?new = sort_key com_start ?old"
    using inj m by (intro sort_key_inj_key_eq) simp_all
  then show ?thesis by (simp add: block_of_def)
qed

text \<open>Which part of a session an error is about.\<close>

definition blames :: "observed_session \<Rightarrow> attest_stop \<Rightarrow> bool" where
  "blames session e \<longleftrightarrow>
     (let t = obs_transcript session; authed = authed_of Sent t @ authed_of Received t;
          hashes = hashes_of Sent (obs_commitments session) @ hashes_of Received (obs_commitments session) in
      (case e of
         Refused (WrongCommitmentAlgorithm a) \<Rightarrow> a \<noteq> SHA256 \<and> a \<in> ph_alg ` set hashes
       | Refused (DisjointCommitment n) \<Rightarrow> n \<noteq> 1 \<and> n \<in> (length \<circ> ph_idx) ` set hashes
       | Refused (BadCommitmentLength n) \<Rightarrow> n \<noteq> 32 \<and> n \<in> (length \<circ> ph_value) ` set hashes
       | Refused (OffsetTooLarge v) \<Rightarrow> 2 ^ 32 \<le> v \<and>
           v \<in> {len_sent t, len_received t} \<union>
               (\<Union>r \<in> set authed \<union> (hd \<circ> ph_idx) ` set hashes. {sp_start r, sp_end r})
       | IndexPanic \<Rightarrow> (\<exists>r dir. r \<in> set (authed_of dir t) \<and> \<not> in_slice (unsafe_of dir t) r)))"

lemma block_from_observed_blames: "block_from_observed session dir = Inl e \<Longrightarrow> blames session e"
proof -
  let ?t = "obs_transcript session"
  assume "block_from_observed session dir = Inl e"
  then consider "reveal_ranges (unsafe_of dir ?t) (authed_of dir ?t) [] = Inl e"
    | "commit_ranges dir (obs_commitments session) [] = Inl e"
    by (auto simp: block_from_observed_def Let_def and_then_Inl_iff authed_of_def unsafe_of_def split: direction.splits)
  then show ?thesis
  proof cases
    case 1
    from reveal_ranges_Inl [OF this] obtain r where r: "r \<in> set (authed_of dir ?t)"
      "(e = IndexPanic \<and> \<not> in_slice (unsafe_of dir ?t) r) \<or>
       (\<exists>v. e = Refused (OffsetTooLarge v) \<and> 2 ^ 32 \<le> v \<and> v \<in> {sp_start r, sp_end r})" by blast
    then have "r \<in> set (authed_of Sent ?t @ authed_of Received ?t)" by (cases dir) auto
    with r show ?thesis by (auto simp: blames_def Let_def intro!: exI [of _ r] exI [of _ dir])
  next
    case 2
    from commit_ranges_Inl [OF this] obtain h where h: "h \<in> set (hashes_of dir (obs_commitments session))"
      and e: "commitment_of h = Inl e" by (metis in_set_conv_decomp)
    have "h \<in> set (hashes_of Sent (obs_commitments session) @ hashes_of Received (obs_commitments session))"
      using h by (cases dir) auto
    with commitment_of_Inl [OF e] show ?thesis
      by (auto simp: blames_def Let_def split: attest_stop.splits attest_error.splits)
  qed
qed

section \<open>Samples\<close>

definition sample_hash :: "direction \<Rightarrow> nat \<Rightarrow> nat \<Rightarrow> plaintext_hash" where
  "sample_hash dir a b = \<lparr>ph_direction = dir, ph_idx = [rng a b], ph_alg = SHA256, ph_value = replicate 32 7\<rparr>"

definition sample_session :: observed_session where
  "sample_session = \<lparr>
     obs_transcript = \<lparr>len_sent = 10, len_received = 6, sent_authed = [rng 0 2, rng 4 6], received_authed = [rng 0 3],
                       sent_unsafe = replicate 10 1, received_unsafe = replicate 6 2\<rparr>,
     obs_authority = ascii ''api.x.com'',
     obs_commitments = [HashCommitment (sample_hash Sent 6 10), HashCommitment (sample_hash Received 3 6),
                        UnknownCommitment, HashCommitment (sample_hash Sent 2 4)],
     obs_created_at = 7\<rparr>"

lemma sample_describable: "session_describable sample_session"
  by (simp add: session_describable_def direction_describable_def sample_session_def sample_hash_def
      authed_of_def unsafe_of_def describable_def fits_def in_slice_def)

section \<open>Properties\<close>

text \<open>C15. A session has a record exactly when the format can describe it: lengths and offsets below
  2^32, revealed ranges inside the plaintext, and every hash commitment SHA-256, 32 bytes and
  over one range. The record is then the revealed ranges with their bytes and the
  commitments of each direction in ascending order of start; commitments of an unknown kind
  are left out, and nothing else is judged.\<close>
theorem from_observed_exact:
  "from_observed keccak256 session = Inr d \<longleftrightarrow> session_describable session \<and> d = record_of keccak256 session"
  by (rule from_observed_eq)

text \<open>Every refusal is about the session it refuses: the error carries the algorithm, the number
  of ranges, the hash length or the offset of a value of that session that violates the
  format, and a panic needs a revealed range outside the plaintext.\<close>
theorem from_observed_blames:
  assumes "from_observed keccak256 session = Inl e"
  shows "blames session e \<and> (\<not> session_describable session)"
proof -
  have "\<not> session_describable session" using from_observed_eq [of keccak256 session] assms by auto
  moreover have "blames session e"
    using assms by (auto simp: from_observed_def and_then_Inl_iff dest: block_from_observed_blames)
      (auto simp: blames_def Let_def)
  ultimately show ?thesis by blast
qed

theorem from_observed_blames_witness:
  "blames (sample_session\<lparr>obs_commitments := [HashCommitment (sample_hash Sent 2 4\<lparr>ph_alg := OtherAlg 2\<rparr>)]\<rparr>)
     (Refused (WrongCommitmentAlgorithm (OtherAlg 2)))"
proof -
  have "from_observed rev (sample_session\<lparr>obs_commitments := [HashCommitment (sample_hash Sent 2 4\<lparr>ph_alg := OtherAlg 2\<rparr>)]\<rparr>)
      = Inl (Refused (WrongCommitmentAlgorithm (OtherAlg 2)))"
    by (simp add: sample_session_def sample_hash_def eval)
  from from_observed_blames [OF this] show ?thesis by blast
qed

text \<open>The order in which the prover made its commitments does not reach the record: where the
  starts within a direction differ, every permutation of the commitments gives the same
  record.\<close>
theorem commitment_order_irrelevant:
  assumes "from_observed keccak256 session = Inr d" and "mset cs = mset (obs_commitments session)"
    and "\<And>dir. distinct (map (com_start \<circ> described) (hashes_of dir (obs_commitments session)))"
  shows "from_observed keccak256 (session\<lparr>obs_commitments := cs\<rparr>) = Inr d"
proof -
  have "list_all describable (hashes_of dir cs) = list_all describable (hashes_of dir (obs_commitments session))" for dir
    unfolding list_all_iff using hashes_of_perm [OF assms(2), of dir] by (metis set_mset_mset)
  then have "session_describable (session\<lparr>obs_commitments := cs\<rparr>) = session_describable session"
    by (simp add: session_describable_def direction_describable_def Let_def)
  moreover have "record_of keccak256 (session\<lparr>obs_commitments := cs\<rparr>) = record_of keccak256 session"
    using block_of_perm [OF assms(2,3)] by (simp add: record_of_def)
  ultimately show ?thesis using assms(1) by (simp add: from_observed_eq)
qed

theorem commitment_order_irrelevant_witness:
  "from_observed rev (sample_session\<lparr>obs_commitments := rev (obs_commitments sample_session)\<rparr>) =
     Inr (record_of rev sample_session)"
proof -
  have "distinct (map (com_start \<circ> described) (hashes_of dir (obs_commitments sample_session)))" for dir
    by (cases dir) (simp_all add: sample_session_def sample_hash_def described_def)
  moreover have "from_observed rev sample_session = Inr (record_of rev sample_session)"
    using sample_describable by (simp add: from_observed_eq)
  ultimately show ?thesis
    using commitment_order_irrelevant [of rev sample_session "record_of rev sample_session" "rev (obs_commitments sample_session)"]
    by simp
qed

end
