(* ===== verification/Coverage.thy ===== *)
theory Coverage
  imports Observed
begin

text \<open>
  Between the prover's \<open>Layout\<close> (\<open>libid-transcript\<close>) and the notary's \<open>DirectionBlock\<close>
  (\<open>libid-tlsn/src/attest.rs\<close>): what it means that a session was observed under a layout, and
  that the block of such a session tiles the transcript. Lemmas: spans that cover every
  position exactly once tile, and a set of ranges covers each of its positions once.
\<close>

section \<open>Exactly once is tiling\<close>

lemma filter_one_Cons:
  "length (filter P (x # xs)) = 1 \<Longrightarrow> P x \<Longrightarrow> y \<in> set xs \<Longrightarrow> \<not> P y"
  by (auto simp: filter_empty_conv)

lemma once_tiles_from:
  assumes "at \<le> len" and "sorted (map sp_start ss)"
    and "\<forall>s \<in> set ss. at \<le> sp_start s \<and> span_ok len s"
    and "\<And>i. at \<le> i \<Longrightarrow> i < len \<Longrightarrow> length (filter (covers i) ss) = 1"
  shows "tiles_from at ss len"
  using assms
proof (induction ss arbitrary: at)
  case Nil
  then show ?case by (cases "at < len") fastforce+
next
  case (Cons s ss)
  from Cons.prems(3) have s: "at \<le> sp_start s" "sp_start s < sp_end s" "sp_end s \<le> len" by (auto simp: span_ok_def)
  then have "length (filter (covers at) (s # ss)) = 1" by (intro Cons.prems(4)) auto
  then have "filter (covers at) (s # ss) \<noteq> []" by (metis list.size(3) zero_neq_one)
  then obtain x where x: "x \<in> set (s # ss)" "covers at x"
    unfolding filter_empty_conv by blast
  have "sp_start s \<le> sp_start x" using x(1) Cons.prems(2) by auto
  with x s have start: "sp_start s = at" by (simp add: covers_def)
  have later: "sp_end s \<le> sp_start y" if "y \<in> set ss" for y
  proof (rule ccontr)
    assume "\<not> sp_end s \<le> sp_start y"
    moreover have "at \<le> sp_start y" "sp_start y < sp_end y" "sp_end y \<le> len"
      using Cons.prems(3) that by (auto simp: span_ok_def)
    moreover from this have "length (filter (covers (sp_start y)) (s # ss)) = 1" by (intro Cons.prems(4)) auto
    ultimately show False using filter_one_Cons [of "covers (sp_start y)" s ss y] start that
      by (simp add: covers_def del: filter.simps)
  qed
  have "tiles_from (sp_end s) ss len"
  proof (rule Cons.IH)
    fix i assume i: "sp_end s \<le> i" "i < len"
    then have "length (filter (covers i) (s # ss)) = 1" using s by (intro Cons.prems(4)) auto
    moreover have "\<not> covers i s" using i by (simp add: covers_def)
    ultimately show "length (filter (covers i) ss) = 1" by simp
  qed (use Cons.prems later s in \<open>auto\<close>)
  with start s show ?case by simp
qed

lemma once_tiles:
  assumes "\<forall>s \<in> set ss. span_ok len s" and "\<And>i. i < len \<Longrightarrow> length (filter (covers i) ss) = 1"
  shows "tiles_from 0 (sort_key sp_start ss) len"
  by (rule once_tiles_from) (use assms in \<open>auto simp: filter_sort\<close>)

section \<open>Sets of ranges\<close>

text \<open>What \<open>RangeSet\<close> iterates: non-empty ranges in ascending order that do not touch.\<close>

fun range_set :: "span list \<Rightarrow> bool" where
  "range_set [] \<longleftrightarrow> True"
| "range_set [a] \<longleftrightarrow> sp_start a < sp_end a"
| "range_set (a # b # rs) \<longleftrightarrow> sp_start a < sp_end a \<and> sp_end a < sp_start b \<and> range_set (b # rs)"

definition covered :: "nat \<Rightarrow> span list \<Rightarrow> bool" where
  "covered i rs \<longleftrightarrow> list_ex (covers i) rs"

lemma range_set_after: "range_set (a # rs) \<Longrightarrow> b \<in> set rs \<Longrightarrow> sp_end a < sp_start b"
proof (induction rs arbitrary: a)
  case (Cons c rs)
  show ?case
  proof (cases "b = c")
    case True
    with Cons.prems(1) show ?thesis by simp
  next
    case False
    with Cons have "sp_end c < sp_start b" "sp_end a < sp_start c" "sp_start c < sp_end c"
      by (auto elim: range_set.elims)
    then show ?thesis by simp
  qed
qed simp

lemma range_set_tail: "range_set (a # rs) \<Longrightarrow> range_set rs \<and> sp_start a < sp_end a"
  by (cases rs) auto

lemma range_set_once: "range_set rs \<Longrightarrow> length (filter (covers i) rs) = (if covered i rs then 1 else 0)"
proof (induction rs)
  case (Cons a rs)
  then have ih: "length (filter (covers i) rs) = (if covered i rs then 1 else 0)" using range_set_tail by blast
  show ?case
  proof (cases "covers i a")
    case True
    then have "\<forall>b \<in> set rs. \<not> covers i b"
      using range_set_after [OF Cons.prems] by (fastforce simp: covers_def)
    then have "filter (covers i) rs = []" by (simp add: filter_empty_conv)
    with True show ?thesis by (simp add: covered_def)
  next
    case False
    with ih show ?thesis by (simp add: covered_def)
  qed
qed (simp add: covered_def)

lemma range_set_nonempty: "range_set rs \<Longrightarrow> r \<in> set rs \<Longrightarrow> sp_start r < sp_end r"
  by (induction rs) (auto dest: range_set_tail)

lemma covered_count: "covered i rs \<longleftrightarrow> filter (covers i) rs \<noteq> []"
  by (auto simp: covered_def list_ex_iff filter_empty_conv)

text \<open>A set of ranges is the only one that covers its positions.\<close>

lemma covered_Cons: "covered i (a # rs) \<longleftrightarrow> covers i a \<or> covered i rs"
  by (simp add: covered_def)

lemma range_set_later: "range_set (a # rs) \<Longrightarrow> covered i rs \<Longrightarrow> sp_end a < i"
  using range_set_after [of a rs] by (force simp: covered_def list_ex_iff covers_def)

lemma range_set_first: "range_set (a # rs) \<Longrightarrow> covered i (a # rs) \<Longrightarrow> sp_start a \<le> i"
  using range_set_later [of a rs i] range_set_tail [of a rs] by (auto simp: covered_Cons covers_def)

lemma range_set_gap: "range_set (a # rs) \<Longrightarrow> \<not> covered (sp_end a) (a # rs)"
  using range_set_later [of a rs "sp_end a"] by (auto simp: covered_Cons covers_def)

lemma range_set_rest:
  "range_set (a # rs) \<Longrightarrow> covered i rs \<longleftrightarrow> covered i (a # rs) \<and> sp_end a < i"
  using range_set_later [of a rs i] by (auto simp: covered_Cons covers_def)

lemma range_set_unique:
  "range_set rs \<Longrightarrow> range_set ss \<Longrightarrow> (\<And>i. covered i rs = covered i ss) \<Longrightarrow> rs = ss"
proof (induction rs arbitrary: ss)
  case Nil
  show ?case
  proof (cases ss)
    case (Cons b bs)
    then have "covered (sp_start b) ss"
      using range_set_tail [of b bs] Nil.prems(2) by (simp add: covered_Cons covers_def)
    then show ?thesis using Nil.prems(3) [of "sp_start b"] by (simp add: covered_def)
  qed simp
next
  case (Cons a rs)
  have first: "covered (sp_start a) (a # rs)" using range_set_tail [OF Cons.prems(1)] by (simp add: covered_Cons covers_def)
  then have "covered (sp_start a) ss" using Cons.prems(3) [of "sp_start a"] by simp
  then obtain b bs where ss: "ss = b # bs" by (cases ss) (auto simp: covered_def)
  have ra: "range_set (a # rs)" "sp_start a < sp_end a" using Cons.prems(1) range_set_tail [of a rs] by simp_all
  have rb: "range_set (b # bs)" "sp_start b < sp_end b" using Cons.prems(2) ss range_set_tail [of b bs] by simp_all
  have same: "covered i (a # rs) = covered i (b # bs)" for i using Cons.prems(3) [of i] ss by simp
  have "covered (sp_start b) (b # bs)" using rb by (simp add: covered_Cons covers_def)
  then have "sp_start a \<le> sp_start b" using range_set_first [OF ra(1)] same by blast
  moreover have "sp_start b \<le> sp_start a" using range_set_first [OF rb(1)] same first by blast
  ultimately have start: "sp_start a = sp_start b" by simp
  have inside: "covered i (c # cs)" if "sp_start c \<le> i" "i < sp_end c" for i c cs
    using that by (simp add: covered_Cons covers_def)
  have "\<not> sp_end a < sp_end b"
    using inside [of b "sp_end a" bs] range_set_gap [OF ra(1)] same [of "sp_end a"] start ra(2) by auto
  moreover have "\<not> sp_end b < sp_end a"
    using inside [of a "sp_end b" rs] range_set_gap [OF rb(1)] same [of "sp_end b"] start rb(2) by auto
  ultimately have eq: "a = b" using start by (cases a; cases b) simp
  have "rs = bs"
  proof (rule Cons.IH)
    show "range_set rs" "range_set bs" using ra(1) rb(1) range_set_tail by blast+
    show "covered i rs = covered i bs" for i
      using range_set_rest [OF ra(1), of i] range_set_rest [OF rb(1), of i] same [of i] eq by simp
  qed
  with eq ss show ?case by simp
qed

section \<open>A session observed under a layout\<close>

text \<open>
  What \<open>tlsn\<close> shows the notary of a direction whose prover revealed and committed by \<open>l\<close>: the
  authenticated ranges are the set of the revealed positions (ranges that touch are one),
  the plaintext is the transcript there, and there is one commitment for every committed
  range, in any order.
\<close>

definition observes :: "direction \<Rightarrow> layout \<Rightarrow> bytes \<Rightarrow> observed_session \<Rightarrow> bool" where
  "observes dir l data session \<longleftrightarrow>
     (let authed = authed_of dir (obs_transcript session); plain = unsafe_of dir (obs_transcript session) in
      range_set authed \<and> list_all (in_slice data) authed \<and>
      list_all (\<lambda>i. covered i authed = covered i (reveal l)) [0..<length data] \<and>
      length plain = length data \<and>
      list_all (\<lambda>i. covered i authed \<longrightarrow> plain ! i = data ! i) [0..<length data] \<and>
      mset (map ph_idx (hashes_of dir (obs_commitments session))) = mset (map (\<lambda>r. [r]) (commit l)))"

definition sha256_hashes :: "direction \<Rightarrow> observed_session \<Rightarrow> bool" where
  "sha256_hashes dir session \<longleftrightarrow>
     list_all (\<lambda>h. ph_alg h = SHA256 \<and> length (ph_value h) = 32) (hashes_of dir (obs_commitments session))"

definition rev_span :: "revealed_range \<Rightarrow> span" where
  "rev_span r = rng (unat (rev_start r)) (unat (rev_start r) + length (rev_bytes r))"

definition com_span :: "range_commitment \<Rightarrow> span" where
  "com_span c = rng (unat (com_start c)) (unat (com_end c))"

definition block_spans :: "direction_block \<Rightarrow> span list" where
  "block_spans b = sort_key sp_start (map rev_span (blk_revealed b) @ map com_span (blk_commitments b))"

lemma rev_span_revealed_of:
  "fits r \<Longrightarrow> in_slice data r \<Longrightarrow> rev_span (revealed_of data r) = r"
  by (cases r) (simp add: rev_span_def revealed_of_def length_slice span_len_def in_slice_def fits_def
      take_bit_nat_eq_self unsigned_of_nat)

lemma com_span_described: "describable h \<Longrightarrow> com_span (described h) = hd (ph_idx h)"
  by (cases "hd (ph_idx h)")
     (simp add: com_span_def described_def describable_def fits_def take_bit_nat_eq_self unsigned_of_nat)

lemma slice_agrees:
  assumes "length xs = length ys" and "in_slice ys r" and "\<And>i. i < length ys \<Longrightarrow> covers i r \<Longrightarrow> xs ! i = ys ! i"
  shows "slice xs r = slice ys r"
  using assms by (intro nth_equalityI) (auto simp: slice_def in_slice_def covers_def)

section \<open>The partial transcript\<close>

text \<open>
  What \<open>Transcript::to_partial\<close> documents of one direction: the authenticated ranges are the
  set of the revealed positions, the plaintext is the transcript there.
\<close>

definition partial_shows :: "bytes \<Rightarrow> span list \<Rightarrow> span list \<Rightarrow> bytes \<Rightarrow> bool" where
  "partial_shows data reveals authed plain \<longleftrightarrow>
     range_set authed \<and> list_all (in_slice data) authed \<and> length plain = length data \<and>
     list_all (\<lambda>i. covered i authed = covered i reveals \<and> (covered i authed \<longrightarrow> plain ! i = data ! i)) [0..<length data]"

text \<open>Such a plaintext: zero where nothing is revealed.\<close>

definition masked :: "bytes \<Rightarrow> span list \<Rightarrow> bytes" where
  "masked data rs = map (\<lambda>i. if covered i rs then data ! i else 0) [0..<length data]"

lemma length_masked [simp]: "length (masked data rs) = length data"
  by (simp add: masked_def)

lemma partial_shows_unique:
  assumes p: "partial_shows data rs authed plain" and rs: "range_set rs" "list_all (span_ok (length data)) rs"
  shows "authed = rs" and "\<forall>r \<in> set rs. in_slice plain r \<and> slice plain r = slice data r"
proof -
  have len: "length plain = length data" using p by (simp add: partial_shows_def)
  have "covered i authed = covered i rs" for i
  proof (cases "i < length data")
    case False
    then have "\<not> covered i authed" "\<not> covered i rs"
      using p rs(2) by (auto simp: partial_shows_def covered_def list_ex_iff list_all_iff covers_def in_slice_def span_ok_def)
    then show ?thesis by simp
  qed (use p in \<open>simp add: partial_shows_def list_all_iff\<close>)
  then show authed: "authed = rs" using p rs(1) by (intro range_set_unique) (simp_all add: partial_shows_def)
  show "\<forall>r \<in> set rs. in_slice plain r \<and> slice plain r = slice data r"
  proof
    fix r assume r: "r \<in> set rs"
    then have "in_slice data r" using rs(2) by (auto simp: list_all_iff span_ok_def in_slice_def)
    moreover have "plain ! i = data ! i" if "i < length data" "covers i r" for i
      using p that r by (auto simp: partial_shows_def list_all_iff authed covered_def list_ex_iff)
    ultimately show "in_slice plain r \<and> slice plain r = slice data r"
      using slice_agrees [OF len] len by (auto simp: in_slice_def)
  qed
qed

text \<open>The commitments of the session are those of the layout, and the record can hold them.\<close>

lemma observed_commitments:
  assumes "observes dir l data session" and "sha256_hashes dir session"
    and "tiles l (length data)" and "length data < 2 ^ 32"
  shows "list_all describable (hashes_of dir (obs_commitments session))"
    and "mset (map (hd \<circ> ph_idx) (hashes_of dir (obs_commitments session))) = mset (commit l)"
proof -
  let ?hs = "hashes_of dir (obs_commitments session)"
  have m: "mset (map ph_idx ?hs) = mset (map (\<lambda>r. [r]) (commit l))"
    using assms(1) by (simp add: observes_def Let_def)
  have "mset (map hd (map ph_idx ?hs)) = mset (map hd (map (\<lambda>r. [r]) (commit l)))"
    using m by (metis mset_map)
  then show "mset (map (hd \<circ> ph_idx) ?hs) = mset (commit l)" by (simp add: comp_def)
  have "describable h" if "h \<in> set ?hs" for h
  proof -
    have "ph_idx h \<in> set (map ph_idx ?hs)" using that by simp
    then have "ph_idx h \<in> set (map (\<lambda>r. [r]) (commit l))" using m by (metis set_mset_mset)
    then obtain r where r: "ph_idx h = [r]" "r \<in> set (commit l)" by auto
    have "span_ok (length data) r" using tiles_disjoint(1) [OF assms(3)] r(2) by simp
    then show ?thesis using assms(2,4) that r
      by (auto simp: describable_def fits_def span_ok_def sha256_hashes_def list_all_iff)
  qed
  then show "list_all describable ?hs" by (simp add: list_all_iff)
qed

lemma observed_reveals:
  assumes "observes dir l data session" and "length data < 2 ^ 32"
  shows "\<forall>r \<in> set (authed_of dir (obs_transcript session)). fits r \<and> span_ok (length data) r \<and>
      in_slice (unsafe_of dir (obs_transcript session)) r \<and>
      slice (unsafe_of dir (obs_transcript session)) r = slice data r"
proof
  let ?plain = "unsafe_of dir (obs_transcript session)" and ?authed = "authed_of dir (obs_transcript session)"
  fix r assume r: "r \<in> set ?authed"
  from assms(1) have o: "range_set ?authed" "list_all (in_slice data) ?authed" "length ?plain = length data"
      "list_all (\<lambda>i. covered i ?authed \<longrightarrow> ?plain ! i = data ! i) [0..<length data]"
    by (simp_all add: observes_def Let_def)
  have i: "in_slice data r" and "sp_start r < sp_end r"
    using r o(2) range_set_nonempty [OF o(1)] by (auto simp: list_all_iff)
  then have "fits r" "span_ok (length data) r" "in_slice ?plain r"
    using assms(2) o(3) by (auto simp: fits_def span_ok_def in_slice_def)
  moreover have "slice ?plain r = slice data r"
    using o(3,4) i r by (intro slice_agrees) (auto simp: list_all_iff covered_def list_ex_iff)
  ultimately show "fits r \<and> span_ok (length data) r \<and> in_slice ?plain r \<and> slice ?plain r = slice data r" by blast
qed

lemma observed_once:
  assumes "observes dir l data session" and "tiles l (length data)" and "i < length data"
  shows "length (filter (covers i) (authed_of dir (obs_transcript session) @ commit l)) = 1"
proof -
  let ?authed = "authed_of dir (obs_transcript session)"
  have "range_set ?authed" "covered i ?authed = covered i (reveal l)"
    using assms(1,3) by (simp_all add: observes_def Let_def list_all_iff)
  then have "length (filter (covers i) ?authed) = (if covered i (reveal l) then 1 else 0)"
    by (simp add: range_set_once)
  moreover have "length (filter (covers i) (reveal l)) + length (filter (covers i) (commit l)) = 1"
    using tiles_once [OF assms(2,3)] by simp
  ultimately show ?thesis
    by (cases "filter (covers i) (reveal l)") (auto simp: covered_count)
qed

lemma observed_block:
  assumes o: "observes dir l data session" and sha: "sha256_hashes dir session"
    and t: "tiles l (length data)" and len: "length data < 2 ^ 32"
  shows "block_from_observed session dir = Inr (block_of session dir)"
    and "map rev_span (blk_revealed (block_of session dir)) = authed_of dir (obs_transcript session)"
    and "mset (map com_span (blk_commitments (block_of session dir))) = mset (commit l)"
    and "tiles_from 0 (block_spans (block_of session dir)) (length data)"
proof -
  let ?authed = "authed_of dir (obs_transcript session)" and ?hs = "hashes_of dir (obs_commitments session)"
  note r = observed_reveals [OF o len] and c = observed_commitments [OF o sha t len]
  show "block_from_observed session dir = Inr (block_of session dir)"
    using r c(1) by (auto simp: block_from_observed_eq direction_describable_def list_all_iff)
  show rev: "map rev_span (blk_revealed (block_of session dir)) = ?authed"
    using r by (auto simp: block_of_def rev_span_revealed_of intro!: map_idI)
  have "map com_span (map described ?hs) = map (hd \<circ> ph_idx) ?hs"
    using c(1) by (simp add: list_all_iff com_span_described)
  moreover have "mset (map com_span (sort_key com_start (map described ?hs))) = mset (map com_span (map described ?hs))"
    by (metis mset_map mset_sort)
  ultimately have "mset (map com_span (sort_key com_start (map described ?hs))) = mset (commit l)"
    using c(2) by (simp only:)
  then show com: "mset (map com_span (blk_commitments (block_of session dir))) = mset (commit l)"
    by (simp add: block_of_def)
  let ?ss = "map rev_span (blk_revealed (block_of session dir)) @ map com_span (blk_commitments (block_of session dir))"
  have m: "mset ?ss = mset (?authed @ commit l)" using rev com by simp
  have "\<forall>s \<in> set (?authed @ commit l). span_ok (length data) s"
    using r tiles_disjoint(1) [OF t] by auto
  then have "\<forall>s \<in> set ?ss. span_ok (length data) s" using m by (metis set_mset_mset)
  moreover have "length (filter (covers i) ?ss) = 1" if "i < length data" for i
    using observed_once [OF o t that] m by (metis mset_filter size_mset)
  ultimately show "tiles_from 0 (block_spans (block_of session dir)) (length data)"
    unfolding block_spans_def by (rule once_tiles)
qed

section \<open>The record of a session, encoded\<close>

lemma wf_block_of:
  assumes "direction_describable session dir" and "slice_ok (unsafe_of dir (obs_transcript session))"
    and "slice_ok (authed_of dir (obs_transcript session))" and "slice_ok (obs_commitments session)"
  shows "wf_block (block_of session dir)"
proof -
  have "length (hashes_of dir (obs_commitments session)) \<le> length (obs_commitments session)"
    by (rule length_hashes_of)
  then show ?thesis using assms
    by (auto simp: wf_block_def block_of_def wf_revealed_def revealed_of_def wf_commitment_def described_def
        direction_describable_def Let_def list_all_iff describable_def slice_def)
qed

lemma record_decodes:
  assumes "from_observed keccak256 session = Inr d" and "big_endian_fixint cfg"
    and "\<And>bs. length (keccak256 bs) = 32"
    and "\<And>dir. slice_ok (unsafe_of dir (obs_transcript session)) \<and> slice_ok (authed_of dir (obs_transcript session))"
    and "slice_ok (obs_commitments session)"
  shows "encode_attested cfg d = Inr (lay_attested d)"
    and "dec_attested (lay_attested d @ rest) = Some (record_of keccak256 session, rest)"
    and "d = record_of keccak256 session"
proof -
  have d: "session_describable session" "d = record_of keccak256 session"
    using assms(1) by (simp_all add: from_observed_eq)
  have "wf_attested d"
    using d assms(3-5) by (auto simp: wf_attested_def record_of_def authority_id_of_def session_describable_def
        intro!: wf_block_of)
  then show "encode_attested cfg d = Inr (lay_attested d)"
    "dec_attested (lay_attested d @ rest) = Some (record_of keccak256 session, rest)" "d = record_of keccak256 session"
    using encode_attested_lay [OF assms(2)] attested.dec_enc d(2) by auto
qed

section \<open>The blocks of a record\<close>

definition block_in :: "direction \<Rightarrow> attested_data \<Rightarrow> direction_block" where
  "block_in dir d = (case dir of Sent \<Rightarrow> sent_block d | Received \<Rightarrow> received_block d)"

lemma block_in_record_of: "block_in dir (record_of keccak256 s) = block_of s dir"
  by (cases dir) (simp_all add: block_in_def record_of_def)

end
