(* ===== verification/One_Chunk.thy ===== *)
theory One_Chunk
  imports Ranges
begin

text \<open>
  The chunk boundaries of a response and the ranges found in it (\<open>JsonMember::in_response\<close>,
  \<open>compute_field_snippet_range\<close> and \<open>compute_id_snippet_range\<close> of
  \<open>libid-transcript/src/ranges.rs\<close>): what is found lies inside the data of one chunk.
\<close>

section \<open>A text that holds no CRLF lies within one chunk\<close>

text \<open>
  A text that starts with a quote, does not end with a carriage return and holds no CRLF:
  between two neighbours joined by CRLF it lies in the one or in the other.
\<close>

definition quoted_text :: "bytes \<Rightarrow> bool" where
  "quoted_text T \<longleftrightarrow> T \<noteq> [] \<and> hd T = quote \<and> last T \<noteq> 13 \<and> (\<nexists>i. occurs_at crlf T i)"

text \<open>Where the data of the chunk behind the chunks \<open>cs\<close> begins in a chunked body.\<close>

definition data_start :: "(nat \<Rightarrow> bytes) \<Rightarrow> bytes list \<Rightarrow> bytes \<Rightarrow> nat" where
  "data_start hdr cs c = length (concat (map (chunk_frame hdr) cs)) + length (hdr (length c))"

lemma occurs_member: "occurs_at T xs i \<Longrightarrow> c \<in> set T \<Longrightarrow> c \<in> set xs"
  by (metis occurs_at_cut in_set_conv_decomp append.assoc append_Cons)

lemma occurs_nth:
  assumes "occurs_at T xs i" and "j < length T"
  shows "xs ! (i + j) = T ! j"
proof -
  have "T ! j = take (length T) (drop i xs) ! j" using assms(1) by (simp add: occurs_at_def)
  then show ?thesis using assms by (simp add: occurs_at_def)
qed

lemma occurs_in_append:
  assumes T: "occurs_at T (xs @ crlf @ ys) i" and q: "quoted_text T"
  shows "occurs_at T xs i \<or> length xs + 2 \<le> i \<and> occurs_at T ys (i - (length xs + 2))"
proof (cases "i + length T \<le> length xs")
  case True
  then show ?thesis using T by (simp add: occurs_at_def)
next
  case False
  have "i \<noteq> length xs + k" if "k < 2" for k
    using occurs_nth [OF T, of 0] q less_2_cases [OF that]
    by (auto simp: quoted_text_def crlf_def nth_append hd_conv_nth)
  moreover have "\<not> i < length xs"
  proof
    assume i: "i < length xs"
    define k where "k = length xs - i"
    have k: "k < length T" "i + k = length xs" using False i by (auto simp: k_def)
    have cr: "T ! k = 13" using occurs_nth [OF T k(1)] k(2) by (simp add: nth_append crlf_def)
    show False
    proof (cases "Suc k = length T")
      case True
      then have "last T = T ! k" using k(1) by (metis diff_Suc_1 last_conv_nth length_0_conv not_less0)
      with cr q show False by (simp add: quoted_text_def)
    next
      case False
      with k have "Suc k < length T" by simp
      then have "T ! Suc k = 10" using occurs_nth [OF T, of "Suc k"] k(2) by (simp add: nth_append crlf_def)
      with cr \<open>Suc k < length T\<close> have "drop k T = 13 # 10 # drop (k + 2) T"
        by (metis Cons_nth_drop_Suc Suc_lessD add_2_eq_Suc')
      with \<open>Suc k < length T\<close> have "occurs_at crlf T k" by (simp add: occurs_at_def crlf_def)
      with q show False by (simp add: quoted_text_def)
    qed
  qed
  ultimately have "length xs + 2 \<le> i"
    by (metis One_nat_def add_0_right add_Suc_right less_2_cases_iff not_less_eq_eq not_less numeral_2_eq_2 order_le_less)
  then show ?thesis using occurs_at_drop [of T "xs @ crlf" ys i] T by simp
qed

lemma occurs_behind_header:
  assumes T: "occurs_at T (h @ c) i" and "quoted_text T" and "quote \<notin> set h"
  shows "length h \<le> i \<and> occurs_at T c (i - length h)"
proof -
  have "length h \<le> i"
    using occurs_nth [OF T, of 0] assms(2,3)
    by (metis add_0_right hd_conv_nth length_greater_0_conv not_less nth_append nth_mem quoted_text_def)
  then show ?thesis using occurs_at_drop [OF T] by blast
qed

lemma text_in_one_chunk:
  assumes q: "quoted_text T" and hdr: "\<forall>n. quote \<notin> set (hdr n)" and tr: "quote \<notin> set trailer"
  shows "occurs_at T (frame_chunks hdr cs @ trailer) i \<Longrightarrow>
    \<exists>xs c ys j. cs = xs @ c # ys \<and> i = data_start hdr xs c + j \<and> occurs_at T c j"
proof (induction cs arbitrary: i)
  case Nil
  then have "quote \<in> set (hdr 0 @ trailer)"
    using occurs_member [OF Nil] q by (simp add: quoted_text_def frame_chunks_def) (metis hd_in_set)
  with hdr tr show ?case by simp
next
  case (Cons c cs)
  let ?hc = "hdr (length c) @ c"
  from Cons.prems have "occurs_at T (?hc @ crlf @ (frame_chunks hdr cs @ trailer)) i"
    by (simp add: frame_chunks_def chunk_frame_def)
  from occurs_in_append [OF this q] show ?case
  proof
    assume "occurs_at T ?hc i"
    from occurs_behind_header [OF this q] hdr have "length (hdr (length c)) \<le> i \<and> occurs_at T c (i - length (hdr (length c)))"
      by blast
    then show ?thesis
      by (intro exI [of _ "[]"] exI [of _ c] exI [of _ cs] exI [of _ "i - length (hdr (length c))"]) (simp add: data_start_def)
  next
    assume a: "length ?hc + 2 \<le> i \<and> occurs_at T (frame_chunks hdr cs @ trailer) (i - (length ?hc + 2))"
    then obtain xs d ys j where d: "cs = xs @ d # ys" "i - (length ?hc + 2) = data_start hdr xs d + j" "occurs_at T d j"
      using Cons.IH by blast
    have "data_start hdr (c # xs) d = length ?hc + 2 + data_start hdr xs d"
      by (simp add: data_start_def chunk_frame_def)
    with a d(2) have "i = data_start hdr (c # xs) d + j" by linarith
    with d show ?thesis by (intro exI [of _ "c # xs"] exI [of _ d] exI [of _ ys] exI [of _ j]) simp
  qed
qed

section \<open>What is found lies within one chunk\<close>

lemma found_text:
  assumes "compute_id_snippet_range pcs recv field quoted = Some r"
    and body: "find_response_body_range recv = Some b"
  shows "sp_start b \<le> sp_start r \<and> occurs_at (slice recv r) (drop (sp_start b) recv) (sp_start r - sp_start b) \<and>
    length (slice recv r) = span_len r \<and> slice recv r \<noteq> [] \<and> hd (slice recv r) = quote \<and> last (slice recv r) \<noteq> 13"
proof -
  let ?raw = "drop (sp_start b) recv"
  have found: ?thesis if "in_slice ?raw s" "r = shift (sp_start b) s" "slice ?raw s = quote # T @ [c]" "c \<noteq> 13" for s T c
  proof -
    have "slice recv r = slice ?raw s" using that(2) body_start_within [OF body] by (simp add: slice_shift)
    moreover have "occurs_at (slice ?raw s) ?raw (sp_start s)"
      using that(1) by (auto simp: occurs_at_def in_slice_def slice_def)
    ultimately show ?thesis
      using that length_slice [OF that(1)] by (simp add: shift_def span_len_def)
  qed
  consider (member) "compute_field_snippet_range pcs recv field = Some r"
    | (bare) "compute_id_snippet_range pcs recv field False = Some r"
    using assms(1) by (cases quoted) (auto simp: compute_id_snippet_range_def)
  then show ?thesis
  proof cases
    case member
    then obtain m where m: "in_response pcs recv field = Some m" "r = member_rng m"
      by (auto simp: compute_field_snippet_range_def)
    from string_member.relocate_Some [OF in_response_relocates [OF m(1)]] obtain raw
      where raw: "in_body ?raw field = Some raw" "m = shift_member (sp_start b) raw"
      using body by (metis option.inject)
    obtain pre ws1 ws2 val post where fm: "first_member ?raw field pre ws1 ws2 val post"
        "raw = located (length pre) field ws1 ws2 val" using in_body_Some [OF raw(1)] .
    show ?thesis
      by (rule found [OF in_body_brackets(4) [OF raw(1)], of "field @ quote # ws1 @ [colon] @ ws2 @ [quote] @ val" quote])
         (use fm raw(2) m(2) in \<open>simp_all add: shift_member_def located_slices member_text_def quoted_key_def\<close>)
  next
    case bare
    from bare_number.relocate_Some [OF compute_id_relocates [OF bare]] obtain raw
      where raw: "find_json_bare_snippet_range ?raw field = Some raw" "r = shift (sp_start b) raw"
      using body by (metis option.inject)
    obtain pre ws1 ws2 ds ws3 c post where fb: "first_bare ?raw field pre ws1 ws2 ds ws3 c post"
        "raw = rng (length pre) (length pre + length (bare_text field ws1 ws2 ds ws3 c))" using bare_Some [OF raw(1)] .
    have "c \<noteq> 13" using fb(1) by (auto simp: first_bare_def)
    moreover have "in_slice ?raw raw" "slice ?raw raw = bare_text field ws1 ws2 ds ws3 c"
      unfolding fb(2) by (rule bare_slices [OF fb(1)])+
    ultimately show ?thesis
      by (intro found [OF _ raw(2), of "field @ quote # ws1 @ [colon] @ ws2 @ ds @ ws3" c])
         (simp_all add: bare_text_def quoted_key_def)
  qed
qed

text \<open>
  The scan of the decoded body that answers beside the one of the raw bytes: the member with its
  string value, or the bare number. The contiguity check is what makes the two texts equal.
\<close>

definition decoded_scan :: "bytes \<Rightarrow> bytes \<Rightarrow> bool \<Rightarrow> span option" where
  "decoded_scan body field quoted =
     (if quoted then map_option member_rng (in_body body field) else find_json_bare_snippet_range body field)"

lemma decoded_scan_in_slice: "decoded_scan body field quoted = Some d \<Longrightarrow> in_slice body d"
  by (cases quoted) (auto simp: decoded_scan_def bare_slices elim!: bare_Some dest: in_body_brackets(4))

lemma found_in_decoded:
  assumes "compute_id_snippet_range pcs recv field quoted = Some r"
  obtains body d where "(extract_response_body pcs recv :: unit error + bytes) = Inr body"
    and "decoded_scan body field quoted = Some d" and "slice recv r = slice body d"
proof (cases quoted)
  case True
  then obtain m where m: "in_response pcs recv field = Some m" "r = member_rng m"
    using assms by (auto simp: compute_id_snippet_range_def compute_field_snippet_range_def)
  from string_member.relocate_contiguous [OF in_response_relocates [OF m(1)]] obtain body d
    where d: "(extract_response_body pcs recv :: unit error + bytes) = Inr body" "in_body body field = Some d"
      "slice recv r = slice body (member_rng d)" unfolding m(2) by metis
  with that True show ?thesis by (simp add: decoded_scan_def)
next
  case False
  then have "compute_id_snippet_range pcs recv field False = Some r" using assms by simp
  from bare_number.relocate_contiguous [OF compute_id_relocates [OF this]] that False show ?thesis
    by (auto simp: decoded_scan_def)
qed

lemma found_lies_in_one_chunk_parts:
  assumes "compute_id_snippet_range pcs recv field quoted = Some r"
    and "find_response_body_range recv = Some b" and "drop (sp_start b) recv = frame_chunks hdr cs @ trailer"
    and "\<forall>n. quote \<notin> set (hdr n)" and "quote \<notin> set trailer"
  shows "\<exists>body d. (extract_response_body pcs recv :: unit error + bytes) = Inr body \<and>
    decoded_scan body field quoted = Some d \<and> slice recv r = slice body d \<and>
    ((\<exists>i. occurs_at crlf (slice body d) i) \<or>
     (\<exists>xs c ys j. cs = xs @ c # ys \<and> sp_start r = sp_start b + data_start hdr xs c + j \<and> j + span_len r \<le> length c \<and>
        occurs_at (slice body d) c j))"
proof -
  obtain body d where d: "(extract_response_body pcs recv :: unit error + bytes) = Inr body"
      "decoded_scan body field quoted = Some d" "slice recv r = slice body d"
    using found_in_decoded [OF assms(1)] .
  have "\<exists>xs c ys j. cs = xs @ c # ys \<and> sp_start r = sp_start b + data_start hdr xs c + j \<and> j + span_len r \<le> length c \<and>
        occurs_at (slice recv r) c j" if "\<nexists>i. occurs_at crlf (slice recv r) i"
  proof -
    note f = found_text [OF assms(1,2)]
    with that have "quoted_text (slice recv r)" by (simp add: quoted_text_def)
    from text_in_one_chunk [OF this assms(4,5)] f assms(3)
    obtain xs c ys j where c: "cs = xs @ c # ys" "sp_start r - sp_start b = data_start hdr xs c + j" "occurs_at (slice recv r) c j"
      by metis
    then have "sp_start r = sp_start b + data_start hdr xs c + j" "j + span_len r \<le> length c"
      using f by (auto simp: occurs_at_def)
    with c(1,3) show ?thesis by blast
  qed
  with d show ?thesis by (intro exI [of _ body] exI [of _ d]) auto
qed

lemma quote_in_no_hex_header: "\<forall>n. quote \<notin> set (hex_header n)"
proof
  fix n
  show "quote \<notin> set (hex_header n)"
    using hex_of_digits [of n]
    by (auto simp: hex_header_def crlf_def is_ascii_hexdigit_def is_ascii_digit_def)
qed

section \<open>A range across the framing\<close>

text \<open>
  The condition is needed. The body below is not JSON, but the scans do not ask: its chunks are
  \<open>"i\<close>, then \<open>d":\<close>, CRLF, \<open>5\<close>, CRLF, \<open>,"id":\<close>, and then five bytes that start with a comma. The decoded
  body names an id 5 in its first member; the raw body first has a whole \<open>"id":\<close> at the end
  of the second chunk, where the CRLF, the SIZE 5 of the third chunk, a CRLF and the comma
  follow. The two texts are equal, so the contiguity check passes, and the range runs
  across the framing.
\<close>

definition straddling_chunks :: "bytes list" where
  "straddling_chunks = [[quote, 0x69], [0x64, quote, colon, 13, 10, 0x35, 13, 10, comma, quote, 0x69, 0x64, quote, colon],
                        comma # ascii ''xxxx'']"

definition straddling_response :: bytes where
  "straddling_response = ascii ''200'' @ crlf @ ascii ''Transfer-Encoding: chunked'' @ crlf @ crlf @
     frame_chunks hex_header straddling_chunks @ crlf"

lemma straddling_range_is_found:
  "compute_id_snippet_range hex_chunk_size straddling_response (ascii ''id'') False = Some (rng 54 65)"
  "map length straddling_chunks = [2, 14, 5]"
  "drop 35 straddling_response = frame_chunks hex_header straddling_chunks @ crlf"
  "35 + data_start hex_header [straddling_chunks ! 0] (straddling_chunks ! 1) + 14 = 59"
  by (simp_all add: straddling_response_def straddling_chunks_def data_start_def eval)

section \<open>Properties\<close>



end
