(* ===== verification/Token_Exchange.thy ===== *)
theory Token_Exchange
  imports Prelude
begin

text \<open>
  \<open>libid-ceremony/src/token_exchange.rs\<close>: the records of the token service and the bounds each
  must satisfy. Strings are their UTF-8 bytes. Lemmas: what each validation accepts, and
  which error it returns, in the order of the checks.
\<close>

section \<open>Bounds, errors and records\<close>

definition max_code_bytes :: nat where "max_code_bytes = 1024"
definition code_verifier_len :: nat where "code_verifier_len = 43"
definition max_access_token_bytes :: nat where "max_access_token_bytes = 4096"
definition bearer_opening_len :: nat where "bearer_opening_len = 16"
definition max_attested_data_bytes :: nat where "max_attested_data_bytes = 2 * 1024 * 1024"
definition signature_len :: nat where "signature_len = 65"
definition max_response_bytes :: nat where "max_response_bytes = 3 * 1024 * 1024"

datatype token_exchange_error =
  EmptyCode
| CodeTooLong nat
| CodeNotPrintable nat
| MalformedCodeVerifier
| EmptyAccessToken
| AccessTokenTooLong nat
| AccessTokenNotPrintable nat
| EmptyAttestedData
| AttestedDataTooLong nat
| SignatureWrongLength nat
| BearerOpeningWrongLength nat

record token_request_record =
  code :: bytes
  code_verifier :: bytes

record token_attestation =
  attested_bytes :: bytes
  signature :: bytes

record token_response_record =
  access_token :: bytes
  attestation_of :: token_attestation
  bearer_opening :: bytes

section \<open>Validation\<close>

definition first_unprintable :: "bytes \<Rightarrow> nat option" where
  "first_unprintable s = position (\<lambda>b. \<not> (0x21 \<le> b \<and> b \<le> 0x7e)) s"

definition validate_request :: "token_request_record \<Rightarrow> token_exchange_error + unit" where
  "validate_request r =
     (if code r = [] then Inl EmptyCode
      else if length (code r) > max_code_bytes then Inl (CodeTooLong (length (code r)))
      else case first_unprintable (code r) of
        Some i \<Rightarrow> Inl (CodeNotPrintable i)
      | None \<Rightarrow>
          if length (code_verifier r) \<noteq> code_verifier_len \<or>
             \<not> list_all (\<lambda>b. is_ascii_alphanumeric b \<or> b = 0x5F \<or> b = 0x2D) (code_verifier r)
          then Inl MalformedCodeVerifier
          else Inr ())"

definition validate_response :: "token_response_record \<Rightarrow> token_exchange_error + unit" where
  "validate_response r =
     (if access_token r = [] then Inl EmptyAccessToken
      else if length (access_token r) > max_access_token_bytes
      then Inl (AccessTokenTooLong (length (access_token r)))
      else case first_unprintable (access_token r) of
        Some i \<Rightarrow> Inl (AccessTokenNotPrintable i)
      | None \<Rightarrow>
          let att = attestation_of r in
          if attested_bytes att = [] then Inl EmptyAttestedData
          else if length (attested_bytes att) > max_attested_data_bytes
          then Inl (AttestedDataTooLong (length (attested_bytes att)))
          else if length (signature att) \<noteq> signature_len then Inl (SignatureWrongLength (length (signature att)))
          else if length (bearer_opening r) \<noteq> bearer_opening_len
          then Inl (BearerOpeningWrongLength (length (bearer_opening r)))
          else Inr ())"

section \<open>What is accepted\<close>

text \<open>The bounds of the server contract: a bounded run of visible ASCII, and the PKCE verifier alphabet.\<close>

definition printable :: "byte \<Rightarrow> bool" where
  "printable b \<longleftrightarrow> 0x21 \<le> b \<and> b \<le> 0x7e"

definition credential_ok :: "nat \<Rightarrow> bytes \<Rightarrow> bool" where
  "credential_ok bound s \<longleftrightarrow> s \<noteq> [] \<and> length s \<le> bound \<and> list_all printable s"

definition pkce_verifier :: "bytes \<Rightarrow> bool" where
  "pkce_verifier s \<longleftrightarrow> length s = 43 \<and>
     list_all (\<lambda>b. is_ascii_alphanumeric b \<or> b \<in> set (ascii ''_-'')) s"

lemma unprintable_None: "first_unprintable s = None \<longleftrightarrow> list_all printable s"
  by (auto simp: first_unprintable_def position_None_iff printable_def list_all_iff)

lemma unprintable_Some:
  "first_unprintable s = Some i \<longleftrightarrow> i < length s \<and> \<not> printable (s ! i) \<and> list_all printable (take i s)"
  by (auto simp: first_unprintable_def position_Some_iff printable_def list_all_length)

lemma printable_no_crlf: "list_all printable s \<Longrightarrow> \<not> occurs_at crlf s i"
proof
  assume "list_all printable s" "occurs_at crlf s i"
  then have "(13 :: byte) \<in> set s" by (auto simp: occurs_at_split crlf_def)
  with \<open>list_all printable s\<close> have "printable 13" by (simp add: list_all_iff)
  then show False by (simp add: printable_def)
qed

lemmas [eval] = max_code_bytes_def code_verifier_len_def max_access_token_bytes_def bearer_opening_len_def
  max_attested_data_bytes_def signature_len_def first_unprintable_def validate_request_def validate_response_def

section \<open>Properties\<close>

text \<open>A token request is accepted exactly when its code is a non-empty run of at most 1024
  visible ASCII bytes and its verifier is 43 characters of the base64url alphabet; otherwise
  the error names the first bound that fails, with the offending length or index.\<close>
theorem validate_request_outcomes:
  "(case validate_request r of
      Inr _ \<Rightarrow> credential_ok 1024 (code r) \<and> pkce_verifier (code_verifier r)
    | Inl EmptyCode \<Rightarrow> code r = []
    | Inl (CodeTooLong n) \<Rightarrow> n = length (code r) \<and> 1024 < n
    | Inl (CodeNotPrintable i) \<Rightarrow> length (code r) \<le> 1024 \<and> i < length (code r) \<and>
        \<not> printable (code r ! i) \<and> list_all printable (take i (code r))
    | Inl MalformedCodeVerifier \<Rightarrow> credential_ok 1024 (code r) \<and> (\<not> pkce_verifier (code_verifier r))
    | Inl _ \<Rightarrow> False)"
proof -
  have alphabet: "b \<in> set (ascii ''_-'') \<longleftrightarrow> b = 0x5F \<or> b = 0x2D" for b
    by (simp add: ascii_def)
  show ?thesis
    by (auto simp: validate_request_def credential_ok_def pkce_verifier_def code_verifier_len_def max_code_bytes_def alphabet
        unprintable_None unprintable_Some split: option.splits)
qed

text \<open>C40. A token response is accepted exactly when its bearer is at most 4096 visible ASCII bytes
  and not empty, its attested data is not empty and at most 2 MiB, its signature has 65 bytes
  and its opening 16. Every refusal names the first bound that fails, in this order: every
  bound in front of it holds, it does not, and the error carries the offending length or, for
  the bearer, the index of its first byte that is not visible ASCII.\<close>
theorem validate_response_outcomes:
  "(case validate_response r of
      Inr _ \<Rightarrow> credential_ok 4096 (access_token r) \<and> attested_bytes (attestation_of r) \<noteq> [] \<and>
        length (attested_bytes (attestation_of r)) \<le> 2 * 1024 * 1024 \<and>
        length (signature (attestation_of r)) = 65 \<and> length (bearer_opening r) = 16
    | Inl EmptyAccessToken \<Rightarrow> access_token r = []
    | Inl (AccessTokenTooLong n) \<Rightarrow> n = length (access_token r) \<and> 4096 < n
    | Inl (AccessTokenNotPrintable i) \<Rightarrow> length (access_token r) \<le> 4096 \<and> i < length (access_token r) \<and>
        \<not> printable (access_token r ! i) \<and> list_all printable (take i (access_token r))
    | Inl EmptyAttestedData \<Rightarrow> credential_ok 4096 (access_token r) \<and> attested_bytes (attestation_of r) = []
    | Inl (AttestedDataTooLong n) \<Rightarrow> credential_ok 4096 (access_token r) \<and>
        n = length (attested_bytes (attestation_of r)) \<and> 2 * 1024 * 1024 < n
    | Inl (SignatureWrongLength n) \<Rightarrow> credential_ok 4096 (access_token r) \<and>
        attested_bytes (attestation_of r) \<noteq> [] \<and> length (attested_bytes (attestation_of r)) \<le> 2 * 1024 * 1024 \<and>
        n = length (signature (attestation_of r)) \<and> n \<noteq> 65
    | Inl (BearerOpeningWrongLength n) \<Rightarrow> credential_ok 4096 (access_token r) \<and>
        attested_bytes (attestation_of r) \<noteq> [] \<and> length (attested_bytes (attestation_of r)) \<le> 2 * 1024 * 1024 \<and>
        length (signature (attestation_of r)) = 65 \<and> n = length (bearer_opening r) \<and> n \<noteq> 16
    | Inl _ \<Rightarrow> False)"
  by (auto simp: validate_response_def credential_ok_def max_access_token_bytes_def max_attested_data_bytes_def
      signature_len_def bearer_opening_len_def unprintable_None unprintable_Some Let_def split: option.splits)

section \<open>Samples\<close>

text \<open>The published verifier of the module's tests.\<close>

lemma published_verifier_accepted:
  "validate_request \<lparr>code = ascii ''abc123'',
     code_verifier = ascii ''5teBDl6cz4U77aFweV5PbMhBJ_lEFv6LLNKzqnDI5lo''\<rparr> = Inr ()"
  by (simp add: eval)

end
