(* ===== verification/Record_Reads.thy ===== *)
theory Record_Reads
  imports Coverage One_Chunk Token_Exchange
begin

text \<open>
  What a reader of the signed record learns of a session (\<open>libid-tlsn/src/attest.rs\<close> on the layouts
  of \<open>libid-transcript/src/ceremony.rs\<close>). Read in order, the ranges of a block are the bytes the
  layout reveals, so the received block of the identity session states the account. And the
  record is a function of the revealed bytes and the values of the commitments: transcripts
  that agree where a layout reveals get records that agree but for those values.
\<close>

section \<open>Ranges in order, read off\<close>

lemma slice_upt: "in_slice xs r \<Longrightarrow> slice xs r = map ((!) xs) [sp_start r..<sp_end r]"
  by (auto simp: slice_def in_slice_def intro!: nth_equalityI)

text \<open>Ranges inside the transcript, each ending before the next starts.\<close>

definition in_order :: "nat \<Rightarrow> span list \<Rightarrow> bool" where
  "in_order len rs \<longleftrightarrow> sorted_wrt (\<lambda>a b. sp_end a \<le> sp_start b) rs \<and> (\<forall>r \<in> set rs. span_ok len r)"

lemma positions_strict:
  "in_order len rs \<Longrightarrow> sorted_wrt (<) (concat (map (\<lambda>r. [sp_start r..<sp_end r]) rs))"
proof (induction rs)
  case (Cons a rs)
  then have "sorted_wrt (<) (concat (map (\<lambda>r. [sp_start r..<sp_end r]) rs))" "\<forall>r \<in> set rs. sp_end a \<le> sp_start r"
    by (simp_all add: in_order_def)
  then show ?case by (force simp: sorted_wrt_append)
qed simp

lemma read_off:
  assumes "in_order (length xs) rs"
  shows "concat (map (slice xs) rs) = map ((!) xs) (filter (\<lambda>i. covered i rs) [0..<length xs])"
proof -
  have ok: "\<forall>r \<in> set rs. span_ok (length xs) r" using assms by (simp add: in_order_def)
  then have "map (slice xs) rs = map (\<lambda>r. map ((!) xs) [sp_start r..<sp_end r]) rs"
    by (auto simp: span_ok_def in_slice_def slice_upt)
  then have "concat (map (slice xs) rs) = map ((!) xs) (concat (map (\<lambda>r. [sp_start r..<sp_end r]) rs))"
    by (simp only: map_concat map_map comp_def)
  moreover have "set (concat (map (\<lambda>r. [sp_start r..<sp_end r]) rs)) = set (filter (\<lambda>i. covered i rs) [0..<length xs])"
    using ok by (fastforce simp: covered_def list_ex_iff covers_def span_ok_def)
  then have "concat (map (\<lambda>r. [sp_start r..<sp_end r]) rs) = filter (\<lambda>i. covered i rs) [0..<length xs]"
    using positions_strict [OF assms] strict_sorted_equal sorted_wrt_filter sorted_wrt_upt by metis
  ultimately show ?thesis by simp
qed

lemma in_order_range_set:
  assumes "range_set rs" and "list_all (in_slice xs) rs"
  shows "in_order (length xs) rs"
proof -
  have "sorted_wrt (\<lambda>a b. sp_end a \<le> sp_start b) rs"
    using assms(1)
  proof (induction rs)
    case (Cons a rs)
    then show ?case using range_set_after [OF Cons.prems] range_set_tail [OF Cons.prems] by (auto intro: less_imp_le)
  qed simp
  then show ?thesis
    using assms(2) range_set_nonempty [OF assms(1)] by (auto simp: in_order_def list_all_iff in_slice_def span_ok_def)
qed

lemma covered_set: "set as = set bs \<Longrightarrow> covered i as = covered i bs"
  by (simp add: covered_def list_ex_iff)

lemma in_order_reveal:
  assumes "tiles l len"
  shows "in_order len (sort_key sp_start (reveal l))"
proof -
  note d = tiles_disjoint [OF assms]
  have "sorted_wrt disjoint_spans (sort_key sp_start (reveal l))"
    by (rule sorted_wrt_sym_mset [of disjoint_spans "reveal l"])
       (use d in \<open>auto simp: sorted_wrt_append disjoint_spans_def\<close>)
  then have "sorted_wrt (\<lambda>a b. sp_start a \<le> sp_start b \<and> disjoint_spans a b) (sort_key sp_start (reveal l))"
    using sorted_sort_key [of sp_start "reveal l"] by (auto simp: sorted_wrt_map sorted_wrt_iff_nth_less)
  moreover have "\<forall>r \<in> set (sort_key sp_start (reveal l)). span_ok len r" using d(1) by simp
  ultimately show ?thesis
    by (auto simp: in_order_def span_ok_def disjoint_spans_def elim!: sorted_wrt_mono_rel [rotated]) fastforce
qed

text \<open>The revealed bytes of a block, in order: what a reader without the offsets reads.\<close>

definition revealed_text :: "direction_block \<Rightarrow> bytes" where
  "revealed_text b = concat (map rev_bytes (blk_revealed b))"

lemma observed_text:
  assumes o: "observes dir l data session" and t: "tiles l (length data)" and len: "length data < 2 ^ 32"
  shows "revealed_text (block_of session dir) = concat (map (slice data) (sort_key sp_start (reveal l)))"
proof -
  let ?authed = "authed_of dir (obs_transcript session)"
  have "map rev_bytes (blk_revealed (block_of session dir)) = map (slice data) ?authed"
    using observed_reveals [OF o len] by (auto simp: block_of_def revealed_of_def)
  moreover have "in_order (length data) ?authed"
    using o by (intro in_order_range_set) (simp_all add: observes_def Let_def)
  then have "concat (map (slice data) ?authed) = map ((!) data) (filter (\<lambda>i. covered i ?authed) [0..<length data])"
    by (rule read_off)
  moreover have "filter (\<lambda>i. covered i ?authed) [0..<length data] = filter (\<lambda>i. covered i (sort_key sp_start (reveal l))) [0..<length data]"
    using o by (intro filter_cong) (auto simp: observes_def Let_def list_all_iff covered_set [of "sort_key sp_start (reveal l)" "reveal l"])
  ultimately show ?thesis by (simp add: revealed_text_def read_off [OF in_order_reveal [OF t]])
qed

section \<open>Two runs under one layout\<close>

lemma observed_authed:
  assumes "observes dir l data s" and "observes dir l data' s'" and "length data = length data'"
  shows "authed_of dir (obs_transcript s) = authed_of dir (obs_transcript s')"
proof (rule range_set_unique)
  let ?a = "authed_of dir (obs_transcript s)" and ?b = "authed_of dir (obs_transcript s')"
  have a: "list_all (in_slice data) ?a" "list_all (\<lambda>i. covered i ?a = covered i (reveal l)) [0..<length data]"
    and b: "list_all (in_slice data') ?b" "list_all (\<lambda>i. covered i ?b = covered i (reveal l)) [0..<length data]"
    using assms by (simp_all add: observes_def Let_def)
  show "covered i ?a = covered i ?b" for i
  proof (cases "i < length data")
    case True
    then show ?thesis using a(2) b(2) by (simp add: list_all_iff)
  next
    case False
    then show ?thesis using a(1) b(1) assms(3)
      by (force simp: covered_def list_ex_iff list_all_iff covers_def in_slice_def)
  qed
qed (use assms in \<open>simp_all add: observes_def Let_def\<close>)

lemma com_span_start: "sp_start (com_span c) = unat (com_start c)"
  by (simp add: com_span_def)

lemma observed_com_spans:
  assumes o: "observes dir l data s" and sha: "sha256_hashes dir s"
    and t: "tiles l (length data)" and len: "length data < 2 ^ 32"
  shows "map com_span (blk_commitments (block_of s dir)) = sort_key sp_start (commit l)"
proof -
  let ?cs = "map com_span (blk_commitments (block_of s dir))"
  have m: "mset ?cs = mset (commit l)" by (rule observed_block(3) [OF o sha t len])
  have "inj_on sp_start (set (spans_of l))" using t tiles_from_starts(2) by (auto simp: tiles_def)
  then have "inj_on sp_start (set (commit l))" by (rule inj_on_subset) (auto simp: spans_of_def)
  moreover have "sorted (map com_start (blk_commitments (block_of s dir)))" by (simp add: block_of_def)
  then have "sorted (map sp_start ?cs)"
    by (auto simp: sorted_wrt_map com_span_start comp_def word_le_nat_alt elim: sorted_wrt_mono_rel [rotated])
  ultimately show ?thesis using m by (intro sort_key_inj_key_eq [symmetric]) simp_all
qed


text \<open>Two transcripts a reader of the ranges cannot tell apart.\<close>

definition agree_on :: "span list \<Rightarrow> bytes \<Rightarrow> bytes \<Rightarrow> bool" where
  "agree_on rs xs ys \<longleftrightarrow> length xs = length ys \<and>
     list_all (\<lambda>i. covered i rs \<longrightarrow> xs ! i = ys ! i) [0..<length ys]"

text \<open>A block without the values of its commitments.\<close>

definition without_hashes :: "direction_block \<Rightarrow> direction_block" where
  "without_hashes b = b\<lparr>blk_commitments := map (\<lambda>c. c\<lparr>com_commitment := []\<rparr>) (blk_commitments b)\<rparr>"

lemma com_span_ends:
  "map com_span cs = map com_span cs' \<Longrightarrow>
   map (\<lambda>c. c\<lparr>com_commitment := []\<rparr>) cs = map (\<lambda>c. c\<lparr>com_commitment := []\<rparr>) cs'"
  by (induction cs cs' rule: list_induct2') (auto simp: com_span_def word_unat_eq_iff intro!: range_commitment.equality)

lemma hides_committed:
  assumes o: "observes dir l data s" and o': "observes dir l data' s'"
    and sha: "sha256_hashes dir s" "sha256_hashes dir s'"
    and t: "tiles l (length data)" and len: "length data < 2 ^ 32" and agree: "agree_on (reveal l) data data'"
  shows "without_hashes (block_of s dir) = without_hashes (block_of s' dir)"
proof -
  let ?a = "authed_of dir (obs_transcript s)"
  have same: "length data' = length data" using agree by (simp add: agree_on_def)
  then have t': "tiles l (length data')" and len': "length data' < 2 ^ 32" using t len by simp_all
  have a: "authed_of dir (obs_transcript s') = ?a" using observed_authed [OF o o'] same by simp
  have "slice data r = slice data' r" if "r \<in> set ?a" for r
  proof (rule slice_agrees)
    show "in_slice data' r" using o that same by (auto simp: observes_def Let_def list_all_iff in_slice_def)
    fix i assume i: "i < length data'" "covers i r"
    then have "covered i ?a" using that by (auto simp: covered_def list_ex_iff)
    then have "covered i (reveal l)" using o i same by (simp add: observes_def Let_def list_all_iff)
    then show "data ! i = data' ! i" using agree i by (simp add: agree_on_def list_all_iff)
  qed (simp add: same)
  then have r: "blk_revealed (block_of s dir) = blk_revealed (block_of s' dir)"
    using observed_reveals [OF o len] observed_reveals [OF o' len'] a by (simp add: block_of_def revealed_of_def)
  have "map com_span (blk_commitments (block_of s dir)) = map com_span (blk_commitments (block_of s' dir))"
    by (simp add: observed_com_spans [OF o sha(1) t len] observed_com_spans [OF o' sha(2) t' len'])
  from com_span_ends [OF this] r show ?thesis unfolding without_hashes_def
    by (cases "block_of s dir"; cases "block_of s' dir") (simp only: direction_block.simps)
qed

section \<open>A whole session\<close>

text \<open>A session whose two directions were observed under \<open>ls\<close>, with the lengths of the transcripts.\<close>

definition session_observes :: "(direction \<Rightarrow> layout) \<Rightarrow> (direction \<Rightarrow> bytes) \<Rightarrow> observed_session \<Rightarrow> bool" where
  "session_observes ls data s \<longleftrightarrow>
     observes Sent (ls Sent) (data Sent) s \<and> observes Received (ls Received) (data Received) s \<and>
     sha256_hashes Sent s \<and> sha256_hashes Received s \<and>
     len_sent (obs_transcript s) = length (data Sent) \<and> len_received (obs_transcript s) = length (data Received)"

definition layouts_fit :: "(direction \<Rightarrow> layout) \<Rightarrow> (direction \<Rightarrow> bytes) \<Rightarrow> bool" where
  "layouts_fit ls data \<longleftrightarrow>
     tiles (ls Sent) (length (data Sent)) \<and> length (data Sent) < 2 ^ 32 \<and>
     tiles (ls Received) (length (data Received)) \<and> length (data Received) < 2 ^ 32"

definition record_without_hashes :: "attested_data \<Rightarrow> attested_data" where
  "record_without_hashes d =
     d\<lparr>sent_block := without_hashes (sent_block d), received_block := without_hashes (received_block d)\<rparr>"

lemma session_record:
  assumes "session_observes ls data s" and "layouts_fit ls data"
  shows "from_observed keccak256 s = Inr (record_of keccak256 s)"
proof -
  from assms have o: "observes dir (ls dir) (data dir) s" "sha256_hashes dir s"
    and t: "tiles (ls dir) (length (data dir))" "length (data dir) < 2 ^ 32" for dir
    by (cases dir; simp add: session_observes_def layouts_fit_def)+
  have "direction_describable s dir" for dir
    using observed_block(1) [OF o t] by (simp add: block_from_observed_eq)
  then show ?thesis using assms
    by (simp add: from_observed_eq session_describable_def session_observes_def layouts_fit_def)
qed

lemma session_hides_committed:
  assumes s: "session_observes ls data s" and s': "session_observes ls data' s'"
    and fit: "layouts_fit ls data" and agree: "\<And>dir. agree_on (reveal (ls dir)) (data dir) (data' dir)"
    and told: "obs_authority s' = obs_authority s" "obs_created_at s' = obs_created_at s"
  shows "\<exists>d d'. from_observed keccak256 s = Inr d \<and> from_observed keccak256 s' = Inr d' \<and>
    record_without_hashes d = record_without_hashes d'"
proof -
  have same: "length (data' dir) = length (data dir)" for dir using agree by (simp add: agree_on_def)
  then have fit': "layouts_fit ls data'" using fit by (simp add: layouts_fit_def)
  from s s' fit have o: "observes dir (ls dir) (data dir) s" "observes dir (ls dir) (data' dir) s'"
      "sha256_hashes dir s" "sha256_hashes dir s'" "tiles (ls dir) (length (data dir))" "length (data dir) < 2 ^ 32" for dir
    by (cases dir; simp add: session_observes_def layouts_fit_def)+
  have "without_hashes (block_of s dir) = without_hashes (block_of s' dir)" for dir
    by (rule hides_committed [OF o agree])
  then have "record_without_hashes (record_of keccak256 s) = record_without_hashes (record_of keccak256 s')"
    using told s s' same by (simp add: record_without_hashes_def record_of_def session_observes_def)
  then show ?thesis using session_record [OF s fit] session_record [OF s' fit'] by blast
qed

section \<open>The bearer of a request\<close>

text \<open>The layout of a request whose bearer is \<open>n\<close> bytes behind the first \<open>a\<close>.\<close>

definition bearer_layout :: "nat \<Rightarrow> nat \<Rightarrow> nat \<Rightarrow> layout" where
  "bearer_layout a n len = \<lparr>reveal = [rng 0 a, rng (a + n) len], commit = [rng a (a + n)]\<rparr>"

lemma token_run:
  assumes tok: "t \<noteq> []" "list_all printable t"
    and sent: "sent = before @ bearer_prefix @ t @ crlf @ after"
    and first: "\<And>j. j < length before \<Longrightarrow> \<not> occurs_at bearer_prefix sent j"
  shows "identity_request sent = Inr (bearer_layout (length (before @ bearer_prefix)) (length t) (length sent))"
proof -
  let ?a = "length (before @ bearer_prefix)"
  let ?e = "?a + length t"
  have p: "occurs_at bearer_prefix sent (length before)"
    using occurs_at_shift [of bearer_prefix before _ 0] by (simp add: sent) (simp add: occurs_at_def)
  have cut: "sent = (before @ bearer_prefix @ t) @ crlf @ after" using sent by simp
  have e: "occurs_at crlf sent ?e"
    using occurs_at_shift [of crlf "before @ bearer_prefix @ t" "crlf @ after" 0]
    by (simp add: cut add.assoc) (simp add: occurs_at_def)
  have no: "\<not> occurs_at crlf sent j" if j: "?a \<le> j" "j < ?e" for j
  proof
    assume "occurs_at crlf sent j"
    then have "sent ! j = 13" using occurs_nth [of crlf sent j 0] by (simp add: crlf_def)
    moreover obtain k where k: "j = ?a + k" "k < length t" using j by (metis add_less_cancel_left le_Suc_ex)
    have "((before @ bearer_prefix) @ t @ crlf @ after) ! (?a + k) = t ! k"
      by (simp only: nth_append_length_plus) (simp add: nth_append k(2))
    then have "sent ! j = t ! k" using sent k(1) by simp
    moreover have "printable (t ! k)" using tok(2) k(2) by (simp add: list_all_length)
    ultimately show False by (simp add: printable_def)
  qed
  have "identity_request sent = Inr (revealing [rng 0 ?a, rng ?e (length sent)] (length sent))"
    unfolding identity_request_Inr using p e no first by (intro exI [of _ "length before"] exI [of _ ?e]) simp
  then show ?thesis using tok(1) by (simp add: bearer_layout_def revealing_two complement_two length_bearer_prefix)
qed

lemma bearer_covered:
  "covered i (reveal (bearer_layout a n len)) \<longleftrightarrow> i < a \<or> (a + n \<le> i \<and> i < len)"
  by (auto simp: bearer_layout_def covered_def covers_def)

lemma bearer_tiles: "0 < a \<Longrightarrow> 0 < n \<Longrightarrow> a + n < len \<Longrightarrow> tiles (bearer_layout a n len) len"
  by (simp add: tiles_def spans_of_def bearer_layout_def)

section \<open>The account in the record\<close>

text \<open>A text that is the first member of the field in the body, as a string or as a number.\<close>

definition states_member :: "bytes \<Rightarrow> bytes \<Rightarrow> bytes \<Rightarrow> bool" where
  "states_member body field T \<longleftrightarrow>
     (\<exists>pre ws1 ws2 val post. first_member body field pre ws1 ws2 val post \<and> T = member_text field ws1 ws2 val)"

definition states_number :: "bytes \<Rightarrow> bytes \<Rightarrow> bytes \<Rightarrow> bool" where
  "states_number body field T \<longleftrightarrow>
     (\<exists>pre ws1 ws2 ds ws3 c post. first_bare body field pre ws1 ws2 ds ws3 c post \<and> T = bare_text field ws1 ws2 ds ws3 c)"

lemma field_states:
  assumes "compute_field_snippet_range pcs recv field = Some r"
    and "(extract_response_body pcs recv :: unit error + bytes) = Inr body"
  shows "states_member body field (slice recv r)"
proof -
  obtain m where m: "in_response pcs recv field = Some m" "r = member_rng m"
    using assms(1) by (auto simp: compute_field_snippet_range_def)
  obtain body' pre ws1 ws2 val post where "(extract_response_body pcs recv :: unit error + bytes) = Inr body'"
      "first_member body' field pre ws1 ws2 val post" "slice recv (member_rng m) = member_text field ws1 ws2 val"
    by (rule in_response_text [OF m(1)])
  then show ?thesis using m(2) assms(2) unfolding states_member_def by simp blast
qed

lemma id_states:
  assumes "compute_id_snippet_range pcs recv field quoted = Some r"
    and "(extract_response_body pcs recv :: unit error + bytes) = Inr body"
  shows "(if quoted then states_member else states_number) body field (slice recv r)"
proof (cases quoted)
  case True
  then show ?thesis using assms field_states by (simp add: compute_id_snippet_range_def)
next
  case False
  then have "compute_id_snippet_range pcs recv field False = Some r" using assms(1) by simp
  from bare_number.relocate_contiguous [OF compute_id_relocates [OF this]] obtain body' d
    where d: "(extract_response_body pcs recv :: unit error + bytes) = Inr body'"
      "find_json_bare_snippet_range body' field = Some d" "slice recv r = slice body' d" .
  from d(2) have "states_number body' field (slice body' d)"
  proof (rule bare_Some)
    fix pre ws1 ws2 ds ws3 c post
    assume f: "first_bare body' field pre ws1 ws2 ds ws3 c post"
      and r: "d = rng (length pre) (length pre + length (bare_text field ws1 ws2 ds ws3 c))"
    show ?thesis using f unfolding states_number_def r bare_slices(1) [OF f] by blast
  qed
  then show ?thesis using d assms(2) False by simp
qed

lemma id_body:
  "compute_id_snippet_range pcs recv field quoted = Some r \<Longrightarrow>
   \<exists>body. (extract_response_body pcs recv :: unit error + bytes) = Inr body"
  by (auto simp: compute_id_snippet_range_def compute_field_snippet_range_def in_response_def ok_def bind_eq_Some_conv
      split: if_splits sum.splits)

lemma mset_pair:
  assumes "mset xs = {#a, b#}"
  shows "xs = [a, b] \<or> xs = [b, a]"
proof -
  have "length xs = 2" using arg_cong [OF assms, of size] by simp
  then obtain c d where xs: "xs = [c, d]" by (auto simp: numeral_2_eq_2 length_Suc_conv)
  with assms have "{#c, d#} = {#a, b#}" by simp
  then show ?thesis using xs by (simp add: add_eq_conv_ex) blast
qed

lemma reveal_pair:
  assumes "mset (reveal l) = {#i, h#}"
  shows "concat (map (slice xs) (sort_key sp_start (reveal l))) \<in> {slice xs i @ slice xs h, slice xs h @ slice xs i}"
  using mset_pair [of "sort_key sp_start (reveal l)" i h] assms by auto


lemma account_recorded:
  assumes "identity_response pcs recv session = Inr l" and "members_apart pcs recv session"
    and "observes Received l recv obs" and "sha256_hashes Received obs" and "length recv < 2 ^ 32"
  shows "\<exists>b body id_text handle_text. block_from_observed obs Received = Inr b \<and>
    (extract_response_body pcs recv :: unit error + bytes) = Inr body \<and>
    (if id_shape_of session = JsonString then states_member else states_number) body (id_field session) id_text \<and>
    states_member body (handle_field session) handle_text \<and>
    revealed_text b \<in> {id_text @ handle_text, handle_text @ id_text}"
proof -
  have t: "tiles l (length recv)" using identity_response_tiles_iff_parts(1) [OF assms(1)] assms(2) by simp
  obtain i h where m: "mset (reveal l) = {#i, h#}"
    and i: "compute_id_snippet_range pcs recv (id_field session) (id_shape_of session = JsonString) = Some i"
    and h: "compute_field_snippet_range pcs recv (handle_field session) = Some h"
    using identity_response_tiles_iff_parts(2) [OF assms(1)] by blast
  obtain body where body: "(extract_response_body pcs recv :: unit error + bytes) = Inr body" using id_body [OF i] by blast
  have "revealed_text (block_of obs Received) \<in> {slice recv i @ slice recv h, slice recv h @ slice recv i}"
    unfolding observed_text [OF assms(3) t assms(5)] by (rule reveal_pair [OF m])
  then show ?thesis
    using observed_block(1) [OF assms(3,4) t assms(5)] body id_states [OF i body] field_states [OF h body] by blast
qed

section \<open>A session that is observed under given layouts\<close>

definition shown_session ::
  "bytes \<Rightarrow> 64 word \<Rightarrow> (direction \<Rightarrow> layout) \<Rightarrow> (direction \<Rightarrow> bytes) \<Rightarrow> (bytes \<Rightarrow> bytes) \<Rightarrow> observed_session" where
  "shown_session authority time ls data digest = \<lparr>
     obs_transcript = \<lparr>len_sent = length (data Sent), len_received = length (data Received),
       sent_authed = reveal (ls Sent), received_authed = reveal (ls Received),
       sent_unsafe = masked (data Sent) (reveal (ls Sent)), received_unsafe = masked (data Received) (reveal (ls Received))\<rparr>,
     obs_authority = authority,
     obs_commitments = concat (map (\<lambda>dir. map (\<lambda>r. HashCommitment \<lparr>ph_direction = dir, ph_idx = [r], ph_alg = SHA256,
       ph_value = digest (slice (data dir) r)\<rparr>) (commit (ls dir))) [Sent, Received]),
     obs_created_at = time\<rparr>"

lemma hashes_of_shown:
  "hashes_of dir (map (\<lambda>r. HashCommitment (f r)) rs) = map f (filter (\<lambda>r. ph_direction (f r) = dir) rs)"
  by (induction rs) auto

lemma shown_observes:
  assumes "layouts_fit ls data" and "range_set (reveal (ls Sent))" and "range_set (reveal (ls Received))"
    and "\<And>bs. length (digest bs) = 32"
  shows "session_observes ls data (shown_session authority time ls data digest)"
proof -
  have fit: "tiles (ls dir) (length (data dir))" for dir using assms(1) by (cases dir) (simp_all add: layouts_fit_def)
  have ok: "list_all (in_slice (data dir)) (reveal (ls dir))" for dir
    using tiles_disjoint(1) [OF fit, of dir] by (auto simp: list_all_iff span_ok_def in_slice_def intro: less_imp_le)
  have h: "hashes_of dir (obs_commitments (shown_session authority time ls data digest)) =
      map (\<lambda>r. \<lparr>ph_direction = dir, ph_idx = [r], ph_alg = SHA256, ph_value = digest (slice (data dir) r)\<rparr>) (commit (ls dir))" for dir
    by (cases dir) (simp_all add: shown_session_def hashes_of_append hashes_of_shown)
  have "mset (map ph_idx (hashes_of dir (obs_commitments (shown_session authority time ls data digest)))) =
      mset (map (\<lambda>r. [r]) (commit (ls dir)))" for dir
    unfolding h by (simp add: comp_def)
  then have "observes dir (ls dir) (data dir) (shown_session authority time ls data digest)" for dir
    using assms(2,3) ok unfolding observes_def Let_def
    by (cases dir) (simp_all add: authed_of_def unsafe_of_def masked_def list_all_iff shown_session_def
        del: mset_map)
  moreover have "sha256_hashes dir (shown_session authority time ls data digest)" for dir
    by (simp add: sha256_hashes_def h assms(4) list_all_iff)
  ultimately show ?thesis by (simp add: session_observes_def) (simp add: shown_session_def)
qed


lemma agree_around:
  assumes "length t = length t'"
  shows "agree_on (reveal (bearer_layout (length xs) (length t) (length (xs @ t @ ys)))) (xs @ t @ ys) (xs @ t' @ ys)"
proof -
  have "(xs @ t @ ys) ! i = (xs @ t' @ ys) ! i" if "i < length xs \<or> length xs + length t \<le> i" for i
    using that assms by (auto simp: nth_append)
  then show ?thesis using assms by (auto simp: agree_on_def bearer_covered list_all_iff)
qed

lemma occurs_in_front:
  "i + length p \<le> length xs \<Longrightarrow> occurs_at p (xs @ ys) i \<longleftrightarrow> occurs_at p xs i"
  by (auto simp: occurs_at_def)

lemma token_accepted: "validate_response r = Inr () \<Longrightarrow> access_token r \<noteq> [] \<and> list_all printable (access_token r)"
  by (auto simp: validate_response_def unprintable_None split: if_splits option.splits)

section \<open>Samples\<close>

definition bearer_layouts :: "direction \<Rightarrow> layout" where
  "bearer_layouts dir = (case dir of Sent \<Rightarrow> bearer_layout 27 3 34 | Received \<Rightarrow> \<lparr>reveal = [], commit = []\<rparr>)"

definition only_sent :: "bytes \<Rightarrow> direction \<Rightarrow> bytes" where
  "only_sent sent dir = (case dir of Sent \<Rightarrow> sent | Received \<Rightarrow> [])"

definition bearer_run :: "bytes \<Rightarrow> bytes \<Rightarrow> observed_session" where
  "bearer_run sent digest = shown_session (ascii ''api.x.com'') 7 bearer_layouts (only_sent sent) (\<lambda>_. digest)"

lemma bearer_layouts_fit: "length sent = 34 \<Longrightarrow> layouts_fit bearer_layouts (only_sent sent)"
  by (simp add: layouts_fit_def bearer_layouts_def only_sent_def bearer_tiles) (simp add: tiles_def spans_of_def)

lemma bearer_run_observes:
  "length sent = 34 \<Longrightarrow> length digest = 32 \<Longrightarrow> session_observes bearer_layouts (only_sent sent) (bearer_run sent digest)"
  unfolding bearer_run_def
  by (intro shown_observes bearer_layouts_fit) (simp_all add: bearer_layouts_def bearer_layout_def)

definition request_with :: "bytes \<Rightarrow> bytes" where
  "request_with token = ascii ''GET'' @ bearer_prefix @ token @ crlf @ crlf"

definition account_layouts :: "direction \<Rightarrow> layout" where
  "account_layouts dir = (case dir of Sent \<Rightarrow> \<lparr>reveal = [], commit = []\<rparr>
     | Received \<Rightarrow> \<lparr>reveal = [rng 40 58, rng 64 72],
         commit = [rng 0 40, rng 58 64, rng 72 (length sample_response)]\<rparr>)"

definition account_run :: observed_session where
  "account_run = shown_session (ascii ''api.x.com'') 7 account_layouts
     (\<lambda>dir. case dir of Sent \<Rightarrow> [] | Received \<Rightarrow> sample_response) (\<lambda>_. replicate 32 7)"

lemma account_run_observes:
  "observes Received \<lparr>reveal = [rng 40 58, rng 64 72],
     commit = [rng 0 40, rng 58 64, rng 72 (length sample_response)]\<rparr> sample_response account_run"
  "sha256_hashes Received account_run"
proof -
  have "72 < length sample_response" "length sample_response < 2 ^ 32" by (simp_all add: sample_response_def eval)
  then have "layouts_fit account_layouts (\<lambda>dir. case dir of Sent \<Rightarrow> [] | Received \<Rightarrow> sample_response)"
    by (simp add: layouts_fit_def account_layouts_def tiles_def spans_of_def)
  then have "session_observes account_layouts (\<lambda>dir. case dir of Sent \<Rightarrow> [] | Received \<Rightarrow> sample_response) account_run"
    unfolding account_run_def by (rule shown_observes) (simp_all add: account_layouts_def)
  then show "observes Received \<lparr>reveal = [rng 40 58, rng 64 72],
     commit = [rng 0 40, rng 58 64, rng 72 (length sample_response)]\<rparr> sample_response account_run"
    "sha256_hashes Received account_run"
    by (simp_all add: session_observes_def account_layouts_def)
qed

section \<open>Properties\<close>

text \<open>C11. The record states the account the body states: when the two members of the identity response
  do not overlap (the debug assertion of \<open>revealing\<close>) and it was observed under its layout, the revealed bytes of the received block, read in order, are the id member and
  the handle member of the decoded body and nothing else, also where the two touch and
  become one authenticated range, and whatever the chunking of the response.\<close>
theorem recorded_account:
  assumes "identity_response pcs recv session = Inr l" and "members_apart pcs recv session"
    and "observes Received l recv obs" and "sha256_hashes Received obs" and "length recv < 2 ^ 32"
  shows "\<exists>b body id_text handle_text. block_from_observed obs Received = Inr b \<and>
    (extract_response_body pcs recv :: unit error + bytes) = Inr body \<and>
    (if id_shape_of session = JsonString then states_member else states_number) body (id_field session) id_text \<and>
    states_member body (handle_field session) handle_text \<and>
    revealed_text b \<in> {id_text @ handle_text, handle_text @ id_text}"
  using assms by (rule account_recorded)

theorem recorded_account_witness:
  "\<exists>body id_text handle_text.
     (extract_response_body hex_chunk_size sample_response :: unit error + bytes) = Inr body \<and>
     states_number body (ascii ''id'') id_text \<and> states_member body (ascii ''login'') handle_text \<and>
     revealed_text (block_of account_run Received) \<in> {id_text @ handle_text, handle_text @ id_text}"
proof -
  let ?s = identity_sample_session
  have apart: "members_apart hex_chunk_size sample_response ?s"
    by (simp add: members_apart_def identity_sample_session_def sample_id sample_login
        compute_field_snippet_range_def disjoint_spans_def)
  have len: "length sample_response < 2 ^ 32" by (simp add: sample_response_def eval)
  obtain b where "block_from_observed account_run Received = Inr b"
      and "\<exists>body id_text handle_text. (extract_response_body hex_chunk_size sample_response :: unit error + bytes) = Inr body \<and>
        states_number body (ascii ''id'') id_text \<and> states_member body (ascii ''login'') handle_text \<and>
        revealed_text b \<in> {id_text @ handle_text, handle_text @ id_text}"
    using recorded_account [OF identity_sample_layout apart account_run_observes len]
    by (auto simp: identity_sample_session_def)
  then show ?thesis by (simp add: block_from_observed_eq)
qed

text \<open>C10. Two sessions with the same authority and time, observed under the same layouts, whose
  transcripts have equal lengths and agree wherever a range is revealed, get records that
  differ in the values of the commitments at most: nothing of a committed byte is in the
  record but in its commitment.\<close>
theorem record_hides_committed:
  assumes "session_observes ls data s" and "session_observes ls data' s'" and "layouts_fit ls data"
    and "\<And>dir. agree_on (reveal (ls dir)) (data dir) (data' dir)"
    and "obs_authority s' = obs_authority s" and "obs_created_at s' = obs_created_at s"
  shows "\<exists>d d'. from_observed keccak256 s = Inr d \<and> from_observed keccak256 s' = Inr d' \<and>
    record_without_hashes d = record_without_hashes d'"
  using assms by (rule session_hides_committed)

theorem record_hides_committed_witness:
  "\<exists>d d'. from_observed (\<lambda>_. replicate 32 5) (bearer_run (request_with (ascii ''tok'')) (replicate 32 7)) = Inr d \<and>
     from_observed (\<lambda>_. replicate 32 5) (bearer_run (request_with (ascii ''key'')) (replicate 32 9)) = Inr d' \<and>
     record_without_hashes d = record_without_hashes d'"
proof (rule record_hides_committed)
  have len: "length (request_with (ascii ''tok'')) = 34" "length (request_with (ascii ''key'')) = 34"
    by (simp_all add: request_with_def length_bearer_prefix)
  show "session_observes bearer_layouts (only_sent (request_with (ascii ''tok''))) (bearer_run (request_with (ascii ''tok'')) (replicate 32 7))"
    and "session_observes bearer_layouts (only_sent (request_with (ascii ''key''))) (bearer_run (request_with (ascii ''key'')) (replicate 32 9))"
    and "layouts_fit bearer_layouts (only_sent (request_with (ascii ''tok'')))"
    using bearer_run_observes bearer_layouts_fit len by simp_all
  show "agree_on (reveal (bearer_layouts dir)) (only_sent (request_with (ascii ''tok'')) dir) (only_sent (request_with (ascii ''key'')) dir)" for dir
    using agree_around [of "ascii ''tok''" "ascii ''key''" "ascii ''GET'' @ bearer_prefix" "crlf @ crlf"]
    by (cases dir) (simp_all add: request_with_def length_bearer_prefix agree_on_def bearer_layouts_def only_sent_def numeral_3_eq_3)
qed (simp_all add: bearer_run_def shown_session_def)

text \<open>C32. Of an access token only its length is in the record of the identity session: two requests
  that differ in the token alone, each token one the exchange accepts and of the same
  length, get the same layout, and blocks that differ in the value of the one commitment.\<close>
theorem record_shows_token_length_only:
  assumes "validate_response r = Inr ()" and "validate_response r' = Inr ()"
    and "length (access_token r) = length (access_token r')"
    and "sent = before @ bearer_prefix @ access_token r @ crlf @ after"
    and "sent' = before @ bearer_prefix @ access_token r' @ crlf @ after"
    and "\<And>j. j < length before \<Longrightarrow> \<not> occurs_at bearer_prefix (before @ bearer_prefix) j"
    and "identity_request sent = Inr l" and "identity_request sent' = Inr l'"
    and "observes Sent l sent s" and "observes Sent l' sent' s'"
    and "sha256_hashes Sent s" and "sha256_hashes Sent s'" and "length sent < 2 ^ 32"
  shows "l = l' \<and> (\<exists>b b'. block_from_observed s Sent = Inr b \<and> block_from_observed s' Sent = Inr b' \<and>
    without_hashes b = without_hashes b')"
proof -
  let ?l = "bearer_layout (length (before @ bearer_prefix)) (length (access_token r)) (length sent)"
  have len: "length sent' = length sent" using assms(3-5) by simp
  have first: "\<not> occurs_at bearer_prefix sent j" "\<not> occurs_at bearer_prefix sent' j" if "j < length before" for j
    using assms(4-6) that occurs_in_front [of j bearer_prefix "before @ bearer_prefix"] by simp_all
  have l: "l = ?l" "l' = ?l"
    using token_run [OF _ _ assms(4) first(1)] token_run [OF _ _ assms(5) first(2)] token_accepted [OF assms(1)]
      token_accepted [OF assms(2)] assms(3,7,8) len by simp_all
  have t: "tiles l (length sent)" using assms(4) token_accepted [OF assms(1)] unfolding l(1)
    by (intro bearer_tiles) (simp_all add: length_bearer_prefix)
  have agree: "agree_on (reveal l) sent sent'"
    using agree_around [OF assms(3), of "before @ bearer_prefix" "crlf @ after"] l(1) assms(4,5) by simp
  have o': "observes Sent l sent' s'" using assms(10) l by simp
  have "without_hashes (block_of s Sent) = without_hashes (block_of s' Sent)"
    by (rule hides_committed [OF assms(9) o' assms(11,12) t assms(13) agree])
  then show ?thesis
    using observed_block(1) [OF assms(9,11) t assms(13)] observed_block(1) [OF o' assms(12)] t assms(13) l len by simp
qed

theorem record_shows_token_length_only_witness:
  "\<exists>b b'. block_from_observed (bearer_run (request_with (ascii ''tok'')) (replicate 32 7)) Sent = Inr b \<and>
     block_from_observed (bearer_run (request_with (ascii ''key'')) (replicate 32 9)) Sent = Inr b' \<and>
     without_hashes b = without_hashes b'"
proof -
  let ?r = "\<lambda>t. \<lparr>access_token = t, attestation_of = \<lparr>attested_bytes = [1], signature = replicate 65 0\<rparr>,
            bearer_opening = replicate 16 0\<rparr>"
  have v: "validate_response (?r (ascii ''tok'')) = Inr ()" "validate_response (?r (ascii ''key'')) = Inr ()"
    by (simp_all add: eval)
  have len: "length (request_with (ascii ''tok'')) = 34" "length (request_with (ascii ''key'')) = 34"
    by (simp_all add: request_with_def length_bearer_prefix)
  have no: "\<not> occurs_at bearer_prefix (ascii ''GET'' @ bearer_prefix) j" if "j < length (ascii ''GET'')" for j
  proof -
    have "j = 0 \<or> j = 1 \<or> j = 2" using that by auto
    then show ?thesis by (auto simp: occurs_at_def bearer_prefix_def ascii_def crlf_def)
  qed
  have l: "identity_request (request_with (ascii ''tok'')) = Inr (bearer_layout 27 3 34)"
    "identity_request (request_with (ascii ''key'')) = Inr (bearer_layout 27 3 34)"
    by (simp_all add: request_with_def complement_def bearer_layout_def eval)
  have o: "observes Sent (bearer_layout 27 3 34) (request_with (ascii ''tok'')) (bearer_run (request_with (ascii ''tok'')) (replicate 32 7))"
      "observes Sent (bearer_layout 27 3 34) (request_with (ascii ''key'')) (bearer_run (request_with (ascii ''key'')) (replicate 32 9))"
      "sha256_hashes Sent (bearer_run (request_with (ascii ''tok'')) (replicate 32 7))"
      "sha256_hashes Sent (bearer_run (request_with (ascii ''key'')) (replicate 32 9))"
    using bearer_run_observes(1) [OF len(1), of "replicate 32 7"] bearer_run_observes(1) [OF len(2), of "replicate 32 9"]
    by (simp_all add: session_observes_def bearer_layouts_def only_sent_def)
  show ?thesis
    using record_shows_token_length_only [OF v, of _ "ascii ''GET''" crlf, OF _ _ _ no l o] len
    by (simp add: request_with_def)
qed

end
