(* ===== verification/Session_Parts.thy ===== *)
theory Session_Parts
  imports Complex_Main Observed
begin

text \<open>
  The parts of \<open>libid-tlsn/src/session.rs\<close> and the error of \<open>libid-tlsn/src/lib.rs\<close> that both
  session functions use: the data limits, the abort guard, the root store, the driver error, the check of
  committed ranges against the session, the commitment configuration, the progress steps and
  the origin form of a request. The \<open>tlsn\<close> builder and the \<open>hyper\<close> URI are arguments.
\<close>

section \<open>Errors and limits\<close>

datatype session_error =
  MpcTlsFailed bytes
| UnsupportedTlsVersion bytes
| SessionIo io_error
| SessionTranscript "unit error"

definition max_sent_data :: nat where "max_sent_data = 2 ^ 12"
definition max_recv_data :: nat where "max_recv_data = 2 ^ 15"

text \<open>\<open>map_err(|e| Error::MpcTlsFailed { detail: format!("<what>: {e}") })\<close>.\<close>

definition mpc_err :: "string \<Rightarrow> bytes + 'a \<Rightarrow> session_error + 'a" where
  "mpc_err what r = map_err (\<lambda>e. MpcTlsFailed (ascii what @ ascii '': '' @ e)) r"

text \<open>What joining the driver task gives: the panic or cancellation of the task, its error, or the stream.\<close>

type_synonym 'io driver_result = "bytes + (bytes + 'io)"

definition driver_finished_early :: "'io driver_result \<Rightarrow> session_error" where
  "driver_finished_early r =
     MpcTlsFailed (case r of
        Inr (Inr _) \<Rightarrow> ascii ''driver task finished before the session completed''
      | Inr (Inl e) \<Rightarrow> ascii ''driver task: '' @ e
      | Inl e \<Rightarrow> ascii ''driver task join: '' @ e)"

section \<open>The abort guard\<close>

text \<open>
  A guard holds a handle or nothing; \<open>Drop\<close> aborts what it holds. \<open>None\<close> as a result is the
  panic of \<open>expect\<close>.
\<close>

datatype 'h guard = AbortOnDrop "'h option"

definition guard_new :: "'h \<Rightarrow> 'h guard" where
  "guard_new handle = AbortOnDrop (Some handle)"

fun handle_mut :: "'h guard \<Rightarrow> 'h option" where
  "handle_mut (AbortOnDrop g) = g"

fun into_inner :: "'h guard \<Rightarrow> ('h \<times> 'h guard) option" where
  "into_inner (AbortOnDrop None) = None"
| "into_inner (AbortOnDrop (Some handle)) = Some (handle, AbortOnDrop None)"

fun drop_guard :: "('h \<Rightarrow> 's \<Rightarrow> 's) \<Rightarrow> 'h guard \<Rightarrow> 's \<Rightarrow> 's" where
  "drop_guard abort (AbortOnDrop None) s = s"
| "drop_guard abort (AbortOnDrop (Some handle)) s = abort handle s"

section \<open>The root store\<close>

text \<open>The certificates of \<open>webpki_root_certs\<close> are an argument.\<close>

datatype certificate_der = CertificateDer bytes

definition root_store :: "bytes list \<Rightarrow> certificate_der list" where
  "root_store tls_server_root_certs = map CertificateDer tls_server_root_certs"

section \<open>Committed ranges and the session\<close>

datatype content_type = ApplicationData | OtherContent

record tls_record =
  rec_typ :: content_type
  rec_ciphertext :: bytes

definition application_data_len :: "tls_record list \<Rightarrow> nat" where
  "application_data_len records =
     sum_list (map (length \<circ> rec_ciphertext) (filter (\<lambda>r. rec_typ r = ApplicationData) records))"

fun commitment_past_the_session ::
  "(direction \<times> nat option) list \<Rightarrow> nat \<Rightarrow> nat \<Rightarrow> (direction \<times> nat \<times> nat) option" where
  "commitment_past_the_session [] sent_len recv_len = None"
| "commitment_past_the_session ((dir, end_at) # cs) sent_len recv_len =
     (let len = (case dir of Sent \<Rightarrow> sent_len | Received \<Rightarrow> recv_len) in
      case end_at of
        Some e \<Rightarrow> if e > len then Some (dir, e, len) else commitment_past_the_session cs sent_len recv_len
      | None \<Rightarrow> commitment_past_the_session cs sent_len recv_len)"

definition dir_len :: "nat \<Rightarrow> nat \<Rightarrow> direction \<Rightarrow> nat" where
  "dir_len sent_len recv_len dir = (case dir of Sent \<Rightarrow> sent_len | Received \<Rightarrow> recv_len)"

lemma commitment_past_None:
  "commitment_past_the_session cs sent_len recv_len = None \<longleftrightarrow>
   (\<forall>(dir, end_at) \<in> set cs. \<forall>e. end_at = Some e \<longrightarrow> e \<le> dir_len sent_len recv_len dir)"
  by (induction cs sent_len recv_len rule: commitment_past_the_session.induct)
     (auto simp: Let_def dir_len_def split: option.splits)

lemma commitment_past_first:
  "commitment_past_the_session cs sent_len recv_len = Some (dir, e, len) \<Longrightarrow>
   \<exists>before rest. cs = before @ (dir, Some e) # rest \<and> len = dir_len sent_len recv_len dir \<and> len < e \<and>
      commitment_past_the_session before sent_len recv_len = None"
proof (induction cs)
  case (Cons c cs)
  obtain d end_at where c: "c = (d, end_at)" by (cases c)
  let ?len = "dir_len sent_len recv_len d"
  have unfold: "commitment_past_the_session (c # xs) sent_len recv_len =
      (case end_at of Some x \<Rightarrow> if ?len < x then Some (d, x, ?len) else commitment_past_the_session xs sent_len recv_len
       | None \<Rightarrow> commitment_past_the_session xs sent_len recv_len)" for xs
    by (cases d; cases end_at) (simp_all add: c dir_len_def Let_def)
  show ?case
  proof (cases "\<exists>x. end_at = Some x \<and> ?len < x")
    case True
    then obtain x where x: "end_at = Some x" "?len < x" by blast
    then have eqs: "dir = d" "e = x" "len = ?len" using Cons.prems unfolding unfold by auto
    show ?thesis unfolding eqs using x by (intro exI [of _ "[]"] exI [of _ cs]) (simp add: c)
  next
    case False
    then have skip: "commitment_past_the_session (c # xs) sent_len recv_len = commitment_past_the_session xs sent_len recv_len" for xs
      by (auto simp: unfold split: option.splits)
    with Cons obtain before rest where "cs = before @ (dir, Some e) # rest" "len = dir_len sent_len recv_len dir"
        "len < e" "commitment_past_the_session before sent_len recv_len = None" by auto
    with skip show ?thesis by (intro exI [of _ "c # before"] exI [of _ rest]) simp
  qed
qed simp

section \<open>The commitment configuration\<close>

text \<open>The \<open>tlsn\<close> builder: its state, and what it builds as direction, range and algorithm.\<close>

record ('c, 'cfg) commit_builder =
  cb_default_kind :: "hash_alg_id \<Rightarrow> 'c \<Rightarrow> 'c"
  cb_commit :: "direction \<Rightarrow> span \<Rightarrow> 'c \<Rightarrow> bytes + 'c"
  cb_build :: "'c \<Rightarrow> bytes + 'cfg"

fun commit_each :: "('c, 'cfg) commit_builder \<Rightarrow> string \<Rightarrow> direction \<Rightarrow> span list \<Rightarrow> 'c \<Rightarrow> session_error + 'c" where
  "commit_each cb what dir [] c = Inr c"
| "commit_each cb what dir (r # rs) c =
     and_then (mpc_err what (cb_commit cb dir r c)) (\<lambda>c'. commit_each cb what dir rs c')"

definition transcript_commit_config ::
  "('c, 'cfg) commit_builder \<Rightarrow> 'c \<Rightarrow> span list \<Rightarrow> span list \<Rightarrow> session_error + 'cfg" where
  "transcript_commit_config cb builder sent recv =
     (let builder = cb_default_kind cb SHA256 builder in
      and_then (commit_each cb ''commit sent'' Sent sent builder) (\<lambda>builder.
      and_then (commit_each cb ''commit recv'' Received recv builder) (\<lambda>builder.
      mpc_err ''transcript commit config'' (cb_build cb builder))))"

text \<open>
  What the builder documents: the default kind applies to the ranges committed after it, a
  range that is accepted is added, and building keeps what was added.
\<close>

definition builder_laws ::
  "('c, 'cfg) commit_builder \<Rightarrow> ('c \<Rightarrow> hash_alg_id) \<Rightarrow> ('c \<Rightarrow> (direction \<times> span \<times> hash_alg_id) list) \<Rightarrow>
   ('cfg \<Rightarrow> (direction \<times> span \<times> hash_alg_id) list) \<Rightarrow> bool" where
  "builder_laws cb kind added contents \<longleftrightarrow>
     (\<forall>alg c. kind (cb_default_kind cb alg c) = alg \<and> added (cb_default_kind cb alg c) = added c) \<and>
     (\<forall>dir r c c'. cb_commit cb dir r c = Inr c' \<longrightarrow> kind c' = kind c \<and> added c' = added c @ [(dir, r, kind c)]) \<and>
     (\<forall>c cfg. cb_build cb c = Inr cfg \<longrightarrow> contents cfg = added c)"

lemma commit_each_adds:
  "builder_laws cb kind added contents \<Longrightarrow> commit_each cb what dir rs c = Inr c' \<Longrightarrow>
   kind c' = kind c \<and> added c' = added c @ map (\<lambda>r. (dir, r, kind c)) rs"
proof (induction rs arbitrary: c)
  case (Cons r rs)
  then obtain c1 where c1: "cb_commit cb dir r c = Inr c1" "commit_each cb what dir rs c1 = Inr c'"
    by (auto simp: and_then_Inr_iff mpc_err_def)
  moreover from Cons.prems(1) c1(1) have "kind c1 = kind c" "added c1 = added c @ [(dir, r, kind c)]"
    unfolding builder_laws_def by blast+
  ultimately show ?case using Cons.IH [OF Cons.prems(1) c1(2)] by simp
qed simp

lemma transcript_commit_config_contents:
  assumes laws: "builder_laws cb kind added contents" and empty: "added builder = []"
    and ok: "transcript_commit_config cb builder sent recv = Inr cfg"
  shows "contents cfg = map (\<lambda>r. (Sent, r, SHA256)) sent @ map (\<lambda>r. (Received, r, SHA256)) recv"
proof -
  let ?b = "cb_default_kind cb SHA256 builder"
  from ok obtain c1 c2 where c: "commit_each cb ''commit sent'' Sent sent ?b = Inr c1"
      "commit_each cb ''commit recv'' Received recv c1 = Inr c2" "cb_build cb c2 = Inr cfg"
    by (auto simp: transcript_commit_config_def Let_def and_then_Inr_iff mpc_err_def)
  have "kind ?b = SHA256" "added ?b = []" "contents cfg = added c2"
    using laws empty c(3) unfolding builder_laws_def by auto
  with commit_each_adds [OF laws c(1)] commit_each_adds [OF laws c(2)] show ?thesis by simp
qed

section \<open>Progress\<close>

datatype prover_step = MpcSetupComplete | TlsHandshakeComplete | PlatformDataFetched | MpcProofFinalized

text \<open>The derived \<open>Ord\<close>: the order of declaration.\<close>

fun step_index :: "prover_step \<Rightarrow> nat" where
  "step_index MpcSetupComplete = 0"
| "step_index TlsHandshakeComplete = 1"
| "step_index PlatformDataFetched = 2"
| "step_index MpcProofFinalized = 3"

lemma step_index_inj: "step_index a = step_index b \<Longrightarrow> a = b"
  by (cases a; cases b) simp_all

instantiation prover_step :: linorder
begin

definition less_eq_prover_step :: "prover_step \<Rightarrow> prover_step \<Rightarrow> bool" where
  "a \<le> b \<longleftrightarrow> step_index a \<le> step_index b"

definition less_prover_step :: "prover_step \<Rightarrow> prover_step \<Rightarrow> bool" where
  "a < b \<longleftrightarrow> step_index a < step_index b"

instance
  by standard (auto simp: less_eq_prover_step_def less_prover_step_def intro: step_index_inj)

end

fun fraction :: "prover_step \<Rightarrow> rat" where
  "fraction MpcSetupComplete = 1 / 4"
| "fraction TlsHandshakeComplete = 1 / 2"
| "fraction PlatformDataFetched = 3 / 4"
| "fraction MpcProofFinalized = 1"

lemma fraction_index: "fraction s = (of_nat (step_index s) + 1) / 4"
  by (cases s) simp_all

section \<open>Origin form\<close>

record ('u, 'p) uri_ops =
  uri_host :: "'u \<Rightarrow> bytes option"
  uri_path_and_query :: "'u \<Rightarrow> 'p option"
  uri_from_path :: "'p \<Rightarrow> bytes + 'u"
  uri_default :: "'u"

record ('u, 'rest) http_request =
  req_uri :: 'u
  req_rest :: 'rest

definition origin_form :: "('u, 'p) uri_ops \<Rightarrow> ('u, 'rest) http_request \<Rightarrow> session_error + ('u, 'rest) http_request" where
  "origin_form ops request =
     and_then
       (case uri_path_and_query ops (req_uri request) of
          Some path \<Rightarrow> mpc_err ''origin-form request-target'' (uri_from_path ops path)
        | None \<Rightarrow> Inr (uri_default ops))
       (\<lambda>target. Inr (request\<lparr>req_uri := target\<rparr>))"

text \<open>A URI made of a path alone has that path and no host; the default URI has no host.\<close>

definition uri_laws :: "('u, 'p) uri_ops \<Rightarrow> bool" where
  "uri_laws ops \<longleftrightarrow>
     (\<forall>p u. uri_from_path ops p = Inr u \<longrightarrow> uri_path_and_query ops u = Some p \<and> uri_host ops u = None) \<and>
     uri_host ops (uri_default ops) = None"

section \<open>Openings and results\<close>

record commitment_opening =
  op_direction :: direction
  op_ranges :: "span list"
  op_blinder :: bytes

record ('secrets, 'io) prover_result =
  response_body :: bytes
  secrets :: 'secrets
  commitment_openings :: "commitment_opening list"
  prover_io :: 'io

record ('name, 'tls, 'io) verifier_result =
  vr_partial_transcript :: partial_transcript
  vr_server_name :: 'name
  vr_tls_transcript :: 'tls
  vr_transcript_commitments :: "transcript_commitment list"
  vr_io :: 'io

section \<open>Properties\<close>

text \<open>The check before \<open>accept\<close> is exact: it finds nothing exactly when every committed range
  ends inside the application data of its direction, and otherwise reports the first one that
  does not, with its end and the length it exceeds.\<close>
theorem commitment_past_exact:
  "(case commitment_past_the_session cs sent_len recv_len of
      None \<Rightarrow> list_all (\<lambda>(dir, end_at). case end_at of None \<Rightarrow> True | Some e \<Rightarrow> e \<le> dir_len sent_len recv_len dir) cs
    | Some (dir, e, len) \<Rightarrow> (\<exists>before rest. cs = before @ (dir, Some e) # rest \<and>
        len = dir_len sent_len recv_len dir \<and> len < e \<and>
        commitment_past_the_session before sent_len recv_len = None))"
proof (cases "commitment_past_the_session cs sent_len recv_len")
  case None
  then have "list_all (\<lambda>(dir, end_at). case end_at of None \<Rightarrow> True | Some e \<Rightarrow> e \<le> dir_len sent_len recv_len dir) cs"
    unfolding commitment_past_None list_all_iff by (auto split: option.split)
  with None show ?thesis by simp
next
  case (Some x)
  obtain dir e len where "x = (dir, e, len)" by (cases x)
  with Some show ?thesis using commitment_past_first [of cs sent_len recv_len dir e len] by simp
qed

text \<open>Whatever a session commits is committed under SHA-256, the one algorithm the attested-data
  record accepts: the configuration holds exactly the given ranges, sent before received, in
  order, none under the library's default.\<close>
theorem commitments_use_sha256:
  assumes "builder_laws cb kind added contents" and "added builder = []"
    and "transcript_commit_config cb builder sent recv = Inr cfg"
  shows "contents cfg = map (\<lambda>r. (Sent, r, SHA256)) sent @ map (\<lambda>r. (Received, r, SHA256)) recv"
  using assms by (rule transcript_commit_config_contents)

type_synonym list_builder = "hash_alg_id \<times> (direction \<times> span \<times> hash_alg_id) list"

definition sample_builder :: "(list_builder, (direction \<times> span \<times> hash_alg_id) list) commit_builder" where
  "sample_builder = \<lparr>cb_default_kind = (\<lambda>alg (_, cs). (alg, cs)),
     cb_commit = (\<lambda>dir r (alg, cs). if sp_start r < sp_end r then Inr (alg, cs @ [(dir, r, alg)]) else Inl []),
     cb_build = (\<lambda>(_, cs). Inr cs)\<rparr>"

lemma sample_builder_laws: "builder_laws sample_builder fst snd (\<lambda>cs. cs)"
  by (auto simp: builder_laws_def sample_builder_def split: if_splits)

theorem commitments_use_sha256_witness:
  "transcript_commit_config sample_builder (OtherAlg 2, []) [rng 2 4] [rng 0 3] =
     Inr [(Sent, rng 2 4, SHA256), (Received, rng 0 3, SHA256)]"
proof -
  have t: "transcript_commit_config sample_builder (OtherAlg 2, []) [rng 2 4] [rng 0 3] =
     Inr [(Sent, rng 2 4, SHA256), (Received, rng 0 3, SHA256)]"
    by (simp add: transcript_commit_config_def sample_builder_def mpc_err_def Let_def)
  show ?thesis
    using commitments_use_sha256 [OF sample_builder_laws _ t] t by simp
qed

text \<open>Progress is monotone: the fraction lies in (0, 1], grows strictly with the derived order of
  the steps, and is 1 exactly at the last step.\<close>
theorem fraction_strictly_increasing:
  "0 < fraction a \<and> fraction a \<le> 1 \<and> (fraction a < fraction b) = (a < b) \<and>
   (fraction a = 1) = (a = MpcProofFinalized)"
  by (cases a; cases b) (simp_all add: less_prover_step_def)

end
