(* ===== verification/Race.thy ===== *)
theory Race
  imports Session_Parts
begin

text \<open>
  How \<open>prover_generic\<close> and \<open>verifier\<close> of \<open>libid-tlsn/src/session.rs\<close> run: the \<open>setup\<close> future
  as a sequence of events with a result, the guards of the tasks it spawns, and the race of
  \<open>setup\<close> against the driver task in the biased \<open>select!\<close> with the join behind it, as a step
  relation. Lemmas: invariants of the reachable states, by rule induction, and the states in
  which a race rests when a peer stops answering (\<open>stalled_step\<close>, \<open>rests\<close>).
\<close>

section \<open>Runs of a future\<close>

datatype task = ProverTask | ConnTask

text \<open>
  What a future does, in order. \<open>Awaited\<close> is the end of an \<open>await\<close>: until it happens the future is
  pending. \<open>TookBack\<close> is \<open>into_inner\<close>: the guard no longer holds the task; \<open>Joined\<close> is the end of
  the \<open>await\<close> on its handle.
\<close>

datatype 'x event =
  Progress prover_step
| Establish
| Spawned task
| TookBack task
| Joined task
| Aborted task
| Awaited
| Call 'x

type_synonym ('x, 'a) run = "'x event list \<times> (session_error + 'a)"

definition run_ok :: "'a \<Rightarrow> ('x, 'a) run" where
  "run_ok x = ([], Inr x)"

definition run_res :: "session_error + 'a \<Rightarrow> ('x, 'a) run" where
  "run_res r = ([], r)"

definition run_ev :: "'x event \<Rightarrow> ('x, unit) run" where
  "run_ev e = ([e], Inr ())"

fun run_then :: "('x, 'a) run \<Rightarrow> ('a \<Rightarrow> ('x, 'b) run) \<Rightarrow> ('x, 'b) run" where
  "run_then (es, Inl e) f = (es, Inl e)"
| "run_then (es, Inr x) f = (es @ fst (f x), snd (f x))"

definition mpc_call :: "string \<Rightarrow> bytes + 'a \<Rightarrow> ('x, 'a) run" where
  "mpc_call what r = run_res (mpc_err what r)"

definition await_call :: "string \<Rightarrow> bytes + 'a \<Rightarrow> ('x, 'a) run" where
  "await_call what r = run_then (run_ev Awaited) (\<lambda>_. mpc_call what r)"

lemma snd_run_then: "snd (run_then r f) = and_then (snd r) (\<lambda>x. snd (f x))"
  by (cases "(r, f)" rule: run_then.cases) simp_all

lemma fst_run_then: "fst (run_then r f) = fst r @ (case snd r of Inl _ \<Rightarrow> [] | Inr x \<Rightarrow> fst (f x))"
  by (cases "(r, f)" rule: run_then.cases) simp_all

lemma fst_await_call [simp]: "fst (await_call what r) = [Awaited]"
  by (simp add: await_call_def run_ev_def mpc_call_def run_res_def)

lemma snd_await_call [simp]: "snd (await_call what r) = mpc_err what r"
  by (simp add: await_call_def run_ev_def mpc_call_def run_res_def)

lemmas run_simps = snd_run_then fst_run_then run_ok_def run_res_def run_ev_def mpc_call_def

fun guarded :: "'x event list \<Rightarrow> task list" where
  "guarded [] = []"
| "guarded (Spawned t # es) = t # guarded es"
| "guarded (_ # es) = guarded es"

definition held :: "'x event list \<Rightarrow> task \<Rightarrow> bool" where
  "held es t \<longleftrightarrow> Spawned t \<in> set es \<and> TookBack t \<notin> set es \<and> Aborted t \<notin> set es"

definition running :: "'x event list \<Rightarrow> task \<Rightarrow> bool" where
  "running es t \<longleftrightarrow> Spawned t \<in> set es \<and> Joined t \<notin> set es \<and> Aborted t \<notin> set es"

text \<open>Leaving the scope drops the guards in the reverse order of their declaration.\<close>

definition drop_guards :: "'x event list \<Rightarrow> 'x event list" where
  "drop_guards es = map Aborted (rev (filter (held es) (guarded es)))"

definition leave_scope :: "('x, 'a) run \<Rightarrow> ('x, 'a) run" where
  "leave_scope r = (fst r @ drop_guards (fst r), snd r)"

lemma Spawned_guarded: "Spawned t \<in> set es \<longleftrightarrow> t \<in> set (guarded es)"
  by (induction es rule: guarded.induct) auto

lemma held_after_drop: "\<not> held (es @ drop_guards es) t"
  by (auto simp: held_def drop_guards_def Spawned_guarded)

text \<open>A task that still runs after the guards were dropped is one that was taken back to be joined.\<close>

lemma running_after_drop:
  "running (es @ drop_guards es) t \<Longrightarrow> TookBack t \<in> set es \<and> Joined t \<notin> set es"
  by (auto simp: running_def held_def drop_guards_def Spawned_guarded)

section \<open>The race\<close>

datatype 'io driver = DriverRuns | DriverEnded "'io driver_result" | DriverAborted

datatype ('a, 'io) phase =
  Selecting
| FinishingSetup "'io driver_result"
| JoiningDriver 'a
| Returned "session_error + ('a \<times> 'io)"
| FutureDropped

record ('x, 'a, 'io) race =
  performed :: "'x event list"
  todo :: "'x event list"
  outcome :: "session_error + 'a"
  established :: bool
  driver_of :: "'io driver"
  phase_of :: "('a, 'io) phase"

definition race_start :: "('x, 'a) run \<Rightarrow> ('x, 'a, 'io) race" where
  "race_start r = \<lparr>performed = [], todo = fst r, outcome = snd r, established = False,
                   driver_of = DriverRuns, phase_of = Selecting\<rparr>"

text \<open>The result of the driver, once it is awaited.\<close>

definition join_driver :: "'a \<Rightarrow> 'io driver_result \<Rightarrow> session_error + ('a \<times> 'io)" where
  "join_driver a r =
     and_then (mpc_err ''driver task join'' r) (\<lambda>inner. and_then (mpc_err ''driver task'' inner) (\<lambda>io. Inr (a, io)))"

fun abort_driver :: "'io driver \<Rightarrow> 'io driver" where
  "abort_driver DriverRuns = DriverAborted"
| "abort_driver d = d"

text \<open>
  \<open>setup_event\<close>: the setup future is polled and does its next thing.
  \<open>driver_ends\<close>: the environment ends the driver task.
  The others are the branches of the \<open>select!\<close> (biased: the driver branch is taken only while
  setup is not ready), the \<open>await\<close> behind it, and the caller dropping the whole future. Each
  says what can happen next; that an event of setup may never happen, the \<open>await\<close> that the
  comment at the \<open>select!\<close> is about, is \<open>stalled_step\<close> below.
\<close>

inductive race_step :: "('x, 'a, 'io) race \<Rightarrow> ('x, 'a, 'io) race \<Rightarrow> bool" where
  setup_event: "phase_of s = Selecting \<or> (\<exists>r. phase_of s = FinishingSetup r) \<Longrightarrow> todo s = e # es \<Longrightarrow>
     race_step s (s\<lparr>performed := performed s @ [e], todo := es, established := (established s \<or> e = Establish)\<rparr>)"
| driver_ends: "driver_of s = DriverRuns \<Longrightarrow>
     race_step s (s\<lparr>driver_of := DriverEnded r\<rparr>)"
| setup_ready: "phase_of s = Selecting \<Longrightarrow> todo s = [] \<Longrightarrow> outcome s = Inr a \<Longrightarrow>
     race_step s (s\<lparr>phase_of := JoiningDriver a\<rparr>)"
| setup_failed: "phase_of s = Selecting \<Longrightarrow> todo s = [] \<Longrightarrow> outcome s = Inl e \<Longrightarrow>
     race_step s (s\<lparr>driver_of := abort_driver (driver_of s), phase_of := Returned (Inl e)\<rparr>)"
| driver_died: "phase_of s = Selecting \<Longrightarrow> todo s \<noteq> [] \<Longrightarrow> driver_of s = DriverEnded r \<Longrightarrow> \<not> established s \<Longrightarrow>
     race_step s (s\<lparr>performed := performed s @ drop_guards (performed s),
                    phase_of := Returned (Inl (driver_finished_early r))\<rparr>)"
| driver_closed: "phase_of s = Selecting \<Longrightarrow> todo s \<noteq> [] \<Longrightarrow> driver_of s = DriverEnded r \<Longrightarrow> established s \<Longrightarrow>
     race_step s (s\<lparr>phase_of := FinishingSetup r\<rparr>)"
| setup_finished: "phase_of s = FinishingSetup r \<Longrightarrow> todo s = [] \<Longrightarrow> outcome s = Inr a \<Longrightarrow>
     race_step s (s\<lparr>phase_of := Returned (join_driver a r)\<rparr>)"
| setup_failed_late: "phase_of s = FinishingSetup r \<Longrightarrow> todo s = [] \<Longrightarrow> outcome s = Inl e \<Longrightarrow>
     race_step s (s\<lparr>phase_of := Returned (Inl e)\<rparr>)"
| driver_joined: "phase_of s = JoiningDriver a \<Longrightarrow> driver_of s = DriverEnded r \<Longrightarrow>
     race_step s (s\<lparr>phase_of := Returned (join_driver a r)\<rparr>)"
| dropped_guarded: "phase_of s = Selecting \<or> (\<exists>r. phase_of s = FinishingSetup r) \<Longrightarrow>
     race_step s (s\<lparr>performed := performed s @ drop_guards (performed s),
                    driver_of := abort_driver (driver_of s), phase_of := FutureDropped\<rparr>)"
| dropped_joining: "phase_of s = JoiningDriver a \<Longrightarrow>
     race_step s (s\<lparr>phase_of := FutureDropped\<rparr>)"

inductive_cases race_stepE: "race_step s s'"

inductive reach :: "('x, 'a) run \<Rightarrow> ('x, 'a, 'io) race \<Rightarrow> bool" for run where
  start: "reach run (race_start run)"
| step: "reach run s \<Longrightarrow> race_step s s' \<Longrightarrow> reach run s'"

section \<open>Invariants\<close>

fun terminal :: "('a, 'io) phase \<Rightarrow> bool" where
  "terminal (Returned _) = True"
| "terminal FutureDropped = True"
| "terminal _ = False"

text \<open>What the setup future did is a prefix of its run; only dropping it early drops its guards.\<close>

definition setup_inv :: "('x, 'a) run \<Rightarrow> ('x, 'a, 'io) race \<Rightarrow> bool" where
  "setup_inv run s \<longleftrightarrow> outcome s = snd run \<and>
     (\<exists>es. es @ todo s = fst run \<and> established s = (Establish \<in> set es) \<and>
        (performed s = es \<and> (\<not> terminal (phase_of s) \<or> todo s = []) \<or>
         performed s = es @ drop_guards es \<and> terminal (phase_of s)))"

text \<open>Why the function returned what it returned.\<close>

definition returned_because :: "('x, 'a, 'io) race \<Rightarrow> session_error + ('a \<times> 'io) \<Rightarrow> bool" where
  "returned_because s x \<longleftrightarrow>
     (case x of
        Inr (a, io) \<Rightarrow> todo s = [] \<and> outcome s = Inr a \<and> driver_of s = DriverEnded (Inr (Inr io))
      | Inl e \<Rightarrow> (todo s = [] \<and> outcome s = Inl e) \<or>
          (\<exists>r. driver_of s = DriverEnded r \<and>
             (\<not> established s \<and> todo s \<noteq> [] \<and> e = driver_finished_early r \<or>
              (\<exists>a. todo s = [] \<and> outcome s = Inr a \<and> join_driver a r = Inl e))))"

definition driver_inv :: "('x, 'a, 'io) race \<Rightarrow> bool" where
  "driver_inv s \<longleftrightarrow>
     (case phase_of s of
        Selecting \<Rightarrow> driver_of s \<noteq> DriverAborted
      | FinishingSetup r \<Rightarrow> driver_of s = DriverEnded r \<and> established s
      | JoiningDriver a \<Rightarrow> driver_of s \<noteq> DriverAborted \<and> todo s = [] \<and> outcome s = Inr a
      | Returned x \<Rightarrow> driver_of s \<noteq> DriverRuns \<and> returned_because s x
      | FutureDropped \<Rightarrow> driver_of s = DriverRuns \<longrightarrow> todo s = [] \<and> (\<exists>a. outcome s = Inr a))"

lemma abort_driver_cases: "abort_driver d \<noteq> DriverRuns"
  by (cases d) simp_all

lemma join_driver_Inr: "join_driver a r = Inr x \<longleftrightarrow> (\<exists>io. r = Inr (Inr io) \<and> x = (a, io))"
  by (auto simp: join_driver_def and_then_Inr_iff mpc_err_def)

lemma join_driver_ok [simp]: "join_driver a (Inr (Inr io)) = Inr (a, io)"
  by (simp add: join_driver_def mpc_err_def)

lemma returned_by_join:
  "todo s = [] \<Longrightarrow> outcome s = Inr a \<Longrightarrow> driver_of s = DriverEnded r \<Longrightarrow>
   returned_because (s\<lparr>phase_of := p\<rparr>) (join_driver a r)"
  by (cases "join_driver a r") (auto simp: returned_because_def join_driver_Inr)

lemma setup_inv_step: "race_step s s' \<Longrightarrow> setup_inv run s \<Longrightarrow> driver_inv s \<Longrightarrow> setup_inv run s'"
proof (induction rule: race_step.induct)
  case (setup_event s e es)
  then obtain ds where ds: "outcome s = snd run" "ds @ todo s = fst run" "established s = (Establish \<in> set ds)" "performed s = ds"
    by (auto simp: setup_inv_def)
  then show ?case using setup_event
    by (auto simp: setup_inv_def intro!: exI [of _ "ds @ [e]"])
next
  case (driver_joined s a r)
  then have "todo s = []" by (simp add: driver_inv_def)
  with driver_joined show ?case by (auto simp: setup_inv_def)
next
  case (dropped_joining s a)
  then have "todo s = []" by (simp add: driver_inv_def)
  with dropped_joining show ?case by (auto simp: setup_inv_def)
qed (auto simp: setup_inv_def)

lemma driver_inv_step: "race_step s s' \<Longrightarrow> driver_inv s \<Longrightarrow> driver_inv s'"
proof (induction rule: race_step.induct)
  case (driver_ends s r)
  then show ?case by (auto simp: driver_inv_def split: phase.splits)
next
  case (setup_failed s e)
  then show ?case using abort_driver_cases [of "driver_of s"]
    by (simp add: driver_inv_def returned_because_def)
next
  case (dropped_guarded s)
  then show ?case using abort_driver_cases [of "driver_of s"] by (simp add: driver_inv_def)
next
  case (setup_finished s r a)
  then show ?case by (simp add: driver_inv_def returned_by_join)
next
  case (driver_joined s a r)
  then show ?case by (simp add: driver_inv_def returned_by_join)
qed (auto simp: driver_inv_def returned_because_def)

lemma reach_invs:
  assumes "reach run s"
  shows "setup_inv run s" and "driver_inv s"
  using assms
proof (induction rule: reach.induct)
  case start
  { case 1 show ?case by (auto simp: setup_inv_def race_start_def) }
  { case 2 show ?case by (simp add: driver_inv_def race_start_def) }
next
  case (step s s')
  { case 1 show ?case using step.IH step.hyps(2) setup_inv_step by blast }
  { case 2 show ?case using step.IH(2) step.hyps(2) driver_inv_step by blast }
qed

text \<open>A race that returns a value returns the one of its setup.\<close>

lemma returned_result: "reach run s \<Longrightarrow> phase_of s = Returned (Inr (a, io)) \<Longrightarrow> snd run = Inr a"
  using reach_invs [of run s] by (auto simp: driver_inv_def setup_inv_def returned_because_def)

text \<open>Every step uses up an event, the driver's end, or a phase.\<close>

fun phase_rank :: "('a, 'io) phase \<Rightarrow> nat" where
  "phase_rank Selecting = 2"
| "phase_rank (FinishingSetup _) = 1"
| "phase_rank (JoiningDriver _) = 1"
| "phase_rank _ = 0"

definition remaining :: "('x, 'a, 'io) race \<Rightarrow> nat" where
  "remaining s = length (todo s) + (if driver_of s = DriverRuns then 1 else 0) + phase_rank (phase_of s)"

lemma race_step_decreases: "race_step s s' \<Longrightarrow> remaining s' < remaining s"
proof (induction rule: race_step.induct)
  case (setup_failed s e)
  then show ?case using abort_driver_cases [of "driver_of s"] by (simp add: remaining_def)
next
  case (dropped_guarded s)
  then show ?case using abort_driver_cases [of "driver_of s"] by (auto simp: remaining_def)
qed (auto simp: remaining_def)

lemma reach_steps: "reach run s \<Longrightarrow> race_step\<^sup>*\<^sup>* s s' \<Longrightarrow> reach run s'"
  by (rotate_tac, induction rule: rtranclp_induct) (auto intro: reach.step)

text \<open>
  A run that joins at once: whatever it takes out of a guard is the next thing it joins. Then
  a task runs past the end of the function in one case only: the driver ended early in
  between.
\<close>

fun joins_at_once :: "'x event list \<Rightarrow> bool" where
  "joins_at_once [] = True"
| "joins_at_once (TookBack t # es) = (es \<noteq> [] \<and> hd es = Joined t \<and> joins_at_once es)"
| "joins_at_once (e # es) = joins_at_once es"

lemma joins_at_once_append: "joins_at_once es \<Longrightarrow> joins_at_once fs \<Longrightarrow> joins_at_once (es @ fs)"
  by (induction es rule: joins_at_once.induct) auto

lemma joins_at_once_next: "joins_at_once (xs @ TookBack t # ys) \<Longrightarrow> ys \<noteq> [] \<and> hd ys = Joined t"
  by (induction xs rule: joins_at_once.induct) auto

lemma joins_at_once_quiet: "(\<And>t. TookBack t \<notin> set es) \<Longrightarrow> joins_at_once es"
  by (induction es rule: joins_at_once.induct) auto

lemma joins_at_once_then:
  "joins_at_once (fst r) \<Longrightarrow> (\<And>x. snd r = Inr x \<Longrightarrow> joins_at_once (fst (f x))) \<Longrightarrow> joins_at_once (fst (run_then r f))"
  by (auto simp: fst_run_then intro: joins_at_once_append split: sum.split)

lemma drop_guards_joins: "joins_at_once (drop_guards es)"
  by (rule joins_at_once_quiet) (auto simp: drop_guards_def)

lemma returned_still_running:
  assumes r: "reach (leave_scope m) s" "phase_of s = Returned x" and m: "joins_at_once (fst m)"
    and t: "running (performed s) t"
  shows "\<exists>es rest r. todo s = Joined t # rest \<and>
    performed s = es @ [TookBack t] @ drop_guards (es @ [TookBack t]) \<and>
    \<not> established s \<and> driver_of s = DriverEnded r \<and> x = Inl (driver_finished_early r)"
proof -
  have joins: "joins_at_once (fst (leave_scope m))"
    using m by (simp add: leave_scope_def joins_at_once_append drop_guards_joins)
  obtain ds where ds: "ds @ todo s = fst (leave_scope m)"
      "performed s = ds \<and> todo s = [] \<or> performed s = ds @ drop_guards ds"
    using reach_invs(1) [OF r(1)] r(2) by (auto simp: setup_inv_def)
  have "\<exists>es. performed s = es @ drop_guards es" using ds by (auto simp: leave_scope_def)
  then obtain es0 where es0: "performed s = es0 @ drop_guards es0" by blast
  have taken: "TookBack t \<in> set (performed s)" "Joined t \<notin> set (performed s)"
    using running_after_drop [of es0 t] t unfolding es0 by (auto simp: drop_guards_def)
  have "TookBack t \<in> set ds" using ds(2) taken(1) by (auto simp: drop_guards_def)
  then obtain es ys where es: "ds = es @ TookBack t # ys" by (meson split_list)
  then have "fst (leave_scope m) = es @ TookBack t # (ys @ todo s)" using ds(1) by simp
  with joins have next_up: "ys @ todo s \<noteq> []" "hd (ys @ todo s) = Joined t" using joins_at_once_next by metis+
  have "Joined t \<notin> set ds" using ds(2) taken(2) by auto
  then have "ys = []" using next_up(2) es by (cases ys) auto
  with next_up obtain rest where rest: "todo s = Joined t # rest" by (cases "todo s") auto
  have "returned_because s x" using reach_invs(2) [OF r(1)] r(2) by (simp add: driver_inv_def)
  then obtain r' where "driver_of s = DriverEnded r'" "\<not> established s" "x = Inl (driver_finished_early r')"
    using rest by (auto simp: returned_because_def split: sum.splits)
  then show ?thesis using rest ds(2) es \<open>ys = []\<close> by auto
qed

section \<open>A sample run\<close>

definition sample_run :: "(unit, nat) run" where
  "sample_run = leave_scope ([Spawned ProverTask, Establish, TookBack ProverTask, Joined ProverTask], Inr 5)"

lemma sample_run_events: "sample_run = ([Spawned ProverTask, Establish, TookBack ProverTask, Joined ProverTask], Inr 5)"
  by (simp add: sample_run_def leave_scope_def drop_guards_def held_def)

text \<open>The driver dies before anything happened.\<close>

definition dead_race :: "(unit, nat, nat) race" where
  "dead_race = (race_start sample_run)\<lparr>driver_of := DriverEnded (Inl (ascii ''x''))\<rparr>"

lemma dead_race_reachable: "reach sample_run dead_race"
  unfolding dead_race_def
  by (rule reach.step [OF reach.start], rule race_step.driver_ends) (simp add: race_start_def)

definition dead_returned :: "(unit, nat, nat) race" where
  "dead_returned = dead_race\<lparr>performed := [], phase_of := Returned (Inl (driver_finished_early (Inl (ascii ''x'') :: nat driver_result)))\<rparr>"

lemma dead_returned_reachable: "reach sample_run dead_returned"
proof (rule reach.step [OF dead_race_reachable])
  have "race_step dead_race (dead_race\<lparr>performed := performed dead_race @ drop_guards (performed dead_race),
      phase_of := Returned (Inl (driver_finished_early (Inl (ascii ''x'') :: nat driver_result)))\<rparr>)"
    by (rule race_step.driver_died) (simp_all add: dead_race_def race_start_def sample_run_events)
  then show "race_step dead_race dead_returned"
    by (simp add: dead_returned_def dead_race_def race_start_def drop_guards_def)
qed

section \<open>A run that completes\<close>

lemma reach_all_events:
  "reach r s \<Longrightarrow> phase_of s = Selecting \<Longrightarrow> todo s = es \<Longrightarrow>
   \<exists>s'. reach r s' \<and> phase_of s' = Selecting \<and> todo s' = [] \<and> driver_of s' = driver_of s"
proof (induction es arbitrary: s)
  case (Cons e es)
  let ?s = "s\<lparr>performed := performed s @ [e], todo := es, established := (established s \<or> e = Establish)\<rparr>"
  have "race_step s ?s" using Cons.prems(2,3) by (intro race_step.setup_event) simp_all
  then have "reach r ?s" using Cons.prems(1) reach.step by blast
  from Cons.IH [OF this] Cons.prems(2) show ?case by simp
qed blast

text \<open>Setup succeeds, then the driver gives the stream back.\<close>

lemma reach_returns:
  assumes "snd r = Inr a"
  obtains s :: "('x, 'a, 'io) race" where "reach r s" and "phase_of s = Returned (Inr (a, io))"
proof -
  have "reach r (race_start r :: ('x, 'a, 'io) race)" by (rule reach.start)
  from reach_all_events [OF this] obtain s :: "('x, 'a, 'io) race" where s: "reach r s" "phase_of s = Selecting"
      "todo s = []" "driver_of s = DriverRuns"
    by (auto simp: race_start_def)
  have out: "outcome s = Inr a" using reach_invs(1) [OF s(1)] assms by (simp add: setup_inv_def)
  let ?d = "s\<lparr>driver_of := DriverEnded (Inr (Inr io))\<rparr>"
  have 1: "race_step s ?d" by (rule race_step.driver_ends [OF s(4)])
  have 2: "race_step ?d (?d\<lparr>phase_of := JoiningDriver a\<rparr>)" using s out by (intro race_step.setup_ready) simp_all
  have 3: "race_step (?d\<lparr>phase_of := JoiningDriver a\<rparr>) (?d\<lparr>phase_of := JoiningDriver a\<rparr>\<lparr>phase_of := Returned (join_driver a (Inr (Inr io)))\<rparr>)"
    by (rule race_step.driver_joined) simp_all
  have "reach r (?d\<lparr>phase_of := JoiningDriver a\<rparr>\<lparr>phase_of := Returned (join_driver a (Inr (Inr io)))\<rparr>)"
    using s(1) 1 2 3 by (blast intro: reach.step)
  then show ?thesis by (rule that) simp
qed

section \<open>Properties\<close>

text \<open>What the race returns has exactly one of these reasons: success means setup ran to its end
  with that result and the driver gave the stream back; an error is setup's own, or the
  driver's early end before the session was established, or the driver's failure when it is
  joined after a successful setup.\<close>
theorem race_returns_because:
  assumes "reach run s" and "phase_of s = Returned x"
  shows "returned_because s x \<and> outcome s = snd run \<and> (\<exists>es. es @ todo s = fst run \<and> established s = (Establish \<in> set es))"
  using reach_invs [OF assms(1)] assms(2) by (auto simp: driver_inv_def setup_inv_def)

theorem race_returns_because_witness:
  "returned_because dead_returned (Inl (driver_finished_early (Inl (ascii ''x'') :: nat driver_result)))"
  using race_returns_because [OF dead_returned_reachable, of "Inl (driver_finished_early (Inl (ascii ''x'') :: nat driver_result))"]
  by (simp add: dead_returned_def)

text \<open>C33. A dead connection never wedges the session: once the driver has ended, the function can
  return without another step of setup, unless the session was established and setup is
  still finishing; and no race runs forever.\<close>
theorem dead_driver_returns:
  assumes "reach run s" and "driver_of s = DriverEnded r" and "todo s = [] \<or> (\<not> established s)"
    and "\<not> terminal (phase_of s)"
  shows "\<exists>s' x. race_step\<^sup>*\<^sup>* s s' \<and> phase_of s' = Returned x \<and> todo s' = todo s \<and>
    remaining s' < remaining s"
proof -
  have one: "\<exists>s' x. race_step\<^sup>*\<^sup>* s s' \<and> phase_of s' = Returned x \<and> todo s' = todo s \<and> remaining s' < remaining s"
    if "race_step s t" "phase_of t = Returned y" "todo t = todo s" for t y
    using that race_step_decreases [OF that(1)] by (intro exI [of _ t] exI [of _ y]) auto
  show ?thesis
  proof (cases "phase_of s")
    case Selecting
    show ?thesis
    proof (cases "todo s = []")
      case False
      with assms(3) show ?thesis by (intro one [OF race_step.driver_died [OF Selecting False assms(2)]]) simp_all
    next
      case True
      show ?thesis
      proof (cases "outcome s")
        case (Inl e)
        show ?thesis by (rule one [OF race_step.setup_failed [OF Selecting True Inl]]) simp_all
      next
        case (Inr a)
        let ?j = "s\<lparr>phase_of := JoiningDriver a\<rparr>"
        have st: "race_step s ?j" "race_step ?j (?j\<lparr>phase_of := Returned (join_driver a r)\<rparr>)"
          using race_step.setup_ready [OF Selecting True Inr] race_step.driver_joined [of ?j a r] assms(2) by simp_all
        then show ?thesis
          using race_step_decreases [OF st(1)] race_step_decreases [OF st(2)]
          by (intro exI [of _ "?j\<lparr>phase_of := Returned (join_driver a r)\<rparr>"] exI [of _ "join_driver a r"]) auto
      qed
    qed
  next
    case (FinishingSetup r')
    then have "todo s = []" using reach_invs(2) [OF assms(1)] assms(3) by (simp add: driver_inv_def)
    then show ?thesis
      using one [OF race_step.setup_finished [OF FinishingSetup]] one [OF race_step.setup_failed_late [OF FinishingSetup]]
      by (cases "outcome s") simp_all
  next
    case (JoiningDriver a)
    show ?thesis by (rule one [OF race_step.driver_joined [OF JoiningDriver assms(2)]]) simp_all
  qed (use assms(4) in simp_all)
qed

theorem dead_driver_returns_witness:
  "\<exists>s' x. race_step\<^sup>*\<^sup>* dead_race s' \<and> phase_of s' = Returned x \<and> todo s' = todo dead_race"
  using dead_driver_returns [OF dead_race_reachable, of "Inl (ascii ''x'')"]
  by (auto simp: dead_race_def race_start_def)

text \<open>A caller that drops the future cancels the driver at every point but one: a driver left
  running means setup had already succeeded and the driver's handle was being awaited.\<close>
theorem dropped_driver_only_while_joining:
  assumes "reach run s" and "phase_of s = FutureDropped" and "driver_of s = DriverRuns"
  shows "todo s = [] \<and> (\<exists>a. snd run = Inr a)"
  using reach_invs [OF assms(1)] assms(2,3) by (auto simp: driver_inv_def setup_inv_def)

text \<open>That point exists: setup is done, the driver still runs, and the caller drops the future.\<close>

definition joining_race :: "(unit, nat, nat) race" where
  "joining_race = \<lparr>performed = [], todo = [], outcome = Inr 5, established = False,
                   driver_of = DriverRuns, phase_of = FutureDropped\<rparr>"

lemma dropped_while_joining_detaches: "reach ([], Inr 5) joining_race"
proof -
  let ?s = "race_start ([], Inr 5) :: (unit, nat, nat) race"
  have "race_step ?s (?s\<lparr>phase_of := JoiningDriver 5\<rparr>)"
    by (rule race_step.setup_ready) (simp_all add: race_start_def)
  moreover have "race_step (?s\<lparr>phase_of := JoiningDriver 5\<rparr>) (?s\<lparr>phase_of := JoiningDriver 5\<rparr>\<lparr>phase_of := FutureDropped\<rparr>)"
    by (rule race_step.dropped_joining [of _ 5]) simp
  ultimately have "reach ([], Inr 5) (?s\<lparr>phase_of := JoiningDriver 5\<rparr>\<lparr>phase_of := FutureDropped\<rparr>)"
    by (blast intro: reach.intros)
  then show ?thesis by (simp add: joining_race_def race_start_def)
qed

theorem dropped_driver_only_while_joining_witness:
  "todo joining_race = [] \<and> (\<exists>a. (Inr 5 :: session_error + nat) = Inr a)"
  using dropped_driver_only_while_joining [OF dropped_while_joining_detaches] by (simp add: joining_race_def)

section \<open>Peers that stop answering\<close>

text \<open>
  \<open>race_step\<close> says what can happen; here is what must. In a stalled race the caller keeps the
  future, and the peers may stop answering: setup gets no further than \<open>k\<close> events (an \<open>await\<close> that
  never resolves; \<open>k\<close> beyond the run is no stall), and without \<open>ends\<close> the driver task never ends.
\<close>

definition stalled_step :: "nat \<Rightarrow> bool \<Rightarrow> ('x, 'a, 'io) race \<Rightarrow> ('x, 'a, 'io) race \<Rightarrow> bool" where
  "stalled_step k ends s s' \<longleftrightarrow> race_step s s' \<and> phase_of s' \<noteq> FutureDropped \<and>
     (todo s' \<noteq> todo s \<longrightarrow> length (performed s) < k) \<and>
     (driver_of s = DriverRuns \<and> (\<exists>r. driver_of s' = DriverEnded r) \<longrightarrow> ends)"

text \<open>The states in which a stalled race rests: it has returned, or it waits for a peer.\<close>

definition rests :: "nat \<Rightarrow> bool \<Rightarrow> ('x, 'a, 'io) race \<Rightarrow> bool" where
  "rests k ends s \<longleftrightarrow>
     (let stalled = (todo s \<noteq> [] \<and> k \<le> length (performed s)); silent = (driver_of s = DriverRuns \<and> \<not> ends) in
      case phase_of s of
        Returned _ \<Rightarrow> True
      | Selecting \<Rightarrow> stalled \<and> silent
      | JoiningDriver _ \<Rightarrow> silent
      | FinishingSetup _ \<Rightarrow> stalled \<and> established s
      | FutureDropped \<Rightarrow> False)"

lemma stalled_race_step: "stalled_step k ends s s' \<Longrightarrow> race_step s s'"
  by (simp add: stalled_step_def)

lemma stalled_path:
  fixes s :: "('x, 'a, 'io) race"
  assumes "(stalled_step k ends ^^ n) (race_start run) s"
  shows "reach run s" and "phase_of s \<noteq> FutureDropped" and "remaining s + n \<le> length (fst run) + 3"
proof -
  have "reach run s \<and> phase_of s \<noteq> FutureDropped \<and> remaining s + n \<le> length (fst run) + 3" using assms
  proof (induction n arbitrary: s)
    case 0
    then have "s = race_start run" by simp
    then show ?case by (simp add: reach.start) (simp add: race_start_def remaining_def)
  next
    case (Suc n)
    then obtain s1 where "(stalled_step k ends ^^ n) (race_start run) s1" "stalled_step k ends s1 s" by auto
    note ih = Suc.IH [OF this(1)] and st = stalled_race_step [OF this(2)] and live = this(2)
    have "reach run s" using ih st by (blast intro: reach.step)
    moreover have "phase_of s \<noteq> FutureDropped" using live by (simp add: stalled_step_def)
    moreover have "remaining s + Suc n \<le> length (fst run) + 3" using ih race_step_decreases [OF st] by linarith
    ultimately show ?case by blast
  qed
  then show "reach run s" and "phase_of s \<noteq> FutureDropped" and "remaining s + n \<le> length (fst run) + 3" by simp_all
qed

lemma stalled_moves:
  assumes "driver_inv s" and "phase_of s \<noteq> FutureDropped" and "\<not> rests k ends s"
  shows "\<exists>s'. stalled_step k ends s s'"
proof -
  have event: ?thesis if "phase_of s = Selecting \<or> (\<exists>r. phase_of s = FinishingSetup r)" "todo s = e # es" "length (performed s) < k" for e es
    using race_step.setup_event [OF that(1,2)] that
    by (intro exI [of _ "s\<lparr>performed := performed s @ [e], todo := es, established := (established s \<or> e = Establish)\<rparr>"])
       (auto simp: stalled_step_def)
  have stop: ?thesis if "race_step s (s\<lparr>phase_of := p\<rparr>)" "p \<noteq> FutureDropped" for p
    using that by (intro exI [of _ "s\<lparr>phase_of := p\<rparr>"]) (auto simp: stalled_step_def)
  have ending: ?thesis if "driver_of s = DriverRuns" "ends"
    using race_step.driver_ends [OF that(1), of undefined] that assms(2)
    by (intro exI [of _ "s\<lparr>driver_of := DriverEnded undefined\<rparr>"]) (simp add: stalled_step_def)
  show ?thesis
  proof (cases "phase_of s")
    case Selecting
    then have d: "driver_of s \<noteq> DriverAborted" using assms(1) by (simp add: driver_inv_def)
    show ?thesis
    proof (cases "todo s")
      case Nil
      show ?thesis
      proof (cases "outcome s")
        case (Inr a)
        show ?thesis by (rule stop [OF race_step.setup_ready [OF Selecting Nil Inr]]) simp
      next
        case (Inl e)
        have "stalled_step k ends s (s\<lparr>driver_of := abort_driver (driver_of s), phase_of := Returned (Inl e)\<rparr>)"
          using race_step.setup_failed [OF Selecting Nil Inl] by (cases "driver_of s") (simp_all add: stalled_step_def)
        then show ?thesis by blast
      qed
    next
      case (Cons e es)
      show ?thesis
      proof (cases "length (performed s) < k")
        case True
        with Selecting Cons show ?thesis by (intro event) simp_all
      next
        case False
        show ?thesis
        proof (cases "driver_of s")
          case DriverRuns
          with assms(3) Selecting Cons False show ?thesis by (intro ending) (simp_all add: rests_def Let_def)
        next
          case (DriverEnded r)
          have ne: "todo s \<noteq> []" using Cons by simp
          show ?thesis
          proof (cases "established s")
            case True
            show ?thesis by (rule stop [OF race_step.driver_closed [OF Selecting ne DriverEnded True]]) simp
          next
            case False
            from race_step.driver_died [OF Selecting ne DriverEnded this] DriverEnded show ?thesis
              by (intro exI [of _ "s\<lparr>performed := performed s @ drop_guards (performed s),
                    phase_of := Returned (Inl (driver_finished_early r))\<rparr>"]) (simp add: stalled_step_def)
          qed
        qed (use d in simp)
      qed
    qed
  next
    case (FinishingSetup r)
    then have "established s" using assms(1) by (simp add: driver_inv_def)
    show ?thesis
    proof (cases "todo s")
      case Nil
      show ?thesis
        by (cases "outcome s") (rule stop [OF race_step.setup_failed_late [OF FinishingSetup Nil]], simp_all,
            rule stop [OF race_step.setup_finished [OF FinishingSetup Nil]], simp_all)
    next
      case (Cons e es)
      with assms(3) FinishingSetup \<open>established s\<close> show ?thesis
        by (intro event) (auto simp: rests_def Let_def not_le)
    qed
  next
    case (JoiningDriver a)
    show ?thesis
    proof (cases "driver_of s")
      case DriverRuns
      with assms(3) JoiningDriver show ?thesis by (intro ending) (simp_all add: rests_def Let_def)
    next
      case (DriverEnded r)
      show ?thesis by (rule stop [OF race_step.driver_joined [OF JoiningDriver DriverEnded]]) simp
    next
      case DriverAborted
      then show ?thesis using assms(1) JoiningDriver by (simp add: driver_inv_def)
    qed
  next
    case (Returned x)
    with assms(3) show ?thesis by (simp add: rests_def Let_def)
  next
    case FutureDropped
    with assms(2) show ?thesis by simp
  qed
qed

lemma resting_state_is_stuck:
  assumes "rests k ends s" and "driver_inv s"
  shows "\<not> stalled_step k ends s s'"
proof
  assume step: "stalled_step k ends s s'"
  from stalled_race_step [OF this] step assms show False
    by (cases rule: race_step.cases) (auto simp: rests_def Let_def stalled_step_def driver_inv_def split: phase.splits)
qed



end
