(* ===== verification/Prover.thy ===== *)
theory Prover
  imports Race
begin

text \<open>
  \<open>prover_generic\<close> of \<open>libid-tlsn/src/session.rs\<close>. Each call into \<open>tlsn\<close>, \<open>hyper\<close> or the
  network is a field of \<open>prover_env\<close> that says what it returned; the setup future is a run of
  \<open>Race\<close>, stage by stage in the order of the code. Lemmas: which progress is reported, what is
  sent, exactly when a session succeeds and with which events, and which tasks it leaves.
\<close>

section \<open>What the session calls\<close>

datatype transcript_secret = HashSecret direction "span list" bytes | OtherSecret bytes

datatype ('u, 'rest) prover_call =
  ConnectTcp bytes
| SendRequest "('u, 'rest) http_request"
| RevealRange direction span
| CloseProver

record ('u, 'p, 'rest, 'c, 'cfg, 'sec) prover_env =
  env_uri :: "('u, 'p) uri_ops"
  env_prover_config :: "bytes + unit"
  env_new_prover :: "bytes + unit"
  env_mpc_config :: "nat \<Rightarrow> nat \<Rightarrow> bytes + unit"
  env_commit :: "bytes + unit"
  env_tcp :: "bytes \<Rightarrow> io_error + unit"
  env_server_name :: "bytes \<Rightarrow> bytes + unit"
  env_tls_config :: "bytes + unit"
  env_connect :: "bytes + unit"
  env_http_handshake :: "bytes + unit"
  env_send :: "('u, 'rest) http_request \<Rightarrow> bytes + nat"
  env_status_text :: "nat \<Rightarrow> bytes"
  env_collect :: "bytes + bytes"
  env_join_prover :: "bytes + (bytes + unit)"
  env_sent :: bytes
  env_received :: bytes
  env_builder :: "('c, 'cfg) commit_builder"
  env_new_builder :: 'c
  env_reveal :: "direction \<Rightarrow> span \<Rightarrow> bytes + unit"
  env_prove_config :: "bytes + unit"
  env_prove :: "'cfg \<Rightarrow> bytes + transcript_secret list"
  env_request_config :: "'cfg \<Rightarrow> bytes + unit"
  env_has_certs :: bool
  env_has_signature :: bool
  env_attestation_request :: "bytes + 'sec"
  env_close :: "bytes + unit"

type_synonym select_layout = "bytes \<Rightarrow> bytes \<Rightarrow> session_error + layout \<times> layout"

section \<open>The stages of setup\<close>

definition setup_mpc :: "('u, 'p, 'rest, 'c, 'cfg, 'sec) prover_env \<Rightarrow> (('u, 'rest) prover_call, unit) run" where
  "setup_mpc env =
     run_then (mpc_call ''prover config'' (env_prover_config env)) (\<lambda>_.
     run_then (mpc_call ''new prover'' (env_new_prover env)) (\<lambda>_.
     run_then (mpc_call ''mpc tls config'' (env_mpc_config env max_sent_data max_recv_data)) (\<lambda>_.
     run_then (await_call ''commit'' (env_commit env)) (\<lambda>_.
     run_ev (Progress MpcSetupComplete)))))"

definition connect_tls ::
  "('u, 'p, 'rest, 'c, 'cfg, 'sec) prover_env \<Rightarrow> bytes \<Rightarrow> (('u, 'rest) prover_call, unit) run" where
  "connect_tls env api_host =
     run_then (run_ev (Call (ConnectTcp (api_host @ ascii '':443'')))) (\<lambda>_.
     run_then (run_ev Awaited) (\<lambda>_.
     run_then (run_res (map_err SessionIo (env_tcp env (api_host @ ascii '':443'')))) (\<lambda>_.
     run_then (mpc_call ''server name'' (env_server_name env api_host)) (\<lambda>_.
     run_then (mpc_call ''tls client config'' (env_tls_config env)) (\<lambda>_.
     run_then (mpc_call ''connect'' (env_connect env)) (\<lambda>_.
     run_ev (Progress TlsHandshakeComplete)))))))"

definition exchange ::
  "('u, 'p, 'rest, 'c, 'cfg, 'sec) prover_env \<Rightarrow> ('u, 'rest) http_request \<Rightarrow> (('u, 'rest) prover_call, bytes) run" where
  "exchange env request =
     run_then (run_ev (Spawned ProverTask)) (\<lambda>_.
     run_then (await_call ''http handshake'' (env_http_handshake env)) (\<lambda>_.
     run_then (run_ev (Spawned ConnTask)) (\<lambda>_.
     run_then (run_ev (Call (SendRequest request))) (\<lambda>_.
     run_then (await_call ''send request'' (env_send env request)) (\<lambda>status.
     run_then (await_call ''collect body'' (env_collect env)) (\<lambda>body.
     if status \<noteq> 200
     then run_res (Inl (MpcTlsFailed
       (ascii ''API returned '' @ env_status_text env status @ ascii '': '' @ from_utf8_lossy body)))
     else run_then (run_ev (Progress PlatformDataFetched)) (\<lambda>_. run_ok body)))))))"

definition take_prover :: "('u, 'p, 'rest, 'c, 'cfg, 'sec) prover_env \<Rightarrow> (('u, 'rest) prover_call, unit) run" where
  "take_prover env =
     run_then (run_ev (TookBack ProverTask)) (\<lambda>_.
     run_then (run_ev (Joined ProverTask)) (\<lambda>_.
     run_then (mpc_call ''prover task join'' (env_join_prover env)) (\<lambda>inner.
     mpc_call ''prover task'' inner)))"

fun reveal_each ::
  "('u, 'p, 'rest, 'c, 'cfg, 'sec) prover_env \<Rightarrow> string \<Rightarrow> direction \<Rightarrow> span list \<Rightarrow> (('u, 'rest) prover_call, unit) run" where
  "reveal_each env what dir [] = run_ok ()"
| "reveal_each env what dir (r # rs) =
     run_then (run_ev (Call (RevealRange dir r))) (\<lambda>_.
     run_then (mpc_call what (env_reveal env dir r)) (\<lambda>_. reveal_each env what dir rs))"

definition prove_layouts ::
  "('u, 'p, 'rest, 'c, 'cfg, 'sec) prover_env \<Rightarrow> select_layout \<Rightarrow>
   (('u, 'rest) prover_call, 'cfg \<times> transcript_secret list) run" where
  "prove_layouts env select_layout =
     run_then (run_res (select_layout (env_sent env) (env_received env))) (\<lambda>(sent_layout, recv_layout).
     run_then (run_res (transcript_commit_config (env_builder env) (env_new_builder env)
       (commit sent_layout) (commit recv_layout))) (\<lambda>transcript_commit.
     run_then (reveal_each env ''reveal sent'' Sent (reveal sent_layout)) (\<lambda>_.
     run_then (reveal_each env ''reveal recv'' Received (reveal recv_layout)) (\<lambda>_.
     run_then (mpc_call ''prove config'' (env_prove_config env)) (\<lambda>_.
     run_then (await_call ''prove'' (env_prove env transcript_commit)) (\<lambda>secrets.
     run_then (run_ev Establish) (\<lambda>_.
     run_then (run_ev (Progress MpcProofFinalized)) (\<lambda>_. run_ok (transcript_commit, secrets)))))))))"

fun opening_of :: "transcript_secret \<Rightarrow> session_error + commitment_opening" where
  "opening_of (HashSecret dir ranges blinder) = Inr \<lparr>op_direction = dir, op_ranges = ranges, op_blinder = blinder\<rparr>"
| "opening_of (OtherSecret debug) =
     Inl (MpcTlsFailed (ascii ''commitment secret of a kind this build cannot open: '' @ debug))"

text \<open>\<open>collect\<close> into a \<open>Result\<close>: the first error, or every value in order.\<close>

fun collect_results :: "('e + 'a) list \<Rightarrow> 'e + 'a list" where
  "collect_results [] = Inr []"
| "collect_results (r # rs) = and_then r (\<lambda>x. and_then (collect_results rs) (\<lambda>xs. Inr (x # xs)))"

definition attestation_request ::
  "('u, 'p, 'rest, 'c, 'cfg, 'sec) prover_env \<Rightarrow> bytes \<Rightarrow> 'cfg \<Rightarrow> transcript_secret list \<Rightarrow>
   (('u, 'rest) prover_call, 'sec \<times> commitment_opening list) run" where
  "attestation_request env api_host transcript_commit transcript_secrets =
     run_then (mpc_call ''request config'' (env_request_config env transcript_commit)) (\<lambda>_.
     run_then (run_res (if env_has_certs env then Inr ()
                        else Inl (MpcTlsFailed (ascii ''server cert chain not available'')))) (\<lambda>_.
     run_then (run_res (if env_has_signature env then Inr ()
                        else Inl (MpcTlsFailed (ascii ''server signature not available'')))) (\<lambda>_.
     run_then (mpc_call ''server name'' (env_server_name env api_host)) (\<lambda>_.
     run_then (run_res (collect_results (map opening_of transcript_secrets))) (\<lambda>openings.
     run_then (mpc_call ''attestation request'' (env_attestation_request env)) (\<lambda>secrets.
     run_then (run_ev (Call CloseProver)) (\<lambda>_.
     run_then (await_call ''prover close'' (env_close env)) (\<lambda>_. run_ok (secrets, openings)))))))))"

definition prover_setup ::
  "('u, 'p, 'rest, 'c, 'cfg, 'sec) prover_env \<Rightarrow> select_layout \<Rightarrow> bytes \<Rightarrow> ('u, 'rest) http_request \<Rightarrow>
   (('u, 'rest) prover_call, bytes \<times> 'sec \<times> commitment_opening list) run" where
  "prover_setup env select_layout api_host request = leave_scope
     (run_then (setup_mpc env) (\<lambda>_.
      run_then (connect_tls env api_host) (\<lambda>_.
      run_then (exchange env request) (\<lambda>body.
      run_then (take_prover env) (\<lambda>_.
      run_then (prove_layouts env select_layout) (\<lambda>(transcript_commit, transcript_secrets).
      run_then (attestation_request env api_host transcript_commit transcript_secrets) (\<lambda>(secrets, openings).
      run_ok (body, secrets, openings))))))))"

section \<open>The session\<close>

text \<open>What happens before the driver is spawned.\<close>

definition prover_prepare ::
  "('u, 'p, 'rest, 'c, 'cfg, 'sec) prover_env \<Rightarrow> ('u, 'rest) http_request \<Rightarrow>
   session_error + bytes \<times> ('u, 'rest) http_request" where
  "prover_prepare env request =
     and_then (ok_or (uri_host (env_uri env) (req_uri request))
       (MpcTlsFailed (ascii ''request URI carries no host''))) (\<lambda>api_host.
     and_then (origin_form (env_uri env) request) (\<lambda>request'. Inr (api_host, request')))"

definition prover_result_of ::
  "(bytes \<times> 'sec \<times> commitment_opening list) \<times> 'io \<Rightarrow> ('sec, 'io) prover_result" where
  "prover_result_of x =
     (case x of ((body, secs, openings), io) \<Rightarrow>
        \<lparr>response_body = body, secrets = secs, commitment_openings = openings, prover_io = io\<rparr>)"

inductive prover_generic ::
  "('u, 'p, 'rest, 'c, 'cfg, 'sec) prover_env \<Rightarrow> select_layout \<Rightarrow> ('u, 'rest) http_request \<Rightarrow>
   session_error + ('sec, 'io) prover_result \<Rightarrow> bool" for env select_layout request where
  refused: "prover_prepare env request = Inl e \<Longrightarrow> prover_generic env select_layout request (Inl e)"
| failed: "prover_prepare env request = Inr (api_host, request') \<Longrightarrow>
     reach (prover_setup env select_layout api_host request')
       (s :: (('u, 'rest) prover_call, bytes \<times> 'sec \<times> commitment_opening list, 'io) race) \<Longrightarrow>
     phase_of s = Returned (Inl e) \<Longrightarrow>
     prover_generic env select_layout request (Inl e)"
| returned: "prover_prepare env request = Inr (api_host, request') \<Longrightarrow>
     reach (prover_setup env select_layout api_host request') s \<Longrightarrow> phase_of s = Returned (Inr x) \<Longrightarrow>
     prover_generic env select_layout request (Inr (prover_result_of x))"

inductive_cases prover_generic_Inr: "prover_generic env select_layout request (Inr res)"

section \<open>Reading runs\<close>

fun progress_of :: "'x event list \<Rightarrow> prover_step list" where
  "progress_of [] = []"
| "progress_of (Progress p # es) = p # progress_of es"
| "progress_of (_ # es) = progress_of es"

lemma progress_append [simp]: "progress_of (es @ fs) = progress_of es @ progress_of fs"
  by (induction es rule: progress_of.induct) simp_all

lemma drop_guards_quiet [simp]: "progress_of (drop_guards es) = []" "Establish \<notin> set (drop_guards es)"
  "Call c \<notin> set (drop_guards es)"
proof -
  have "progress_of (map Aborted ts) = []" for ts by (induction ts) simp_all
  then show "progress_of (drop_guards es) = []" by (simp add: drop_guards_def)
qed (auto simp: drop_guards_def)

text \<open>A stage that, when it succeeds, has reported these steps and established the session or not.\<close>

definition reports :: "prover_step list \<Rightarrow> bool \<Rightarrow> ('x, 'a) run \<Rightarrow> bool" where
  "reports ps est r \<longleftrightarrow>
     progress_of (fst r) = (case snd r of Inl _ \<Rightarrow> [] | Inr _ \<Rightarrow> ps) \<and>
     (Establish \<in> set (fst r)) = ((\<exists>x. snd r = Inr x) \<and> est)"

definition all_steps :: "prover_step list" where
  "all_steps = [MpcSetupComplete, TlsHandshakeComplete, PlatformDataFetched, MpcProofFinalized]"

definition progressing :: "nat \<Rightarrow> ('x, 'a) run \<Rightarrow> bool" where
  "progressing n r \<longleftrightarrow>
     (\<exists>k \<le> 4 - n. progress_of (fst r) = take k (drop n all_steps) \<and>
        (Establish \<in> set (fst r)) = (n < 4 \<and> k = 4 - n) \<and> ((\<exists>x. snd r = Inr x) \<longrightarrow> k = 4 - n))"

lemma progressing_then:
  assumes r: "reports ps est r" and ps: "ps = take (m - n) (drop n all_steps)" and nm: "n \<le> m" "m \<le> 4"
    and est: "est = (n < 4 \<and> m = 4)" and f: "\<And>x. snd r = Inr x \<Longrightarrow> progressing m (f x)"
  shows "progressing n (run_then r f)"
proof (cases "snd r")
  case (Inl e)
  then have "progress_of (fst r) = []" "Establish \<notin> set (fst r)" using r by (auto simp: reports_def)
  then show ?thesis using Inl by (cases "n < 4") (auto simp: progressing_def run_simps intro!: exI [of _ 0])
next
  case (Inr x)
  then obtain k where k: "k \<le> 4 - m" "progress_of (fst (f x)) = take k (drop m all_steps)"
      "(Establish \<in> set (fst (f x))) = (m < 4 \<and> k = 4 - m)" "(\<exists>y. snd (f x) = Inr y) \<longrightarrow> k = 4 - m"
    using f by (auto simp: progressing_def)
  have "take (m - n) (drop n all_steps) @ take k (drop m all_steps) = take (m - n + k) (drop n all_steps)"
    using nm take_add [of "m - n" k "drop n all_steps"] by simp
  moreover have "progress_of (fst r) = take (m - n) (drop n all_steps)" "(Establish \<in> set (fst r)) = (n < 4 \<and> m = 4)"
    using r ps est Inr by (auto simp: reports_def)
  ultimately have "progress_of (fst (run_then r f)) = take (m - n + k) (drop n all_steps)"
      "(Establish \<in> set (fst (run_then r f))) = (n < 4 \<and> m - n + k = 4 - n)"
    using Inr k nm by (auto simp: run_simps)
  moreover have "(\<exists>y. snd (run_then r f) = Inr y) \<longrightarrow> m - n + k = 4 - n"
    using Inr k(4) nm by (auto simp: run_simps)
  ultimately show ?thesis using k(1) nm by (auto simp: progressing_def intro!: exI [of _ "m - n + k"])
qed

lemma progressing_last: "progress_of (fst r) = [] \<Longrightarrow> Establish \<notin> set (fst r) \<Longrightarrow> progressing 4 r"
  by (simp add: progressing_def)

lemma setup_mpc_reports: "reports [MpcSetupComplete] False (setup_mpc env)"
  by (simp add: reports_def setup_mpc_def run_simps split: sum.splits)

lemma connect_tls_reports: "reports [TlsHandshakeComplete] False (connect_tls env api_host)"
  by (cases "env_tcp env (api_host @ ascii '':443'')")
    (simp_all add: reports_def connect_tls_def run_simps split: sum.splits)

lemma exchange_reports: "reports [PlatformDataFetched] False (exchange env request)"
  by (simp add: reports_def exchange_def run_simps split: sum.splits)

lemma take_prover_reports: "reports [] False (take_prover env)"
  by (simp add: reports_def take_prover_def run_simps split: sum.splits)

lemma reveal_each_quiet: "progress_of (fst (reveal_each env what dir rs)) = [] \<and> Establish \<notin> set (fst (reveal_each env what dir rs))"
  by (induction rs) (auto simp: run_simps split: sum.splits)

lemma prove_layouts_reports: "reports [MpcProofFinalized] True (prove_layouts env select_layout)"
  using reveal_each_quiet by (auto simp: reports_def prove_layouts_def run_simps split: sum.splits)

lemma attestation_request_quiet:
  "progressing 4 (run_then (attestation_request env api_host c ts) (\<lambda>(secs, openings). run_ok (body, secs, openings)))"
  by (rule progressing_last) (simp_all add: attestation_request_def run_simps split: sum.splits prod.splits)

lemma prover_setup_progressing: "progressing 0 (prover_setup env select_layout api_host request)"
proof -
  have "progressing 0
     (run_then (setup_mpc env) (\<lambda>_.
      run_then (connect_tls env api_host) (\<lambda>_.
      run_then (exchange env request) (\<lambda>body.
      run_then (take_prover env) (\<lambda>_.
      run_then (prove_layouts env select_layout) (\<lambda>(transcript_commit, transcript_secrets).
      run_then (attestation_request env api_host transcript_commit transcript_secrets) (\<lambda>(secrets, openings).
      run_ok (body, secrets, openings))))))))" (is "progressing 0 ?r")
    by (rule progressing_then [OF setup_mpc_reports, of 1], simp_all add: all_steps_def,
        rule progressing_then [OF connect_tls_reports, of 2], simp_all add: all_steps_def,
        rule progressing_then [OF exchange_reports, of 3], simp_all add: all_steps_def,
        rule progressing_then [OF take_prover_reports, of 3], simp_all add: all_steps_def,
        rule progressing_then [OF prove_layouts_reports, of 4], simp_all add: all_steps_def)
       (auto intro: attestation_request_quiet)
  then have "progressing 0 (leave_scope ?r)" by (simp add: progressing_def leave_scope_def)
  then show ?thesis by (simp add: prover_setup_def)
qed

section \<open>What leaves the prover\<close>

text \<open>The calls a run makes: the peer it connects to, the request it sends, the ranges it reveals.\<close>

definition allowed_call ::
  "('u, 'p, 'rest, 'c, 'cfg, 'sec) prover_env \<Rightarrow> select_layout \<Rightarrow> bytes \<Rightarrow> ('u, 'rest) http_request \<Rightarrow>
   ('u, 'rest) prover_call \<Rightarrow> bool" where
  "allowed_call env select_layout api_host request c \<longleftrightarrow>
     (case c of
        ConnectTcp peer \<Rightarrow> peer = api_host @ ascii '':443''
      | SendRequest r \<Rightarrow> r = request
      | RevealRange dir r \<Rightarrow> (\<exists>sl rl. select_layout (env_sent env) (env_received env) = Inr (sl, rl) \<and>
          r \<in> set (reveal (case dir of Sent \<Rightarrow> sl | Received \<Rightarrow> rl)))
      | CloseProver \<Rightarrow> True)"

definition calls :: "'x event list \<Rightarrow> 'x set" where
  "calls es = {c. Call c \<in> set es}"

lemma calls_simps [simp]:
  "calls [] = {}" "calls (es @ fs) = calls es \<union> calls fs" "calls (drop_guards es) = {}"
  "calls (Progress p # es) = calls es" "calls (Establish # es) = calls es" "calls (Spawned t # es) = calls es"
  "calls (TookBack t # es) = calls es" "calls (Joined t # es) = calls es" "calls (Aborted t # es) = calls es"
  "calls (Awaited # es) = calls es" "calls (Call c # es) = insert c (calls es)"
  by (auto simp: calls_def)

lemma calls_run_then:
  "calls (fst (run_then r f)) = calls (fst r) \<union> (case snd r of Inl _ \<Rightarrow> {} | Inr x \<Rightarrow> calls (fst (f x)))"
  by (simp add: fst_run_then split: sum.splits)

lemmas call_simps = calls_run_then run_ok_def run_res_def run_ev_def mpc_call_def

lemma calls_setup_mpc: "calls (fst (setup_mpc env)) = {}"
  by (simp add: setup_mpc_def call_simps split: sum.splits)

lemma calls_connect_tls: "calls (fst (connect_tls env api_host)) = {ConnectTcp (api_host @ ascii '':443'')}"
  by (simp add: connect_tls_def call_simps split: sum.splits)

lemma calls_exchange: "calls (fst (exchange env request)) \<subseteq> {SendRequest request}"
  by (simp add: exchange_def call_simps split: sum.splits)

lemma calls_take_prover: "calls (fst (take_prover env)) = {}"
  by (simp add: take_prover_def call_simps split: sum.splits)

lemma calls_reveal_each: "calls (fst (reveal_each env what dir rs)) \<subseteq> RevealRange dir ` set rs"
  by (induction rs) (auto simp: call_simps split: sum.splits)

lemma calls_attestation: "calls (fst (attestation_request env api_host c ts)) \<subseteq> {CloseProver}"
  by (simp add: attestation_request_def call_simps split: sum.splits)

lemma calls_prove_layouts:
  assumes "c \<in> calls (fst (prove_layouts env select_layout))"
  shows "\<exists>dir r sl rl. c = RevealRange dir r \<and> select_layout (env_sent env) (env_received env) = Inr (sl, rl) \<and>
    r \<in> set (reveal (case dir of Sent \<Rightarrow> sl | Received \<Rightarrow> rl))"
proof (cases "select_layout (env_sent env) (env_received env)")
  case (Inl e)
  with assms show ?thesis by (simp add: prove_layouts_def call_simps)
next
  case (Inr layouts)
  obtain sl rl where l: "layouts = (sl, rl)" by (cases layouts)
  have "c \<in> calls (fst (reveal_each env ''reveal sent'' Sent (reveal sl))) \<union>
      calls (fst (reveal_each env ''reveal recv'' Received (reveal rl)))"
    using assms Inr l by (auto simp: prove_layouts_def call_simps split: sum.splits)
  then have "c \<in> RevealRange Sent ` set (reveal sl) \<union> RevealRange Received ` set (reveal rl)"
    using calls_reveal_each by blast
  then show ?thesis using Inr l by force
qed

lemma prover_setup_calls:
  assumes "c \<in> calls (fst (prover_setup env select_layout api_host request))"
  shows "allowed_call env select_layout api_host request c"
proof -
  have "c \<in> {ConnectTcp (api_host @ ascii '':443''), SendRequest request, CloseProver} \<or>
      c \<in> calls (fst (prove_layouts env select_layout))"
    using assms calls_exchange [of env request] calls_attestation
    by (fastforce simp: prover_setup_def leave_scope_def calls_run_then calls_setup_mpc calls_connect_tls
        calls_take_prover run_ok_def split: sum.splits prod.splits)
  then show ?thesis using calls_prove_layouts [of c env select_layout] by (auto simp: allowed_call_def)
qed

section \<open>What a successful session has been through\<close>

lemma collect_results_Inr: "collect_results rs = Inr xs \<longleftrightarrow> rs = map Inr xs"
  by (induction rs arbitrary: xs) (auto simp: and_then_Inr_iff Cons_eq_map_conv)

lemma mpc_err_Inr: "mpc_err what r = Inr x \<longleftrightarrow> r = Inr x"
  by (cases r) (simp_all add: mpc_err_def)

lemmas stage_simps = run_simps and_then_Inr_iff mpc_err_Inr

text \<open>
  Each stage, when it succeeds: which calls returned what, and the exact events. Nothing is left
  out: every call of the code is in one of these conditions, every event in one of these lists.
\<close>

lemma setup_mpc_ok: "snd (setup_mpc env) = Inr u \<longleftrightarrow>
    env_prover_config env = Inr () \<and> env_new_prover env = Inr () \<and>
    env_mpc_config env max_sent_data max_recv_data = Inr () \<and> env_commit env = Inr ()"
  by (auto simp: setup_mpc_def stage_simps)

lemma connect_tls_ok: "snd (connect_tls env api_host) = Inr u \<longleftrightarrow>
    env_tcp env (api_host @ ascii '':443'') = Inr () \<and> env_server_name env api_host = Inr () \<and>
    env_tls_config env = Inr () \<and> env_connect env = Inr ()"
  by (auto simp: connect_tls_def stage_simps)

lemma exchange_ok: "snd (exchange env request) = Inr body \<longleftrightarrow>
    env_http_handshake env = Inr () \<and> env_send env request = Inr 200 \<and> env_collect env = Inr body"
  by (auto simp: exchange_def stage_simps split: if_splits)

lemma take_prover_ok: "snd (take_prover env) = Inr u \<longleftrightarrow> env_join_prover env = Inr (Inr ())"
  by (auto simp: take_prover_def stage_simps)

lemma reveal_each_ok: "snd (reveal_each env what dir rs) = Inr u \<longleftrightarrow> (\<forall>r \<in> set rs. env_reveal env dir r = Inr ())"
  by (induction rs) (auto simp: stage_simps)

lemma prove_layouts_ok: "snd (prove_layouts env select_layout) = Inr (cfg, ts) \<longleftrightarrow>
    (\<exists>sl rl. select_layout (env_sent env) (env_received env) = Inr (sl, rl) \<and>
       transcript_commit_config (env_builder env) (env_new_builder env) (commit sl) (commit rl) = Inr cfg \<and>
       (\<forall>r \<in> set (reveal sl). env_reveal env Sent r = Inr ()) \<and>
       (\<forall>r \<in> set (reveal rl). env_reveal env Received r = Inr ()) \<and>
       env_prove_config env = Inr () \<and> env_prove env cfg = Inr ts)"
  by (auto simp: prove_layouts_def stage_simps reveal_each_ok)

lemma attestation_request_ok: "snd (attestation_request env api_host cfg ts) = Inr (secs, openings) \<longleftrightarrow>
    env_request_config env cfg = Inr () \<and> env_has_certs env \<and> env_has_signature env \<and> env_server_name env api_host = Inr () \<and>
    map opening_of ts = map Inr openings \<and> env_attestation_request env = Inr secs \<and> env_close env = Inr ()"
  by (auto simp: attestation_request_def stage_simps collect_results_Inr split: if_splits)

text \<open>Every stage of a session, and what it has to return.\<close>

definition went_through ::
  "('u, 'p, 'rest, 'c, 'cfg, 'sec) prover_env \<Rightarrow> select_layout \<Rightarrow> bytes \<Rightarrow> ('u, 'rest) http_request \<Rightarrow>
   bytes \<Rightarrow> 'sec \<Rightarrow> commitment_opening list \<Rightarrow> bool" where
  "went_through env select_layout api_host request body secs openings \<longleftrightarrow>
     env_prover_config env = Inr () \<and> env_new_prover env = Inr () \<and>
     env_mpc_config env max_sent_data max_recv_data = Inr () \<and> env_commit env = Inr () \<and>
     env_tcp env (api_host @ ascii '':443'') = Inr () \<and> env_server_name env api_host = Inr () \<and>
     env_tls_config env = Inr () \<and> env_connect env = Inr () \<and>
     env_http_handshake env = Inr () \<and> env_send env request = Inr 200 \<and> env_collect env = Inr body \<and>
     env_join_prover env = Inr (Inr ()) \<and>
     (\<exists>sl rl cfg ts. select_layout (env_sent env) (env_received env) = Inr (sl, rl) \<and>
        transcript_commit_config (env_builder env) (env_new_builder env) (commit sl) (commit rl) = Inr cfg \<and>
        (\<forall>r \<in> set (reveal sl). env_reveal env Sent r = Inr ()) \<and>
        (\<forall>r \<in> set (reveal rl). env_reveal env Received r = Inr ()) \<and>
        env_prove_config env = Inr () \<and> env_prove env cfg = Inr ts \<and>
        env_request_config env cfg = Inr () \<and> map opening_of ts = map Inr openings) \<and>
     env_has_certs env \<and> env_has_signature env \<and> env_attestation_request env = Inr secs \<and> env_close env = Inr ()"

text \<open>What a session does from its first await to the drop of its last guard when nothing fails.\<close>

definition complete_session ::
  "bytes \<Rightarrow> ('u, 'rest) http_request \<Rightarrow> layout \<Rightarrow> layout \<Rightarrow> ('u, 'rest) prover_call event list" where
  "complete_session api_host request sl rl =
     [Awaited, Progress MpcSetupComplete,
      Call (ConnectTcp (api_host @ ascii '':443'')), Awaited, Progress TlsHandshakeComplete,
      Spawned ProverTask, Awaited, Spawned ConnTask,
      Call (SendRequest request), Awaited, Awaited, Progress PlatformDataFetched,
      TookBack ProverTask, Joined ProverTask] @
     map (\<lambda>r. Call (RevealRange Sent r)) (reveal sl) @
     map (\<lambda>r. Call (RevealRange Received r)) (reveal rl) @
     [Awaited, Establish, Progress MpcProofFinalized, Call CloseProver, Awaited, Aborted ConnTask]"

lemma prover_setup_ok:
  "snd (prover_setup env select_layout api_host request) = Inr (body, secs, openings) \<longleftrightarrow>
   went_through env select_layout api_host request body secs openings"
  by (auto simp: prover_setup_def leave_scope_def snd_run_then and_then_Inr_iff run_ok_def setup_mpc_ok connect_tls_ok
      exchange_ok take_prover_ok prove_layouts_ok attestation_request_ok went_through_def split: prod.splits)

lemma reveal_each_events: "\<forall>r \<in> set rs. env_reveal env dir r = Inr () \<Longrightarrow>
    reveal_each env what dir rs = (map (\<lambda>r. Call (RevealRange dir r)) rs, Inr ())"
  by (induction rs) (simp_all add: run_ok_def run_ev_def mpc_call_def run_res_def mpc_err_def)

lemma prover_setup_events:
  assumes "went_through env select_layout api_host request body secs openings"
    and "select_layout (env_sent env) (env_received env) = Inr (sl, rl)"
  shows "fst (prover_setup env select_layout api_host request) = complete_session api_host request sl rl"
proof -
  from assms obtain cfg ts where c: "transcript_commit_config (env_builder env) (env_new_builder env) (commit sl) (commit rl) = Inr cfg"
      "\<forall>r \<in> set (reveal sl). env_reveal env Sent r = Inr ()" "\<forall>r \<in> set (reveal rl). env_reveal env Received r = Inr ()"
      "env_prove env cfg = Inr ts" "env_request_config env cfg = Inr ()" "collect_results (map opening_of ts) = Inr openings"
    by (auto simp: went_through_def collect_results_Inr)
  have quiet: "guarded (map (\<lambda>r. Call (RevealRange dir r)) rs @ es) = guarded es"
    "held (map (\<lambda>r. Call (RevealRange dir r)) rs @ es) = held es" for dir rs and es :: "('a, 'c) prover_call event list"
    by (induction rs) (auto simp: held_def fun_eq_iff)
  note reveals = reveal_each_events [OF c(2)] reveal_each_events [OF c(3)]
  let ?es = "complete_session api_host request sl rl"
  have "fst (run_then (setup_mpc env) (\<lambda>_.
      run_then (connect_tls env api_host) (\<lambda>_.
      run_then (exchange env request) (\<lambda>body.
      run_then (take_prover env) (\<lambda>_.
      run_then (prove_layouts env select_layout) (\<lambda>(transcript_commit, transcript_secrets).
      run_then (attestation_request env api_host transcript_commit transcript_secrets) (\<lambda>(secrets, openings).
      run_ok (body, secrets, openings)))))))) = butlast ?es"
    using assms(1,2) c
    by (simp add: went_through_def setup_mpc_def connect_tls_def exchange_def take_prover_def prove_layouts_def
        attestation_request_def run_simps mpc_err_def reveals complete_session_def butlast_append)
  moreover have "drop_guards (butlast ?es) = [Aborted ConnTask]"
    by (simp add: drop_guards_def complete_session_def butlast_append quiet) (auto simp: held_def)
  moreover have "butlast ?es @ [Aborted ConnTask] = ?es" by (simp add: complete_session_def butlast_append)
  ultimately show ?thesis by (simp add: prover_setup_def leave_scope_def)
qed

lemma prover_went_through:
  assumes "prover_generic env select_layout request (Inr res :: session_error + ('sec, 'io) prover_result)"
  shows "\<exists>api_host request'. prover_prepare env request = Inr (api_host, request') \<and>
    went_through env select_layout api_host request' (response_body res) (secrets res) (commitment_openings res)"
proof -
  from assms obtain api_host request' s x
    where p: "prover_prepare env request = Inr (api_host, request')"
      and s: "reach (prover_setup env select_layout api_host request') s" "phase_of s = Returned (Inr x)"
      and r: "res = prover_result_of x"
    by (elim prover_generic_Inr) blast
  obtain body secs ops io where x: "x = ((body, secs, ops), io)" by (cases x) auto
  have "snd (prover_setup env select_layout api_host request') = Inr (body, secs, ops)"
    using returned_result [OF s(1)] s(2) by (simp add: x)
  with p r show ?thesis by (auto simp: prover_result_of_def x prover_setup_ok)
qed

text \<open>And the other way round: where every stage succeeds, some run of the session returns.\<close>

lemma prover_returns:
  assumes "prover_prepare env request = Inr (api_host, request')"
    and "went_through env select_layout api_host request' (response_body res) (secrets res) (commitment_openings res)"
  shows "prover_generic env select_layout request (Inr res :: session_error + ('sec, 'io) prover_result)"
proof -
  let ?x = "(response_body res, secrets res, commitment_openings res)"
  obtain s where "reach (prover_setup env select_layout api_host request') s" "phase_of s = Returned (Inr (?x, prover_io res))"
    using reach_returns prover_setup_ok assms(2) by metis
  from prover_generic.returned [OF assms(1) this] show ?thesis by (cases res) (simp add: prover_result_of_def)
qed

section \<open>Tasks\<close>

text \<open>The prover task is the only one that is taken back, and it is joined at once.\<close>

lemma stages_join_at_once:
  "joins_at_once (fst (setup_mpc env))" "joins_at_once (fst (connect_tls env api_host))"
  "joins_at_once (fst (exchange env request))" "joins_at_once (fst (take_prover env))"
  "joins_at_once (fst (reveal_each env what dir rs))" "joins_at_once (fst (prove_layouts env select_layout))"
  "joins_at_once (fst (attestation_request env api_host cfg ts))"
proof -
  show reveal: "joins_at_once (fst (reveal_each env what dir rs))" for what dir rs
    by (induction rs) (auto simp: run_simps split: sum.splits)
  show "joins_at_once (fst (prove_layouts env select_layout))"
    unfolding prove_layouts_def
    by (auto simp: run_simps intro!: joins_at_once_append reveal split: sum.splits prod.splits)
qed (simp_all add: setup_mpc_def connect_tls_def exchange_def take_prover_def attestation_request_def run_simps split: sum.splits)

lemma setup_joins_at_once:
  "joins_at_once (fst
     (run_then (setup_mpc env) (\<lambda>_.
      run_then (connect_tls env api_host) (\<lambda>_.
      run_then (exchange env request) (\<lambda>body.
      run_then (take_prover env) (\<lambda>_.
      run_then (prove_layouts env select_layout) (\<lambda>(transcript_commit, transcript_secrets).
      run_then (attestation_request env api_host transcript_commit transcript_secrets) (\<lambda>(secrets, openings).
      run_ok (body, secrets, openings)))))))))"
  by (intro joins_at_once_then stages_join_at_once)
     (auto simp: run_ok_def intro!: joins_at_once_then stages_join_at_once split: prod.splits)

section \<open>A sample session\<close>

text \<open>A URI is an optional host and a path.\<close>

definition sample_uri :: "(bytes option \<times> bytes, bytes) uri_ops" where
  "sample_uri = \<lparr>uri_host = fst, uri_path_and_query = (\<lambda>u. Some (snd u)), uri_from_path = (\<lambda>p. Inr (None, p)),
                 uri_default = (None, [])\<rparr>"

lemma sample_uri_laws: "uri_laws sample_uri"
  by (simp add: uri_laws_def sample_uri_def)

definition sample_request :: "(bytes option \<times> bytes, unit) http_request" where
  "sample_request = \<lparr>req_uri = (Some (ascii ''api.x.com''), ascii ''/me''), req_rest = ()\<rparr>"

definition sample_select :: select_layout where
  "sample_select sent recv =
     Inr (\<lparr>reveal = [rng 0 2], commit = [rng 2 4]\<rparr>, \<lparr>reveal = [], commit = [rng 0 4]\<rparr>)"

definition sample_env :: "(bytes option \<times> bytes, bytes, unit, list_builder, (direction \<times> span \<times> hash_alg_id) list, nat) prover_env" where
  "sample_env = \<lparr>
     env_uri = sample_uri, env_prover_config = Inr (), env_new_prover = Inr (), env_mpc_config = (\<lambda>_ _. Inr ()),
     env_commit = Inr (), env_tcp = (\<lambda>_. Inr ()), env_server_name = (\<lambda>_. Inr ()), env_tls_config = Inr (),
     env_connect = Inr (), env_http_handshake = Inr (), env_send = (\<lambda>_. Inr 200), env_status_text = (\<lambda>_. []),
     env_collect = Inr [1, 2], env_join_prover = Inr (Inr ()), env_sent = [1, 2, 3, 4], env_received = [5, 6, 7, 8],
     env_builder = sample_builder, env_new_builder = (OtherAlg 2, []), env_reveal = (\<lambda>_ _. Inr ()),
     env_prove_config = Inr (), env_prove = (\<lambda>cfg. Inr (map (\<lambda>(dir, r, _). HashSecret dir [r] (replicate 16 9)) cfg)),
     env_request_config = (\<lambda>_. Inr ()), env_has_certs = True, env_has_signature = True,
     env_attestation_request = Inr 3, env_close = Inr ()\<rparr>"

definition sample_wire_request :: "(bytes option \<times> bytes, unit) http_request" where
  "sample_wire_request = \<lparr>req_uri = (None, ascii ''/me''), req_rest = ()\<rparr>"

definition sample_openings :: "commitment_opening list" where
  "sample_openings = [\<lparr>op_direction = Sent, op_ranges = [rng 2 4], op_blinder = replicate 16 9\<rparr>,
                      \<lparr>op_direction = Received, op_ranges = [rng 0 4], op_blinder = replicate 16 9\<rparr>]"

lemma sample_prepare: "prover_prepare sample_env sample_request = Inr (ascii ''api.x.com'', sample_wire_request)"
  by (simp add: prover_prepare_def origin_form_def sample_env_def sample_uri_def sample_request_def
      sample_wire_request_def mpc_err_def)

lemma sample_setup:
  "snd (prover_setup sample_env sample_select (ascii ''api.x.com'') sample_wire_request) = Inr ([1, 2], 3, sample_openings)"
  by (simp add: prover_setup_def leave_scope_def run_simps setup_mpc_def connect_tls_def exchange_def take_prover_def
      prove_layouts_def attestation_request_def sample_env_def sample_select_def mpc_err_def
      transcript_commit_config_def sample_builder_def Let_def sample_openings_def)

lemma sample_session_returns:
  "prover_generic sample_env sample_select sample_request
     (Inr \<lparr>response_body = [1, 2], secrets = 3, commitment_openings = sample_openings, prover_io = (7 :: nat)\<rparr>)"
proof -
  obtain s :: "((bytes option \<times> bytes, unit) prover_call, bytes \<times> nat \<times> commitment_opening list, nat) race"
    where "reach (prover_setup sample_env sample_select (ascii ''api.x.com'') sample_wire_request) s"
      "phase_of s = Returned (Inr (([1, 2], 3, sample_openings), 7))"
    by (rule reach_returns [OF sample_setup])
  from prover_generic.returned [OF sample_prepare this] show ?thesis by (simp add: prover_result_of_def)
qed

section \<open>Properties\<close>


text \<open>C6. No task outlives a returned session: the driver has ended or was aborted, and every task
  setup spawned has been joined or aborted. One case only is left, and it never hides behind a
  result: the driver ended while the prover task, already out of its guard, was being
  joined, and the function returned that early end as its error.\<close>
theorem returned_leaks_no_task:
  assumes "reach (prover_setup env select_layout api_host request) s" and "phase_of s = Returned x"
  shows "driver_of s \<noteq> DriverRuns \<and>
    ((\<forall>t. \<not> running (performed s) t) \<or>
     (\<exists>t es rest r. todo s = Joined t # rest \<and> performed s = es @ [TookBack t] @ drop_guards (es @ [TookBack t]) \<and>
        \<not> established s \<and> driver_of s = DriverEnded r \<and> x = Inl (driver_finished_early r)))"
proof
  show "driver_of s \<noteq> DriverRuns" using reach_invs(2) [OF assms(1)] assms(2) by (simp add: driver_inv_def)
  show "(\<forall>t. \<not> running (performed s) t) \<or>
     (\<exists>t es rest r. todo s = Joined t # rest \<and> performed s = es @ [TookBack t] @ drop_guards (es @ [TookBack t]) \<and>
        \<not> established s \<and> driver_of s = DriverEnded r \<and> x = Inl (driver_finished_early r))"
    using returned_still_running [OF assms(1) [unfolded prover_setup_def] assms(2)] setup_joins_at_once
    by blast
qed

theorem returned_leaks_no_task_witness:
  "\<exists>s :: ((bytes option \<times> bytes, unit) prover_call, bytes \<times> nat \<times> commitment_opening list, nat) race.
     reach (prover_setup sample_env sample_select (ascii ''api.x.com'') sample_wire_request) s \<and>
     phase_of s = Returned (Inr (([1, 2], 3, sample_openings), 7)) \<and> (\<forall>t. \<not> running (performed s) t)"
proof -
  obtain s :: "((bytes option \<times> bytes, unit) prover_call, bytes \<times> nat \<times> commitment_opening list, nat) race"
    where s: "reach (prover_setup sample_env sample_select (ascii ''api.x.com'') sample_wire_request) s"
      "phase_of s = Returned (Inr (([1, 2], 3, sample_openings), 7))"
    by (rule reach_returns [OF sample_setup])
  from returned_leaks_no_task [OF s] have "\<forall>t. \<not> running (performed s) t" by blast
  with s show ?thesis by blast
qed

text \<open>C7. Nothing leaves the prover that was not chosen: in every run, also one that fails half-way,
  the only peer is the request's own host, the only request sent is the prepared one, which
  is in origin form with the caller's path and the rest of the request unchanged, and every
  revealed range is a reveal of the layouts the caller selected.\<close>
theorem prover_sends_only_the_chosen:
  assumes "uri_laws (env_uri env)" and "prover_prepare env request = Inr (api_host, request')"
    and "c \<in> calls (fst (prover_setup env select_layout api_host request'))"
  shows "allowed_call env select_layout api_host request' c \<and>
    uri_host (env_uri env) (req_uri request) = Some api_host \<and>
    uri_host (env_uri env) (req_uri request') = None \<and> req_rest request' = req_rest request \<and>
    (uri_path_and_query (env_uri env) (req_uri request) = None \<or>
     uri_path_and_query (env_uri env) (req_uri request') = uri_path_and_query (env_uri env) (req_uri request))"
  using assms(1,2) prover_setup_calls [OF assms(3)]
  by (auto simp: prover_prepare_def origin_form_def and_then_Inr_iff mpc_err_def uri_laws_def split: option.splits)

theorem prover_sends_only_the_chosen_witness:
  "uri_host sample_uri (req_uri sample_wire_request) = None"
proof -
  have "ConnectTcp (ascii ''api.x.com'' @ ascii '':443'') \<in>
      calls (fst (prover_setup sample_env sample_select (ascii ''api.x.com'') sample_wire_request))"
    by (simp add: prover_setup_def leave_scope_def calls_run_then calls_setup_mpc calls_connect_tls
        setup_mpc_def run_simps sample_env_def mpc_err_def)
  moreover have "uri_laws (env_uri sample_env)" by (simp add: sample_env_def sample_uri_laws)
  ultimately show ?thesis
    using prover_sends_only_the_chosen [OF _ sample_prepare] by (simp add: sample_env_def)
qed

text \<open>C23. Progress is reported in order and honestly: in every run the reported steps are the first
  steps of the four, the session counts as established exactly when the last one is
  reported, and a successful setup has reported all four.\<close>
theorem prover_progress_in_order:
  "\<exists>k \<le> 4. progress_of (fst (prover_setup env select_layout api_host request)) = take k all_steps \<and>
     (Establish \<in> set (fst (prover_setup env select_layout api_host request))) = (k = 4) \<and>
     (k = 4 \<or> (\<exists>e. snd (prover_setup env select_layout api_host request) = Inl e))"
proof -
  obtain k where k: "k \<le> 4" "progress_of (fst (prover_setup env select_layout api_host request)) = take k all_steps"
      "(Establish \<in> set (fst (prover_setup env select_layout api_host request))) = (k = 4)"
      "(\<exists>x. snd (prover_setup env select_layout api_host request) = Inr x) \<longrightarrow> k = 4"
    using prover_setup_progressing [of env select_layout api_host request] by (auto simp: progressing_def)
  then show ?thesis
    by (intro exI [of _ k]) (cases "snd (prover_setup env select_layout api_host request)", auto)
qed

end
