(* ===== verification/Notary.thy ===== *)
theory Notary
  imports Race
begin

text \<open>
  \<open>verifier\<close> of \<open>libid-tlsn/src/session.rs\<close>, the notary's side. What \<open>tlsn\<close> returned is a field
  of \<open>verifier_env\<close>; the setup future is a run of \<open>Race\<close>. Lemmas: what has been checked before a
  session is accepted, and what a successful session returns.
\<close>

section \<open>What the session calls\<close>

datatype commit_start = MpcStart nat nat | OtherStart

datatype verifier_call = RejectWith bytes | AcceptMpc | AcceptProof | CloseVerifier

record prove_request =
  pr_server_identity :: bool
  pr_commit :: "(direction \<times> nat option) list option"

record 'name verifier_output =
  vo_server_name :: "'name option"
  vo_transcript :: "partial_transcript option"
  vo_commitments :: "transcript_commitment list"

record ('tls, 'name) verifier_env =
  v_config :: "bytes + unit"
  v_new :: "bytes + unit"
  v_commit :: "bytes + commit_start"
  v_reject :: "bytes \<Rightarrow> bytes + unit"
  v_accept :: "bytes + unit"
  v_run :: "bytes + unit"
  v_tls :: 'tls
  v_tls_sent :: "'tls \<Rightarrow> tls_record list"
  v_tls_recv :: "'tls \<Rightarrow> tls_record list"
  v_verify :: "bytes + prove_request"
  v_direction_text :: "direction \<Rightarrow> bytes"
  v_accept_proof :: "bytes + 'name verifier_output"
  v_close :: "bytes + unit"

section \<open>The stages of setup\<close>

definition reject_with :: "('tls, 'name) verifier_env \<Rightarrow> string \<Rightarrow> bytes \<Rightarrow> (verifier_call, 'a) run" where
  "reject_with env reason detail =
     run_then (run_ev (Call (RejectWith (ascii reason)))) (\<lambda>_.
     run_then (await_call ''reject'' (v_reject env (ascii reason))) (\<lambda>_.
     run_res (Inl (MpcTlsFailed detail))))"

definition accept_session :: "('tls, 'name) verifier_env \<Rightarrow> (verifier_call, unit) run" where
  "accept_session env =
     run_then (mpc_call ''verifier config'' (v_config env)) (\<lambda>_.
     run_then (mpc_call ''new verifier'' (v_new env)) (\<lambda>_.
     run_then (await_call ''verifier commit'' (v_commit env)) (\<lambda>start.
     case start of
       MpcStart sent_limit recv_limit \<Rightarrow>
         if sent_limit > max_sent_data \<or> recv_limit > max_recv_data
         then reject_with env ''data limits exceeded'' (ascii ''data limits exceeded'')
         else run_then (run_ev (Call AcceptMpc)) (\<lambda>_. await_call ''accept'' (v_accept env))
     | OtherStart \<Rightarrow> run_res (Inl (MpcTlsFailed (ascii ''expected MPC-TLS protocol''))))))"

definition overrun_of :: "('tls, 'name) verifier_env \<Rightarrow> prove_request \<Rightarrow> (direction \<times> nat \<times> nat) option" where
  "overrun_of env request =
     Option.bind (pr_commit request) (\<lambda>cs. commitment_past_the_session cs
       (application_data_len (v_tls_sent env (v_tls env))) (application_data_len (v_tls_recv env (v_tls env))))"

definition check_request :: "('tls, 'name) verifier_env \<Rightarrow> (verifier_call, unit) run" where
  "check_request env =
     run_then (await_call ''run'' (v_run env)) (\<lambda>_.
     run_then (run_ev Establish) (\<lambda>_.
     run_then (await_call ''verify'' (v_verify env)) (\<lambda>request.
     if \<not> pr_server_identity request
     then reject_with env ''expecting server identity'' (ascii ''no server identity'')
     else case overrun_of env request of
       Some (dir, e, len) \<Rightarrow>
         reject_with env ''commitment range out of bounds''
           (ascii ''a '' @ v_direction_text env dir @ ascii '' commitment ends at '' @ ascii (decimal e) @
            ascii '', past the '' @ ascii (decimal len) @ ascii '' bytes this session carried'')
     | None \<Rightarrow> run_ok ())))"

definition accept_proof ::
  "('tls, 'name) verifier_env \<Rightarrow> (verifier_call, 'name \<times> partial_transcript \<times> 'tls \<times> transcript_commitment list) run" where
  "accept_proof env =
     run_then (run_ev (Call AcceptProof)) (\<lambda>_.
     run_then (await_call ''accept verify'' (v_accept_proof env)) (\<lambda>output.
     run_then (run_res (ok_or (vo_server_name output) (MpcTlsFailed (ascii ''server name not revealed'')))) (\<lambda>server_name.
     run_then (run_res (ok_or (vo_transcript output) (MpcTlsFailed (ascii ''transcript not revealed'')))) (\<lambda>transcript.
     run_then (run_ev (Call CloseVerifier)) (\<lambda>_.
     run_then (await_call ''verifier close'' (v_close env)) (\<lambda>_.
     run_ok (server_name, transcript, v_tls env, vo_commitments output)))))))"

definition verifier_setup ::
  "('tls, 'name) verifier_env \<Rightarrow> (verifier_call, 'name \<times> partial_transcript \<times> 'tls \<times> transcript_commitment list) run" where
  "verifier_setup env = leave_scope
     (run_then (accept_session env) (\<lambda>_. run_then (check_request env) (\<lambda>_. accept_proof env)))"

definition verifier_result_of ::
  "('name \<times> partial_transcript \<times> 'tls \<times> transcript_commitment list) \<times> 'io \<Rightarrow> ('name, 'tls, 'io) verifier_result" where
  "verifier_result_of x =
     (case x of ((server_name, transcript, tls, commitments), io) \<Rightarrow>
        \<lparr>vr_partial_transcript = transcript, vr_server_name = server_name, vr_tls_transcript = tls,
         vr_transcript_commitments = commitments, vr_io = io\<rparr>)"

inductive verifier :: "('tls, 'name) verifier_env \<Rightarrow> session_error + ('name, 'tls, 'io) verifier_result \<Rightarrow> bool" for env where
  failed: "reach (verifier_setup env)
       (s :: (verifier_call, 'name \<times> partial_transcript \<times> 'tls \<times> transcript_commitment list, 'io) race) \<Longrightarrow>
     phase_of s = Returned (Inl e) \<Longrightarrow> verifier env (Inl e)"
| returned: "reach (verifier_setup env) s \<Longrightarrow> phase_of s = Returned (Inr x) \<Longrightarrow> verifier env (Inr (verifier_result_of x))"

inductive_cases verifier_Inr: "verifier env (Inr res)"

section \<open>What has been checked\<close>

definition session_ok :: "('tls, 'name) verifier_env \<Rightarrow> bool" where
  "session_ok env \<longleftrightarrow>
     (\<exists>sent_limit recv_limit. v_commit env = Inr (MpcStart sent_limit recv_limit) \<and>
        sent_limit \<le> max_sent_data \<and> recv_limit \<le> max_recv_data)"

definition request_ok :: "('tls, 'name) verifier_env \<Rightarrow> bool" where
  "request_ok env \<longleftrightarrow>
     (\<exists>request. v_verify env = Inr request \<and> pr_server_identity request \<and>
        list_all (\<lambda>(dir, end_at). case end_at of None \<Rightarrow> True | Some e \<Rightarrow>
            e \<le> dir_len (application_data_len (v_tls_sent env (v_tls env))) (application_data_len (v_tls_recv env (v_tls env))) dir)
          (case pr_commit request of None \<Rightarrow> [] | Some cs \<Rightarrow> cs))"

lemma snd_reject: "snd (reject_with env reason detail) = Inr x \<longleftrightarrow> False"
  by (simp add: reject_with_def run_simps and_then_Inr_iff)

lemma reject_no_accept: "Call AcceptProof \<notin> set (fst (reject_with env reason detail))"
  by (simp add: reject_with_def run_simps split: sum.splits)

lemma mpc_err_Inr_iff [simp]: "mpc_err what r = Inr x \<longleftrightarrow> r = Inr x"
  by (cases r) (simp_all add: mpc_err_def)

lemma snd_accept_session: "snd (accept_session env) = Inr x \<Longrightarrow> session_ok env"
proof -
  assume ok: "snd (accept_session env) = Inr x"
  then obtain start where start: "v_commit env = Inr start"
    by (auto simp: accept_session_def run_simps and_then_Inr_iff)
  show ?thesis
  proof (cases start)
    case (MpcStart sent_limit recv_limit)
    with ok start show ?thesis
      by (cases "sent_limit > max_sent_data \<or> recv_limit > max_recv_data")
         (auto simp: accept_session_def session_ok_def run_simps and_then_Inr_iff snd_reject)
  next
    case OtherStart
    with ok start show ?thesis by (auto simp: accept_session_def run_simps and_then_Inr_iff)
  qed
qed

lemma accept_session_no_proof: "Call AcceptProof \<notin> set (fst (accept_session env))"
  using reject_no_accept
  by (auto simp: accept_session_def run_simps split: sum.splits commit_start.splits)

lemma overrun_None: "overrun_of env request = None \<Longrightarrow>
    list_all (\<lambda>(dir, end_at). case end_at of None \<Rightarrow> True | Some e \<Rightarrow>
        e \<le> dir_len (application_data_len (v_tls_sent env (v_tls env))) (application_data_len (v_tls_recv env (v_tls env))) dir)
      (case pr_commit request of None \<Rightarrow> [] | Some cs \<Rightarrow> cs)"
  by (cases "pr_commit request")
     (auto simp: overrun_of_def commitment_past_None list_all_iff split: option.split)

lemma snd_check_request: "snd (check_request env) = Inr x \<Longrightarrow> request_ok env"
proof -
  assume "snd (check_request env) = Inr x"
  then obtain request where r: "v_verify env = Inr request" "pr_server_identity request"
      "snd (case overrun_of env request of None \<Rightarrow> run_ok () | Some (dir, e, len) \<Rightarrow>
         reject_with env ''commitment range out of bounds''
           (ascii ''a '' @ v_direction_text env dir @ ascii '' commitment ends at '' @ ascii (decimal e) @
            ascii '', past the '' @ ascii (decimal len) @ ascii '' bytes this session carried'')) = Inr x"
    by (auto simp: check_request_def run_simps and_then_Inr_iff snd_reject split: if_splits)
  from r(3) have "overrun_of env request = None"
    by (cases "overrun_of env request") (auto simp: snd_reject)
  with r show ?thesis using overrun_None unfolding request_ok_def by blast
qed

lemma check_request_no_proof: "Call AcceptProof \<notin> set (fst (check_request env))"
  using reject_no_accept
  by (auto simp: check_request_def run_simps split: sum.splits option.splits)

lemma drop_guards_no_call: "Call c \<notin> set (drop_guards es)"
  by (auto simp: drop_guards_def)

lemma snd_accept_proof: "snd (accept_proof env) = Inr (server_name, transcript, tls, commitments) \<Longrightarrow>
    \<exists>output. v_accept_proof env = Inr output \<and> vo_server_name output = Some server_name \<and>
      vo_transcript output = Some transcript \<and> vo_commitments output = commitments \<and> tls = v_tls env"
  by (auto simp: accept_proof_def run_simps and_then_Inr_iff mpc_err_def)

lemma verifier_checked:
  assumes "verifier env (Inr res :: session_error + ('name, 'tls, 'io) verifier_result)"
  shows "session_ok env \<and> request_ok env \<and>
    (\<exists>output. v_accept_proof env = Inr output \<and> vo_server_name output = Some (vr_server_name res) \<and>
       vo_transcript output = Some (vr_partial_transcript res) \<and>
       vo_commitments output = vr_transcript_commitments res \<and> vr_tls_transcript res = v_tls env)"
proof -
  from assms obtain s x where s: "reach (verifier_setup env) s" "phase_of s = Returned (Inr x)"
      and r: "res = verifier_result_of x"
    by (elim verifier_Inr) blast
  obtain n t tls cs io where x: "x = ((n, t, tls, cs), io)" by (cases x) auto
  have "snd (verifier_setup env) = Inr (n, t, tls, cs)" using returned_result [OF s(1)] s(2) by (simp add: x)
  then obtain y z where "snd (accept_session env) = Inr y" "snd (check_request env) = Inr z"
      "snd (accept_proof env) = Inr (n, t, tls, cs)"
    by (auto simp: verifier_setup_def leave_scope_def run_simps and_then_Inr_iff)
  from snd_accept_session [OF this(1)] snd_check_request [OF this(2)] snd_accept_proof [OF this(3)]
  show ?thesis by (auto simp: r x verifier_result_of_def)
qed

section \<open>A sample session\<close>

definition sample_verifier :: "(nat, bytes) verifier_env" where
  "sample_verifier = \<lparr>
     v_config = Inr (), v_new = Inr (), v_commit = Inr (MpcStart 4096 32768), v_reject = (\<lambda>_. Inr ()),
     v_accept = Inr (), v_run = Inr (), v_tls = 0,
     v_tls_sent = (\<lambda>_. [\<lparr>rec_typ = OtherContent, rec_ciphertext = replicate 9 0\<rparr>, \<lparr>rec_typ = ApplicationData, rec_ciphertext = replicate 10 0\<rparr>]),
     v_tls_recv = (\<lambda>_. [\<lparr>rec_typ = ApplicationData, rec_ciphertext = replicate 6 0\<rparr>]),
     v_verify = Inr \<lparr>pr_server_identity = True, pr_commit = Some [(Sent, Some 10), (Received, Some 6), (Sent, None)]\<rparr>,
     v_direction_text = (\<lambda>_. []),
     v_accept_proof = Inr \<lparr>vo_server_name = Some (ascii ''api.x.com''), vo_transcript = Some (obs_transcript sample_session),
                           vo_commitments = obs_commitments sample_session\<rparr>,
     v_close = Inr ()\<rparr>"

lemma sample_verifier_setup: "snd (verifier_setup sample_verifier) =
    Inr (ascii ''api.x.com'', obs_transcript sample_session, 0, obs_commitments sample_session)"
  by (simp add: verifier_setup_def leave_scope_def accept_session_def check_request_def accept_proof_def
      run_simps mpc_err_def sample_verifier_def max_sent_data_def max_recv_data_def overrun_of_def application_data_len_def)

lemma sample_verifier_returns:
  "verifier sample_verifier (Inr \<lparr>vr_partial_transcript = obs_transcript sample_session, vr_server_name = ascii ''api.x.com'',
     vr_tls_transcript = 0, vr_transcript_commitments = obs_commitments sample_session, vr_io = (7 :: nat)\<rparr>)"
proof -
  obtain s :: "(verifier_call, bytes \<times> partial_transcript \<times> nat \<times> transcript_commitment list, nat) race"
    where "reach (verifier_setup sample_verifier) s"
      "phase_of s = Returned (Inr ((ascii ''api.x.com'', obs_transcript sample_session, 0, obs_commitments sample_session), 7))"
    by (rule reach_returns [OF sample_verifier_setup])
  from verifier.returned [OF this] show ?thesis by (simp add: verifier_result_of_def)
qed

section \<open>Properties\<close>

text \<open>C8. The proof is never accepted over an unchecked session: in every run, also one that fails
  later, \<open>accept\<close> is called only after the data limits were within the maxima, the prover
  offered its server identity, and every committed range ends inside the application data
  its direction carried.\<close>
theorem accept_only_checked:
  assumes "Call AcceptProof \<in> set (fst (verifier_setup env))"
  shows "session_ok env \<and> request_ok env"
proof -
  have "\<exists>x y. snd (accept_session env) = Inr x \<and> snd (check_request env) = Inr y"
    using assms accept_session_no_proof [of env] check_request_no_proof [of env]
    by (auto simp: drop_guards_no_call verifier_setup_def leave_scope_def fst_run_then split: sum.splits)
  then show ?thesis using snd_accept_session snd_check_request by blast
qed

theorem accept_only_checked_witness:
  "request_ok sample_verifier"
proof -
  have "Call AcceptProof \<in> set (fst (verifier_setup sample_verifier))"
    by (simp add: verifier_setup_def leave_scope_def accept_session_def check_request_def accept_proof_def
        run_simps mpc_err_def sample_verifier_def max_sent_data_def max_recv_data_def overrun_of_def application_data_len_def)
  from accept_only_checked [OF this] show ?thesis by blast
qed

text \<open>C30. What the notary returns is what the verified session output: a server name and a transcript
  that were revealed, the output's commitments, and the stream of a driver that ended well;
  and that session had passed every check.\<close>
theorem verifier_success:
  assumes "verifier env (Inr res :: session_error + ('name, 'tls, 'io) verifier_result)"
  shows "session_ok env \<and> request_ok env \<and>
    (\<exists>output. v_accept_proof env = Inr output \<and> vo_server_name output = Some (vr_server_name res) \<and>
       vo_transcript output = Some (vr_partial_transcript res) \<and>
       vo_commitments output = vr_transcript_commitments res \<and> vr_tls_transcript res = v_tls env)"
  using assms by (rule verifier_checked)

theorem verifier_success_witness:
  "session_ok sample_verifier \<and> (\<exists>output. v_accept_proof sample_verifier = Inr output)"
  using verifier_success [OF sample_verifier_returns] by blast

end
