(* ===== verification/Crypto.thy ===== *)
theory Crypto
  imports Rust_Str
begin

text \<open>
  \<open>libid-crypto/src/lib.rs\<close>: EIP-191 signing and recovery, addresses and key parsing. The curve
  operations of \<open>k256\<close>, the random generator, the \<open>hex\<close> crate and Keccak are arguments, with
  \<open>ecdsa_laws\<close> what \<open>k256\<close> documents of them. Lemmas: a signature recovers to its key under
  both conventions for \<open>v\<close>, and what the recovery refuses.
\<close>

section \<open>Errors and parameters\<close>

datatype crypto_error = CryptoFailed (failed_op: bytes) (failed_detail: bytes)

record ('sk, 'vk, 'sig, 'rid) curve =
  verifying_key :: "'sk \<Rightarrow> 'vk"
  curve_sign_prehash :: "'sk \<Rightarrow> bytes \<Rightarrow> bytes + ('sig \<times> 'rid)"
  curve_recover :: "bytes \<Rightarrow> 'sig \<Rightarrow> 'rid \<Rightarrow> bytes + 'vk"
  sig_to_bytes :: "'sig \<Rightarrow> bytes"
  sig_from_slice :: "bytes \<Rightarrow> bytes + 'sig"
  rid_to_byte :: "'rid \<Rightarrow> byte"
  rid_from_byte :: "byte \<Rightarrow> 'rid option"
  point_uncompressed :: "'vk \<Rightarrow> bytes"
  point_compressed :: "'vk \<Rightarrow> bytes"
  key_from_slice :: "bytes \<Rightarrow> bytes + 'sk"

text \<open>
  What the code relies on: a signature made over a hash recovers to the signing key, survives
  its 64-byte form, and a recovery id is one of the bytes 0 to 3.
\<close>

definition ecdsa_laws :: "('sk, 'vk, 'sig, 'rid) curve \<Rightarrow> bool" where
  "ecdsa_laws k \<longleftrightarrow>
     (\<forall>sk h sig r. curve_sign_prehash k sk h = Inr (sig, r) \<longrightarrow> curve_recover k h sig r = Inr (verifying_key k sk)) \<and>
     (\<forall>sig. length (sig_to_bytes k sig) = 64 \<and> sig_from_slice k (sig_to_bytes k sig) = Inr sig) \<and>
     (\<forall>r. rid_to_byte k r \<le> 3 \<and> rid_from_byte k (rid_to_byte k r) = Some r) \<and>
     (\<forall>b. (rid_from_byte k b = None) = (3 < b))"

section \<open>Operations\<close>

text \<open>
  The hasher of \<open>tiny_keccak\<close>, whose \<open>finalize\<close> fills the buffer it is given. The other
  definitions take the hash as one argument, a function with the property of this lemma.
\<close>

record 'h hasher =
  hasher_v256 :: 'h
  hasher_update :: "'h \<Rightarrow> bytes \<Rightarrow> 'h"
  hasher_finalize :: "'h \<Rightarrow> bytes \<Rightarrow> bytes"

definition keccak256_of :: "'h hasher \<Rightarrow> bytes \<Rightarrow> bytes" where
  "keccak256_of tk data = hasher_finalize tk (hasher_update tk (hasher_v256 tk) data) (replicate 32 0)"

lemma length_keccak256_of:
  "(\<And>h buffer. length (hasher_finalize tk h buffer) = length buffer) \<Longrightarrow> length (keccak256_of tk data) = 32"
  by (simp add: keccak256_of_def)

definition generate_keypair :: "('sk, 'vk, 'sig, 'rid) curve \<Rightarrow> ('rng \<Rightarrow> 'sk \<times> 'rng) \<Rightarrow> 'rng \<Rightarrow> ('sk \<times> 'vk) \<times> 'rng" where
  "generate_keypair k random os_rng = (let (sk, os_rng') = random os_rng in ((sk, verifying_key k sk), os_rng'))"

definition pubkey_to_eth_address :: "('sk, 'vk, 'sig, 'rid) curve \<Rightarrow> (bytes \<Rightarrow> bytes) \<Rightarrow> 'vk \<Rightarrow> bytes" where
  "pubkey_to_eth_address k keccak256 key = drop 12 (keccak256 (drop 1 (point_uncompressed k key)))"

definition pubkey_to_hex :: "('sk, 'vk, 'sig, 'rid) curve \<Rightarrow> (bytes \<Rightarrow> bytes) \<Rightarrow> 'vk \<Rightarrow> bytes" where
  "pubkey_to_hex k hex_encode key = hex_encode (point_compressed k key)"

text \<open>The literal \<open>b"\x19Ethereum Signed Message:\n32"\<close>.\<close>

definition eth_prefix :: bytes where
  "eth_prefix = [0x19] @ ascii ''Ethereum Signed Message:'' @ [0x0A] @ ascii ''32''"

definition sign_eth_claim ::
  "('sk, 'vk, 'sig, 'rid) curve \<Rightarrow> (bytes \<Rightarrow> bytes) \<Rightarrow> 'sk \<Rightarrow> bytes \<Rightarrow> crypto_error + bytes" where
  "sign_eth_claim k keccak256 key digest =
     (let eth_hash = keccak256 (eth_prefix @ digest) in
      and_then (map_err (CryptoFailed (ascii ''EIP-191 sign'')) (curve_sign_prehash k key eth_hash))
        (\<lambda>(sig, recid). Inr (sig_to_bytes k sig @ [rid_to_byte k recid + 27])))"

definition strip_offset :: "byte \<Rightarrow> byte" where
  "strip_offset v_raw = (if v_raw \<ge> 27 then v_raw - 27 else v_raw)"

definition recover_eth_claim ::
  "('sk, 'vk, 'sig, 'rid) curve \<Rightarrow> (bytes \<Rightarrow> bytes) \<Rightarrow> bytes \<Rightarrow> bytes \<Rightarrow> crypto_error + 'vk" where
  "recover_eth_claim k keccak256 signature digest =
     (if length signature \<noteq> 65
      then Inl (CryptoFailed (ascii ''verify signature'') (ascii ''signature must be 65 bytes''))
      else
        and_then (map_err (CryptoFailed (ascii ''parse signature'')) (sig_from_slice k (take 64 signature))) (\<lambda>sig.
        let v_raw = signature ! 64 in
        and_then (ok_or (rid_from_byte k (strip_offset v_raw))
          (CryptoFailed (ascii ''parse recovery id'')
            (ascii (''invalid recovery id byte: '' @ decimal (unat v_raw))))) (\<lambda>recid.
        let eth_hash = keccak256 (eth_prefix @ digest) in
        map_err (CryptoFailed (ascii ''EIP-191 recover'')) (curve_recover k eth_hash sig recid))))"

definition hex_to_signing_key ::
  "('sk, 'vk, 'sig, 'rid) curve \<Rightarrow> (bytes \<Rightarrow> bytes + bytes) \<Rightarrow> bytes \<Rightarrow> crypto_error + 'sk" where
  "hex_to_signing_key k hex_decode hex_str =
     (let hex_str = (case strip_prefix (ascii ''0x'') hex_str of Some s \<Rightarrow> s | None \<Rightarrow> hex_str) in
      and_then (map_err (CryptoFailed (ascii ''parse signing key hex'')) (hex_decode hex_str)) (\<lambda>key_bytes.
      map_err (CryptoFailed (ascii ''parse signing key'')) (key_from_slice k key_bytes)))"

section \<open>The recovery byte\<close>

lemma strip_offset_add: "b \<le> 3 \<Longrightarrow> strip_offset (b + 27) = b"
proof -
  assume b: "b \<le> 3"
  then have "unat (b + 27) = unat b + 27" by (simp add: word_le_nat_alt unat_word_ariths)
  then show ?thesis by (simp add: strip_offset_def word_le_nat_alt)
qed

lemma strip_offset_small: "strip_offset b \<le> 3 \<longleftrightarrow> b \<le> 3 \<or> 27 \<le> b \<and> b \<le> 30"
proof (cases "27 \<le> b")
  case True
  then have "unat (b - 27) = unat b - 27" by (simp add: unat_sub)
  with True show ?thesis by (auto simp: strip_offset_def word_le_nat_alt)
next
  case False
  then show ?thesis by (auto simp: strip_offset_def word_le_nat_alt)
qed

lemma recover_split:
  "length rs = 64 \<Longrightarrow> recover_eth_claim k keccak256 (rs @ [v]) digest =
     and_then (map_err (CryptoFailed (ascii ''parse signature'')) (sig_from_slice k rs)) (\<lambda>sig.
     and_then (ok_or (rid_from_byte k (strip_offset v))
          (CryptoFailed (ascii ''parse recovery id'') (ascii (''invalid recovery id byte: '' @ decimal (unat v))))) (\<lambda>recid.
     map_err (CryptoFailed (ascii ''EIP-191 recover'')) (curve_recover k (keccak256 (eth_prefix @ digest)) sig recid)))"
  by (simp add: recover_eth_claim_def Let_def nth_append)

lemma ecdsa_lawsD:
  assumes "ecdsa_laws k"
  shows "curve_sign_prehash k sk h = Inr (sig, r) \<Longrightarrow> curve_recover k h sig r = Inr (verifying_key k sk)"
    and "length (sig_to_bytes k sig) = 64" and "sig_from_slice k (sig_to_bytes k sig) = Inr sig"
    and "rid_to_byte k r \<le> 3" and "rid_from_byte k (rid_to_byte k r) = Some r"
    and "rid_from_byte k b = None \<longleftrightarrow> 3 < b"
  using assms unfolding ecdsa_laws_def by blast+

lemma sign_eth_claim_Inr: "sign_eth_claim k keccak256 sk digest = Inr s \<longleftrightarrow>
    (\<exists>sig r. curve_sign_prehash k sk (keccak256 (eth_prefix @ digest)) = Inr (sig, r) \<and>
             s = sig_to_bytes k sig @ [rid_to_byte k r + 27])"
  by (auto simp: sign_eth_claim_def Let_def and_then_Inr_iff)

lemma sign_recover:
  assumes laws: "ecdsa_laws k" and s: "sign_eth_claim k keccak256 sk digest = Inr s"
  obtains rs b where "s = rs @ [b + 27]" and "length rs = 64" and "b \<le> 3"
    and "recover_eth_claim k keccak256 (rs @ [b + 27]) digest = Inr (verifying_key k sk)"
    and "recover_eth_claim k keccak256 (rs @ [b]) digest = Inr (verifying_key k sk)"
proof -
  note l = ecdsa_lawsD [OF laws]
  from s obtain sig r where sig: "curve_sign_prehash k sk (keccak256 (eth_prefix @ digest)) = Inr (sig, r)"
      "s = sig_to_bytes k sig @ [rid_to_byte k r + 27]"
    by (auto simp: sign_eth_claim_Inr)
  have off: "strip_offset (rid_to_byte k r + 27) = rid_to_byte k r" "strip_offset (rid_to_byte k r) = rid_to_byte k r"
    using l(4) [of r] by (auto simp: strip_offset_add) (auto simp: strip_offset_def word_le_nat_alt)
  show ?thesis
    by (rule that [OF sig(2) l(2,4)]) (simp_all add: recover_split l(2,3,5) off l(1) [OF sig(1)])
qed

text \<open>A curve for the witnesses: a key is a byte, a signature carries it in its last byte.\<close>

definition toy_curve :: "(byte, byte, byte, bool) curve" where
  "toy_curve = \<lparr>
     verifying_key = (\<lambda>sk. sk), curve_sign_prehash = (\<lambda>sk h. Inr (sk, True)),
     curve_recover = (\<lambda>h sig r. if r then Inr sig else Inl []),
     sig_to_bytes = (\<lambda>sig. replicate 63 0 @ [sig]),
     sig_from_slice = (\<lambda>bs. if length bs = 64 then Inr (last bs) else Inl []),
     rid_to_byte = (\<lambda>r. if r then 1 else 0), rid_from_byte = (\<lambda>b. if b \<le> 3 then Some (b = 1) else None),
     point_uncompressed = (\<lambda>vk. 4 # replicate 32 1 @ replicate 31 0 @ [vk]),
     point_compressed = (\<lambda>vk. (if odd (unat vk) then 3 else 2) # replicate 32 1),
     key_from_slice = (\<lambda>bs. if length bs = 32 then Inr (last bs) else Inl [])\<rparr>"

lemma toy_curve_laws: "ecdsa_laws toy_curve"
  by (auto simp: ecdsa_laws_def toy_curve_def)

section \<open>Properties\<close>

lemma sign_recover_roundtrip_parts:
  assumes "ecdsa_laws k" and "sign_eth_claim k keccak256 sk digest = Inr s"
  shows "length s = 65" and "27 \<le> s ! 64" and "s ! 64 \<le> 30"
    and "recover_eth_claim k keccak256 s digest = Inr (verifying_key k sk)"
    and "recover_eth_claim k keccak256 (take 64 s @ [s ! 64 - 27]) digest = Inr (verifying_key k sk)"
proof -
  from assms obtain rs b where s: "s = rs @ [b + 27]" "length rs = 64" "b \<le> 3"
      "recover_eth_claim k keccak256 (rs @ [b + 27]) digest = Inr (verifying_key k sk)"
      "recover_eth_claim k keccak256 (rs @ [b]) digest = Inr (verifying_key k sk)"
    by (rule sign_recover)
  have "unat (b + 27) = unat b + 27" using s(3) by (simp add: word_le_nat_alt unat_word_ariths)
  then have "27 \<le> b + 27" "b + 27 \<le> 30" using s(3) by (simp_all add: word_le_nat_alt)
  then show "length s = 65" "27 \<le> s ! 64" "s ! 64 \<le> 30"
    "recover_eth_claim k keccak256 s digest = Inr (verifying_key k sk)"
    "recover_eth_claim k keccak256 (take 64 s @ [s ! 64 - 27]) digest = Inr (verifying_key k sk)"
    using s by (simp_all add: nth_append)
qed

text \<open>C37. Whatever \<open>sign_eth_claim\<close> produces is 65 bytes with \<open>v\<close> in 27 to 30, and recovers to the
  signing key, both as produced and with the EVM offset stripped from its last byte.\<close>
theorem sign_recover_roundtrip:
  assumes "ecdsa_laws k" and "sign_eth_claim k keccak256 sk digest = Inr s"
  shows "length s = 65 \<and> 27 \<le> s ! 64 \<and> s ! 64 \<le> 30 \<and>
    recover_eth_claim k keccak256 s digest = Inr (verifying_key k sk) \<and>
    recover_eth_claim k keccak256 (take 64 s @ [s ! 64 - 27]) digest = Inr (verifying_key k sk)"
  using sign_recover_roundtrip_parts [OF assms] by blast


theorem sign_recover_roundtrip_witness:
  "recover_eth_claim toy_curve rev (replicate 63 0 @ [7, 28]) (replicate 32 0) = Inr 7"
proof -
  have "sign_eth_claim toy_curve rev 7 (replicate 32 0) = Inr (replicate 63 0 @ [7, 28])"
    by (simp add: sign_eth_claim_def toy_curve_def Let_def)
  from sign_recover_roundtrip [OF toy_curve_laws this] show ?thesis by (simp add: toy_curve_def)
qed

lemma recover_v_conventions_parts:
  assumes "ecdsa_laws k"
  shows "length rs = 64 \<Longrightarrow> v \<le> 3 \<Longrightarrow>
      recover_eth_claim k keccak256 (rs @ [v]) digest = recover_eth_claim k keccak256 (rs @ [v + 27]) digest"
    and "recover_eth_claim k keccak256 s digest = Inr vk \<Longrightarrow>
      length s = 65 \<and> (s ! 64 \<in> {0..3} \<union> {27..30})"
    and "length s \<noteq> 65 \<Longrightarrow> recover_eth_claim k keccak256 s digest =
      Inl (CryptoFailed (ascii ''verify signature'') (ascii ''signature must be 65 bytes''))"
proof -
  note l = ecdsa_lawsD [OF assms]
  show "length s \<noteq> 65 \<Longrightarrow> recover_eth_claim k keccak256 s digest =
      Inl (CryptoFailed (ascii ''verify signature'') (ascii ''signature must be 65 bytes''))"
    by (simp add: recover_eth_claim_def)
  show "recover_eth_claim k keccak256 s digest = Inr vk \<Longrightarrow>
      length s = 65 \<and> (s ! 64 \<in> {0..3} \<union> {27..30})"
  proof -
    assume "recover_eth_claim k keccak256 s digest = Inr vk"
    then have "length s = 65" "rid_from_byte k (strip_offset (s ! 64)) \<noteq> None"
      by (auto simp: recover_eth_claim_def Let_def and_then_Inr_iff split: if_splits)
    then show ?thesis using l(6) strip_offset_small by (auto simp: not_less)
  qed
  assume len: "length rs = 64" and v: "v \<le> 3"
  then have off: "strip_offset (v + 27) = v" "strip_offset v = v"
    by (auto simp: strip_offset_add) (auto simp: strip_offset_def word_le_nat_alt)
  have "rid_from_byte k v \<noteq> None" using l(6) v by (simp add: not_less)
  then show "recover_eth_claim k keccak256 (rs @ [v]) digest = recover_eth_claim k keccak256 (rs @ [v + 27]) digest"
    using len off by (auto simp: recover_split)
qed

text \<open>The two conventions for \<open>v\<close> are interchangeable and nothing else is accepted: for 0 to 3 the
  recovery answers the same with and without the offset of 27, a signature with any other
  last byte or of any other length is refused, and the length check comes first.\<close>
theorem recover_v_conventions:
  assumes "ecdsa_laws k"
  shows "(length rs = 64 \<longrightarrow> v \<le> 3 \<longrightarrow>
      recover_eth_claim k keccak256 (rs @ [v]) digest = recover_eth_claim k keccak256 (rs @ [v + 27]) digest) \<and>
    (recover_eth_claim k keccak256 s digest = Inr vk \<longrightarrow> length s = 65 \<and> s ! 64 \<in> {0..3} \<union> {27..30}) \<and>
    (length s \<noteq> 65 \<longrightarrow> recover_eth_claim k keccak256 s digest =
      Inl (CryptoFailed (ascii ''verify signature'') (ascii ''signature must be 65 bytes'')))"
  using recover_v_conventions_parts [OF assms] by blast


theorem recover_v_conventions_witness:
  "recover_eth_claim toy_curve rev (replicate 64 7 @ [1]) [] = recover_eth_claim toy_curve rev (replicate 64 7 @ [28]) [] \<and>
   recover_eth_claim toy_curve rev [] [] =
     Inl (CryptoFailed (ascii ''verify signature'') (ascii ''signature must be 65 bytes''))"
  using recover_v_conventions [OF toy_curve_laws, of "replicate 64 7" 1 rev "[]" "[]"] by simp

lemmas [eval] = strip_offset_def sign_eth_claim_def recover_eth_claim_def hex_to_signing_key_def eth_prefix_def

end
