(* ===== verification/Base64.thy ===== *)
theory Base64
  imports Prelude
begin

text \<open>
  \<open>base64url_nopad\<close> of \<open>libid-tlsn/examples/ceremony/common.rs\<close>. Lemmas: the length of the text,
  its alphabet, and a reference decoder that reads it back, from the value of the four
  sextets of a chunk.
\<close>

section \<open>The encoder\<close>

text \<open>\<open>slice::chunks\<close>: runs of \<open>n\<close> elements, the last one possibly shorter.\<close>

function chunks :: "nat \<Rightarrow> 'a list \<Rightarrow> 'a list list" where
  "chunks n xs = (if xs = [] \<or> n = 0 then [] else take n xs # chunks n (drop n xs))"
  by pat_completeness auto
termination
  by (relation "measure (\<lambda>(n, xs). length xs)") auto

declare chunks.simps [simp del]

definition base64_alphabet :: bytes where
  "base64_alphabet = ascii ''ABCDEFGHIJKLMNOPQRSTUVWXYZabcdefghijklmnopqrstuvwxyz0123456789-_''"

definition byte_or_zero :: "bytes \<Rightarrow> nat \<Rightarrow> byte" where
  "byte_or_zero chunk i = (case get_at chunk i of Some b \<Rightarrow> b | None \<Rightarrow> 0)"

text \<open>The three bytes as the low 24 bits of a \<open>u32\<close>, read six bits at a time from the top.\<close>

definition chunk_word :: "bytes \<Rightarrow> 32 word" where
  "chunk_word chunk =
     or (or (push_bit 16 (ucast (byte_or_zero chunk 0))) (push_bit 8 (ucast (byte_or_zero chunk 1))))
        (ucast (byte_or_zero chunk 2))"

definition sextet :: "32 word \<Rightarrow> nat \<Rightarrow> nat" where
  "sextet n i = unat (and (drop_bit (18 - 6 * i) n) 63)"

definition encode_chunk :: "bytes \<Rightarrow> bytes" where
  "encode_chunk chunk = map (\<lambda>i. base64_alphabet ! sextet (chunk_word chunk) i) [0..<length chunk + 1]"

definition base64url_nopad :: "bytes \<Rightarrow> bytes" where
  "base64url_nopad bs = concat (map encode_chunk (chunks 3 bs))"

lemma base64_cases [case_names Nil one two more]:
  obtains "bs = []" | a where "bs = [a]" | a b where "bs = [a, b]" | a b c rest where "bs = a # b # c # rest"
  by (cases bs rule: list.exhaust; cases "tl bs"; cases "tl (tl bs)") auto

lemma base64_simps:
  "base64url_nopad [] = []"
  "base64url_nopad [a] = encode_chunk [a]"
  "base64url_nopad [a, b] = encode_chunk [a, b]"
  "base64url_nopad (a # b # c # rest) = encode_chunk [a, b, c] @ base64url_nopad rest"
  by (simp_all add: base64url_nopad_def chunks.simps [of 3])

lemmas [eval] = base64_simps encode_chunk_def chunk_word_def sextet_def byte_or_zero_def get_at_def base64_alphabet_def

section \<open>The alphabet\<close>

lemma length_alphabet [simp]: "length base64_alphabet = 64"
  by (simp add: base64_alphabet_def)

lemma distinct_alphabet: "distinct base64_alphabet"
proof -
  let ?letters = "[65..<91] @ [97..<123] @ [48..<58] @ [45, 95 :: nat]"
  have alphabet: "base64_alphabet = map of_nat ?letters"
    by (simp add: base64_alphabet_def ascii_def upt_rec)
  have "inj_on (of_nat :: nat \<Rightarrow> byte) {..<256}"
    by (auto simp: inj_on_def word_unat_eq_iff unat_of_nat)
  then have "inj_on (of_nat :: nat \<Rightarrow> byte) (set ?letters)"
    by (rule inj_on_subset) auto
  moreover have "distinct ?letters" by auto
  ultimately show ?thesis unfolding alphabet distinct_map by blast
qed

lemma alphabet_url_safe:
  "c \<in> set base64_alphabet \<Longrightarrow> is_ascii_alphanumeric c \<or> c = 0x5F \<or> c = 0x2D"
proof -
  have "list_all (\<lambda>c. is_ascii_alphanumeric c \<or> c = 0x5F \<or> c = 0x2D) base64_alphabet"
    by (simp add: base64_alphabet_def ascii_def is_ascii_alphanumeric_def is_ascii_digit_def)
  then show "c \<in> set base64_alphabet \<Longrightarrow> is_ascii_alphanumeric c \<or> c = 0x5F \<or> c = 0x2D"
    by (simp only: list_all_iff)
qed

definition letter_value :: "byte \<Rightarrow> nat" where
  "letter_value c = (case position (\<lambda>x. x = c) base64_alphabet of Some i \<Rightarrow> i | None \<Rightarrow> 0)"

lemma letter_value_nth: "i < 64 \<Longrightarrow> letter_value (base64_alphabet ! i) = i"
proof -
  assume i: "i < 64"
  then have "position (\<lambda>x. x = base64_alphabet ! i) base64_alphabet = Some i"
    using distinct_alphabet by (auto simp: position_Some_iff nth_eq_iff_index_eq)
  then show ?thesis by (simp add: letter_value_def)
qed

section \<open>The value of a chunk\<close>

lemma sextet_div: "sextet n i = unat n div 2 ^ (18 - 6 * i) mod 64"
proof -
  have m: "and w 63 = take_bit 6 w" for w :: "32 word"
    by (simp add: take_bit_eq_mask mask_eq_exp_minus_1)
  have "sextet n i = take_bit 6 (drop_bit (18 - 6 * i) (unat n))"
    using unsigned_less [of n, where ?'a = nat]
    by (simp add: sextet_def m unsigned_take_bit_eq unsigned_drop_bit_eq take_bit_nat_eq_self)
  then show ?thesis by (simp add: take_bit_eq_mod drop_bit_eq_div)
qed

lemma sextet_less: "sextet n i < 64"
  by (simp add: sextet_div)

lemma or_shifted: "y < 2 ^ k \<Longrightarrow> or (x * 2 ^ k) y = x * 2 ^ k + (y :: nat)"
proof -
  assume "y < 2 ^ k"
  then have y: "take_bit k y = y" by (simp add: take_bit_nat_eq_self)
  have "\<not> (bit (push_bit k x) n \<and> bit (take_bit k y) n)" for n by (simp add: bit_simps)
  then have "push_bit k x + take_bit k y = or (push_bit k x) (take_bit k y)"
    by (intro disjunctive_add_eq_or) (auto simp: bit_eq_iff bit_simps)
  then show ?thesis by (simp add: y push_bit_eq_mult)
qed

lemma byte_less: "unat (b :: byte) < 256"
  using unsigned_less [of b, where ?'a = nat] by simp

lemma unat_byte_shifted: "k \<le> 16 \<Longrightarrow> unat (push_bit k (ucast (b :: byte) :: 32 word)) = unat b * 2 ^ k"
proof -
  assume k: "k \<le> 16"
  have b: "unat (ucast b :: 32 word) = unat b" using byte_less [of b] by (simp add: unsigned_ucast_eq take_bit_nat_eq_self)
  have "unat b * 2 ^ k < 2 ^ 8 * 2 ^ k" using byte_less [of b] by simp
  also have "\<dots> \<le> 2 ^ 32" using power_increasing [OF k, of "2 :: nat"] by simp
  finally show ?thesis unfolding unsigned_push_bit_eq b by (simp add: push_bit_eq_mult take_bit_nat_eq_self)
qed

lemma unat_three_bytes:
  "unat (or (or (push_bit 16 (ucast (a :: byte))) (push_bit 8 (ucast (b :: byte)))) (ucast (c :: byte)) :: 32 word) =
   unat a * 65536 + unat b * 256 + unat c"
proof -
  have c: "unat (ucast c :: 32 word) = unat c" using unat_byte_shifted [of 0 c] by simp
  have ab: "or (unat a * 2 ^ 16) (unat b * 2 ^ 8) = (unat a * 256 + unat b) * 2 ^ 8"
    using or_shifted [of "unat b * 2 ^ 8" 16 "unat a"] byte_less [of b] by simp
  show ?thesis
    using or_shifted [of "unat c" 8 "unat a * 256 + unat b"] byte_less [of c]
    by (simp add: unsigned_or_eq unat_byte_shifted c ab [simplified])
qed

lemma chunk_word_value:
  "unat (chunk_word [a, b, c]) = unat a * 65536 + unat b * 256 + unat c"
  "unat (chunk_word [a, b]) = unat a * 65536 + unat b * 256"
  "unat (chunk_word [a]) = unat a * 65536"
  using unat_three_bytes [of a b c] unat_three_bytes [of a b 0] unat_three_bytes [of a 0 0]
  by (simp_all add: chunk_word_def byte_or_zero_def get_at_def)

lemma nat_split:
  "u < k \<Longrightarrow> (x * k + u) div k = (x :: nat)" "u < k \<Longrightarrow> (x * k + u) mod (k * m) = x mod m * k + u"
  by (simp_all add: mod_mult2_eq)

lemma sextets_of:
  assumes n: "unat n = x * 65536 + y * 256 + z" and le: "x < 256" "y < 256" "z < 256"
  shows "sextet n 0 = x div 4" "sextet n 1 = x mod 4 * 16 + y div 16"
    "sextet n 2 = y mod 16 * 4 + z div 64" "sextet n 3 = z mod 64"
proof -
  have x: "unat n div 65536 = x" and xy: "unat n div 256 = x * 256 + y"
    using nat_split(1) [of "y * 256 + z" 65536 x] nat_split(1) [of z 256 "x * 256 + y"] le n by simp_all
  have "unat n div 2 ^ 18 = x div 4" using div_mult2_eq [of "unat n" 65536 4] x by simp
  then show "sextet n 0 = x div 4" using le by (simp add: sextet_div)
  have "unat n div 2 ^ 12 = (x * 16 + y div 16)" using div_mult2_eq [of "unat n" 256 16] xy by simp
  then show "sextet n 1 = x mod 4 * 16 + y div 16"
    using nat_split(2) [of "y div 16" 16 x 4] le by (simp add: sextet_div)
  have "unat n = (x * 1024 + y * 4) * 64 + z" using n by simp
  then have "unat n div 64 = x * 1024 + y * 4 + z div 64" by (metis div_mult_self3 zero_neq_numeral)
  then have "unat n div 64 = (x * 256 + y) * 4 + z div 64" by simp
  moreover have "(x * 16 * 16 + y) mod 16 = y mod 16" by (rule mod_mult_self3)
  then have "(x * 256 + y) mod 16 = y mod 16" by (simp add: mult.assoc)
  ultimately show "sextet n 2 = y mod 16 * 4 + z div 64"
    using nat_split(2) [of "z div 64" 4 "x * 256 + y" 16] le by (simp add: sextet_div)
  show "sextet n 3 = z mod 64"
    using mod_mult_self3 [of "x * 1024 + y * 4" 64 z] \<open>unat n = (x * 1024 + y * 4) * 64 + z\<close> by (simp add: sextet_div)
qed

section \<open>A reference decoder\<close>

fun join_sextets :: "nat list \<Rightarrow> bytes" where
  "join_sextets (a # b # c # d # rest) =
     of_nat (a * 4 + b div 16) # of_nat (b mod 16 * 16 + c div 4) # of_nat (c mod 4 * 64 + d) # join_sextets rest"
| "join_sextets [a, b, c] = [of_nat (a * 4 + b div 16), of_nat (b mod 16 * 16 + c div 4)]"
| "join_sextets [a, b] = [of_nat (a * 4 + b div 16)]"
| "join_sextets _ = []"

definition base64url_decode :: "bytes \<Rightarrow> bytes" where
  "base64url_decode text = join_sextets (map letter_value text)"

lemma letters_of_chunk:
  "map letter_value (encode_chunk chunk) = map (sextet (chunk_word chunk)) [0..<length chunk + 1]"
  by (simp add: encode_chunk_def letter_value_nth sextet_less)

lemma upt_sextets:
  "[0..<Suc (Suc 0)] = [0, 1]" "[0..<Suc (Suc (Suc 0))] = [0, 1, 2]" "[0..<Suc (Suc (Suc (Suc 0)))] = [0, 1, 2, 3]"
  by (simp_all add: upt_rec)

lemma chunk_sextets:
  "map letter_value (encode_chunk [a]) = [unat a div 4, unat a mod 4 * 16]"
  "map letter_value (encode_chunk [a, b]) = [unat a div 4, unat a mod 4 * 16 + unat b div 16, unat b mod 16 * 4]"
  "map letter_value (encode_chunk [a, b, c]) =
     [unat a div 4, unat a mod 4 * 16 + unat b div 16, unat b mod 16 * 4 + unat c div 64, unat c mod 64]"
  using sextets_of [of "chunk_word [a]" "unat a" 0 0] sextets_of [of "chunk_word [a, b]" "unat a" "unat b" 0]
    sextets_of [of "chunk_word [a, b, c]" "unat a" "unat b" "unat c"] byte_less [of a] byte_less [of b] byte_less [of c]
  by (simp_all add: letters_of_chunk chunk_word_value upt_sextets del: upt.simps upt_Suc)

lemma rejoin_1: "y < 256 \<Longrightarrow> x div 4 * 4 + (x mod 4 * 16 + y div 16) div 16 = (x :: nat)"
  using nat_split(1) [of "y div 16" 16 "x mod 4"] by (simp add: less_mult_imp_div_less)

lemma rejoin_2: "y < 256 \<Longrightarrow> z < 256 \<Longrightarrow> (x mod 4 * 16 + y div 16) mod 16 * 16 + (y mod 16 * 4 + z div 64) div 4 = (y :: nat)"
proof -
  assume "y < 256" "z < 256"
  then have "(x mod 4 * 16 + y div 16) mod 16 = y div 16" by (simp add: less_mult_imp_div_less)
  moreover have "(y mod 16 * 4 + z div 64) div 4 = y mod 16" using nat_split(1) [of "z div 64" 4 "y mod 16"] \<open>z < 256\<close> by simp
  ultimately show ?thesis by simp
qed

lemma rejoin_3: "z < 256 \<Longrightarrow> (y mod 16 * 4 + z div 64) mod 4 * 64 + z mod 64 = (z :: nat)"
proof -
  assume "z < 256"
  then have "(y mod 16 * 4 + z div 64) mod 4 = z div 64" by (simp add: less_mult_imp_div_less)
  then show ?thesis by simp
qed

lemmas rejoin = rejoin_1 [OF byte_less] rejoin_2 [OF byte_less byte_less] rejoin_3 [OF byte_less]

lemma join_chunk:
  "join_sextets (map letter_value (encode_chunk [a, b, c]) @ ss) = a # b # c # join_sextets ss"
  "join_sextets (map letter_value (encode_chunk [a, b])) = [a, b]"
  "join_sextets (map letter_value (encode_chunk [a])) = [a]"
  using rejoin_1 [of 0 "unat a"] rejoin_2 [of "unat b" 0 "unat a"] byte_less [of b]
  unfolding chunk_sextets append.simps join_sextets.simps rejoin
  by simp_all

lemma base64url_length: "length (base64url_nopad bs) = (4 * length bs + 2) div 3"
proof (induction bs rule: measure_induct_rule [of length])
  case (less bs)
  show ?case
  proof (cases bs rule: base64_cases)
    case (more a b c rest)
    with less have "length (base64url_nopad rest) = (4 * length rest + 2) div 3" by simp
    with more show ?thesis by (simp add: base64_simps encode_chunk_def)
  qed (simp_all add: base64_simps encode_chunk_def)
qed

lemma base64url_alphabet: "set (base64url_nopad bs) \<subseteq> set base64_alphabet"
proof -
  have "base64_alphabet ! sextet n i \<in> set base64_alphabet" for n i
    using sextet_less [of n i] by simp
  then show ?thesis by (auto simp: base64url_nopad_def encode_chunk_def)
qed

lemma base64url_decodes: "base64url_decode (base64url_nopad bs) = bs"
proof (induction bs rule: measure_induct_rule [of length])
  case (less bs)
  show ?case
  proof (cases bs rule: base64_cases)
    case (more a b c rest)
    with less have "base64url_decode (base64url_nopad rest) = rest" by simp
    with more show ?thesis
      by (simp add: base64_simps base64url_decode_def join_chunk)
  next
    case (two a b)
    then show ?thesis by (simp add: base64_simps base64url_decode_def join_chunk)
  next
    case (one a)
    then show ?thesis by (simp add: base64_simps base64url_decode_def join_chunk)
  qed (simp add: base64_simps base64url_decode_def)
qed

section \<open>Properties\<close>

text \<open>\<open>base64url_nopad\<close> is the unpadded base64url of RFC 4648: the reference decoder reads every
  text back, a text of n bytes has the ceiling of 4n/3 characters, and each of them is a
  letter, a digit, a hyphen or an underscore.\<close>
theorem base64url_roundtrip:
  "base64url_decode (base64url_nopad bs) = bs \<and> length (base64url_nopad bs) = (4 * length bs + 2) div 3 \<and>
   list_all (\<lambda>c. is_ascii_alphanumeric c \<or> c = 0x5F \<or> c = 0x2D) (base64url_nopad bs)"
  using base64url_decodes [of bs] base64url_length [of bs] base64url_alphabet [of bs] alphabet_url_safe
  by (auto simp: list_all_iff)

lemma base64_foobar: "base64url_nopad (ascii ''fooba'') = ascii ''Zm9vYmE''"
  by (simp add: eval upt_rec)

end
