(* ===== verification/Ceremony_Common.thy ===== *)
theory Ceremony_Common
  imports Base64 Big_Endian Token_Exchange Rust_Str
begin

text \<open>
  \<open>libid-tlsn/examples/ceremony/common.rs\<close>, which the fixture generator and the capture tool
  share: the submission the records are bound to and the derivations of sections 5 and 7 of
  ceremony-common. Keccak-256, SHA-256 and \<open>hex::encode\<close> are arguments. Lemmas: the layout of
  the authorization preimage, and that the derived verifier is one a token request accepts.
\<close>

section \<open>Constants\<close>

definition notary_key :: bytes where
  "notary_key = ascii ''ac0974bec39a17e36ba4a6b4d238ff944bacb478cbed5efcae784d7bf4f2ff80''"

definition ceremony_chain_id :: "64 word" where "ceremony_chain_id = 31337"
definition operation_domain :: bytes where "operation_domain = ascii ''libid.claim-identity''"
definition authorization_nonce :: bytes where "authorization_nonce = replicate 32 0x55"
definition ceremony_version :: "16 word" where "ceremony_version = 1"

definition browser_agent :: bytes where
  "browser_agent = ascii (''Mozilla/5.0 (Macintosh; Intel Mac OS X 10_15_7) AppleWebKit/537.36 '' @
     ''(KHTML, like Gecko) Chrome/128.0.0.0 Safari/537.36'')"

section \<open>The authorization digest\<close>

definition transaction_data :: bytes where
  "transaction_data = (replicate 32 0)[30 := 0xBE, 31 := 0xEF]"

text \<open>\<open>chain[24..].copy_from_slice(..)\<close> on 32 zero bytes.\<close>

definition chain_bytes :: bytes where
  "chain_bytes = replicate 24 0 @ be_bytes 8 (unat ceremony_chain_id)"

definition authorization_preimage :: "(bytes \<Rightarrow> bytes) \<Rightarrow> bytes" where
  "authorization_preimage keccak256 =
     keccak256 operation_domain @ be_bytes 2 (unat ceremony_version) @ keccak256 chain_bytes @
     authorization_nonce @ be_bytes 4 (length transaction_data) @ transaction_data"

definition authorization_digest :: "(bytes \<Rightarrow> bytes) \<Rightarrow> bytes" where
  "authorization_digest keccak256 = keccak256 (authorization_preimage keccak256)"

section \<open>The PKCE verifier and its challenge\<close>

definition code_verifier_of :: "(bytes \<Rightarrow> bytes) \<Rightarrow> (bytes \<Rightarrow> bytes) \<Rightarrow> bytes" where
  "code_verifier_of keccak256 sha256 =
     base64url_nopad (sha256 (authorization_digest keccak256 @ authorization_nonce))"

definition code_challenge :: "(bytes \<Rightarrow> bytes) \<Rightarrow> (bytes \<Rightarrow> bytes) \<Rightarrow> bytes" where
  "code_challenge keccak256 sha256 = base64url_nopad (sha256 (code_verifier_of keccak256 sha256))"

section \<open>JSON values\<close>

datatype json = JString bytes | JNumber nat | JArray "json list" | JObject "(bytes \<times> json) list"

text \<open>\<open>value["key"] = v\<close> on an object: the member is replaced, or added.\<close>

fun set_member :: "bytes \<Rightarrow> json \<Rightarrow> (bytes \<times> json) list \<Rightarrow> (bytes \<times> json) list" where
  "set_member k v [] = [(k, v)]"
| "set_member k v ((k', v') # ms) = (if k' = k then (k, v) # ms else (k', v') # set_member k v ms)"

fun json_set :: "bytes \<Rightarrow> json \<Rightarrow> json \<Rightarrow> json" where
  "json_set k v (JObject ms) = JObject (set_member k v ms)"
| "json_set k v j = j"

fun json_get :: "bytes \<Rightarrow> json \<Rightarrow> json option" where
  "json_get k (JObject ms) = map_of ms k"
| "json_get k j = None"

definition hex0x :: "(bytes \<Rightarrow> bytes) \<Rightarrow> bytes \<Rightarrow> bytes" where
  "hex0x hex_encode bs = ascii ''0x'' @ hex_encode bs"

definition submission_json ::
  "(bytes \<Rightarrow> bytes) \<Rightarrow> (bytes \<Rightarrow> bytes) \<Rightarrow> (bytes \<Rightarrow> bytes) \<Rightarrow> bytes \<Rightarrow> bytes \<Rightarrow> json" where
  "submission_json keccak256 sha256 hex_encode platform notary = JObject [
     (ascii ''platform'', JString platform),
     (ascii ''ceremony_version'', JNumber (unat ceremony_version)),
     (ascii ''chain_id'', JNumber (unat ceremony_chain_id)),
     (ascii ''notary'', JString notary),
     (ascii ''operation_domain'', JString (hex0x hex_encode (keccak256 operation_domain))),
     (ascii ''authorization_nonce'', JString (hex0x hex_encode authorization_nonce)),
     (ascii ''transaction_data'', JString (hex0x hex_encode transaction_data)),
     (ascii ''authorization_digest'', JString (hex0x hex_encode (authorization_digest keccak256))),
     (ascii ''code_verifier'', JString (code_verifier_of keccak256 sha256))]"

lemma json_get_set: "json_get k (json_set k' v (JObject ms)) = (if k = k' then Some v else json_get k (JObject ms))"
  by (induction ms) auto

section \<open>Layout and shape\<close>

lemma length_transaction_data: "length transaction_data = 32"
  by (simp add: transaction_data_def)

text \<open>Section 5 fixes 102 bytes before the transaction data, which the code reserves exactly.\<close>

lemma length_preimage:
  assumes "\<And>bs. length (keccak256 bs) = 32"
  shows "length (authorization_preimage keccak256) = 102 + length transaction_data"
  by (simp add: authorization_preimage_def assms authorization_nonce_def)

lemma pkce_of_digest: "length digest = 32 \<Longrightarrow> pkce_verifier (base64url_nopad digest)"
proof -
  assume "length digest = 32"
  then have "length (base64url_nopad digest) = 43" by (simp add: base64url_length)
  moreover have "list_all (\<lambda>b. is_ascii_alphanumeric b \<or> b \<in> set (ascii ''_-'')) (base64url_nopad digest)"
    using base64url_alphabet [of digest] alphabet_url_safe by (auto simp: list_all_iff ascii_def)
  ultimately show ?thesis by (simp add: pkce_verifier_def)
qed

section \<open>Properties\<close>

text \<open>C26. The verifier the examples derive is one the token service accepts, whatever the hashes are:
  it has the 43 characters of the PKCE alphabet, so a request that carries it is valid exactly
  when its code is; it decodes to the SHA-256 of the authorization digest and the nonce, and
  the challenge decodes to the SHA-256 of the verifier.\<close>
theorem derived_verifier_is_accepted:
  assumes "\<And>bs. length (sha256 bs) = 32"
  shows "(validate_request \<lparr>code = c, code_verifier = code_verifier_of keccak256 sha256\<rparr> = Inr ()) =
      credential_ok max_code_bytes c \<and>
    base64url_decode (code_verifier_of keccak256 sha256) = sha256 (authorization_digest keccak256 @ authorization_nonce) \<and>
    base64url_decode (code_challenge keccak256 sha256) = sha256 (code_verifier_of keccak256 sha256)"
proof -
  have "pkce_verifier (code_verifier_of keccak256 sha256)"
    using pkce_of_digest assms by (simp add: code_verifier_of_def)
  then have "(validate_request \<lparr>code = c, code_verifier = code_verifier_of keccak256 sha256\<rparr> = Inr ()) = credential_ok max_code_bytes c"
    by (auto simp: validate_request_def credential_ok_def pkce_verifier_def code_verifier_len_def ascii_def
        unprintable_None unprintable_Some list_all_iff split: option.splits)
  then show ?thesis by (simp add: code_verifier_of_def code_challenge_def base64url_decodes)
qed

theorem derived_verifier_is_accepted_witness:
  "validate_request \<lparr>code = ascii ''abc'', code_verifier = code_verifier_of (\<lambda>bs. bs) (\<lambda>_. replicate 32 7)\<rparr> = Inr ()"
proof -
  have "credential_ok max_code_bytes (ascii ''abc'')"
    by (simp add: credential_ok_def max_code_bytes_def ascii_def printable_def)
  then show ?thesis using derived_verifier_is_accepted [of "\<lambda>_. replicate 32 7" "ascii ''abc''" "\<lambda>bs. bs"] by simp
qed

end
