(* ===== verification/Notarize.thy ===== *)
theory Notarize
  imports Coverage Prover Notary Crypto Ceremony_Common
begin

text \<open>
  \<open>notarize\<close> of \<open>libid-tlsn/examples/capture_ceremony.rs\<close>: one session with the prover and the
  verifier in one process, its record and its signature. It composes \<open>Prover\<close>, \<open>Notary\<close>,
  \<open>Observed\<close>, \<open>Attestation\<close> and \<open>Crypto\<close>, with the texts of the errors that it quotes. Lemmas: what
  a session that was notarized has been through, and what its record and signature are.
\<close>

section \<open>The texts of errors\<close>

text \<open>The text of an I/O or JSON error is that of its crate.\<close>

fun transcript_error_text :: "(io_error \<Rightarrow> bytes) \<Rightarrow> ('j \<Rightarrow> bytes) \<Rightarrow> 'j error \<Rightarrow> bytes" where
  "transcript_error_text io_text json_text (Io e) = ascii ''io: '' @ io_text e"
| "transcript_error_text io_text json_text (Json e) = ascii ''json: '' @ json_text e"
| "transcript_error_text io_text json_text (WireProtocol detail) = ascii (''wire protocol: '' @ detail)"
| "transcript_error_text io_text json_text (Transcript detail) = ascii (''transcript: '' @ detail)"

fun session_error_text :: "(io_error \<Rightarrow> bytes) \<Rightarrow> session_error \<Rightarrow> bytes" where
  "session_error_text io_text (MpcTlsFailed detail) = ascii ''MPC-TLS failed: '' @ detail"
| "session_error_text io_text (UnsupportedTlsVersion detail) = ascii ''unsupported TLS version: '' @ detail"
| "session_error_text io_text (SessionIo e) = ascii ''io: '' @ io_text e"
| "session_error_text io_text (SessionTranscript e) = transcript_error_text io_text (\<lambda>_. []) e"

fun layout_error_text :: "layout_error \<Rightarrow> bytes" where
  "layout_error_text (MissingHeader h) =
     ascii ''the request has no `'' @ h @ ascii ''` header, so the layout has nothing to anchor on''"
| "layout_error_text (MissingField f) =
     ascii ''the response carries no `'' @ f @ ascii ''` field where the profile expects one''"
| "layout_error_text NoHeadBoundary =
     ascii ''the transcript has no head boundary, so its body cannot be located''"
| "layout_error_text MissingCredential =
     ascii ''the credential to commit was not found in the request body''"

section \<open>One notarized session\<close>

record capture_session =
  cs_record :: bytes
  cs_signature :: bytes
  cs_created_at :: "64 word"
  cs_response_body :: bytes
  cs_authority :: bytes

type_synonym layouts = "bytes \<Rightarrow> bytes \<Rightarrow> layout_error + layout \<times> layout"

definition capture_layout :: "layouts \<Rightarrow> select_layout" where
  "capture_layout layouts sent recv =
     map_err (\<lambda>e. MpcTlsFailed (ascii ''layout: '' @ layout_error_text e)) (layouts sent recv)"

definition observed_of :: "bytes \<Rightarrow> 64 word \<Rightarrow> ('name, 'tls, 'io) verifier_result \<Rightarrow> observed_session" where
  "observed_of authority now observed =
     \<lparr>obs_transcript = vr_partial_transcript observed, obs_authority = authority,
      obs_commitments = vr_transcript_commitments observed, obs_created_at = now\<rparr>"

text \<open>From the two results to the session; \<open>None\<close> is the panic of an \<open>expect\<close>.\<close>

definition record_session ::
  "'e bincode \<Rightarrow> (bytes \<Rightarrow> bytes) \<Rightarrow> ('name \<Rightarrow> bytes) \<Rightarrow> (bytes \<Rightarrow> bytes option) \<Rightarrow> 64 word \<Rightarrow>
   ('sec, 'io) prover_result \<Rightarrow> ('name, 'tls, 'io2) verifier_result \<Rightarrow> capture_session option" where
  "record_session cfg keccak256 dns sign now prover observed = do {
     let authority = dns (vr_server_name observed);
     data \<leftarrow> ok (from_observed keccak256 (observed_of authority now observed));
     rec \<leftarrow> ok (encode_attested cfg data);
     signature \<leftarrow> sign (keccak256 rec);
     Some \<lparr>cs_record = rec, cs_signature = signature, cs_created_at = now,
           cs_response_body = response_body prover, cs_authority = authority\<rparr>
   }"

datatype 'a outcome = Panicked | Finished "bytes + 'a"

inductive notarize ::
  "('u, 'p, 'rest, 'c, 'cfg, 'sec) prover_env \<Rightarrow> ('tls, 'name) verifier_env \<Rightarrow> 'e bincode \<Rightarrow> (bytes \<Rightarrow> bytes) \<Rightarrow>
   ('name \<Rightarrow> bytes) \<Rightarrow> (io_error \<Rightarrow> bytes) \<Rightarrow> 64 word \<Rightarrow> (bytes \<Rightarrow> bytes option) \<Rightarrow>
   ('u, 'rest) http_request \<Rightarrow> layouts \<Rightarrow> capture_session outcome \<Rightarrow> bool"
  for penv venv cfg keccak256 dns io_text now sign request layouts where
  prover_failed:
    "prover_generic penv (capture_layout layouts) request (Inl e :: session_error + ('sec, nat) prover_result) \<Longrightarrow>
     notarize penv venv cfg keccak256 dns io_text now sign request layouts
       (Finished (Inl (ascii ''the prover's session: '' @ session_error_text io_text e)))"
| task_failed:
    "prover_generic penv (capture_layout layouts) request (Inr p :: session_error + ('sec, nat) prover_result) \<Longrightarrow>
     notarize penv venv cfg keccak256 dns io_text now sign request layouts
       (Finished (Inl (ascii ''verifier task: '' @ join_error)))"
| verifier_failed:
    "prover_generic penv (capture_layout layouts) request (Inr p :: session_error + ('sec, nat) prover_result) \<Longrightarrow>
     verifier venv (Inl e :: session_error + ('name, 'tls, nat) verifier_result) \<Longrightarrow>
     notarize penv venv cfg keccak256 dns io_text now sign request layouts
       (Finished (Inl (ascii ''the verifier's session: '' @ session_error_text io_text e)))"
| panicked:
    "prover_generic penv (capture_layout layouts) request (Inr p :: session_error + ('sec, nat) prover_result) \<Longrightarrow>
     verifier venv (Inr v :: session_error + ('name, 'tls, nat) verifier_result) \<Longrightarrow>
     record_session cfg keccak256 dns sign now p v = None \<Longrightarrow>
     notarize penv venv cfg keccak256 dns io_text now sign request layouts Panicked"
| notarized:
    "prover_generic penv (capture_layout layouts) request (Inr p :: session_error + ('sec, nat) prover_result) \<Longrightarrow>
     verifier venv (Inr v :: session_error + ('name, 'tls, nat) verifier_result) \<Longrightarrow>
     record_session cfg keccak256 dns sign now p v = Some s \<Longrightarrow>
     notarize penv venv cfg keccak256 dns io_text now sign request layouts (Finished (Inr s))"

inductive_cases notarize_Inr: "notarize penv venv cfg keccak256 dns io_text now sign request layouts (Finished (Inr s))"

text \<open>The \<open>sign\<close> closure of \<open>main\<close>.\<close>

definition capture_sign :: "('sk, 'vk, 'sig, 'rid) curve \<Rightarrow> (bytes \<Rightarrow> bytes) \<Rightarrow> 'sk \<Rightarrow> bytes \<Rightarrow> bytes option" where
  "capture_sign k keccak256 key digest = ok (sign_eth_claim k keccak256 key digest)"

section \<open>What a notarized session has been through\<close>

text \<open>The slices of the output are slices.\<close>

definition slices_fit :: "('tls, 'name) verifier_env \<Rightarrow> bool" where
  "slices_fit venv \<longleftrightarrow> (\<forall>output t. v_accept_proof venv = Inr output \<longrightarrow> vo_transcript output = Some t \<longrightarrow>
     (\<forall>dir. slice_ok (unsafe_of dir t) \<and> slice_ok (authed_of dir t)) \<and> slice_ok (vo_commitments output))"

text \<open>What the verified output shows, as the session that is recorded.\<close>

definition output_session ::
  "('name \<Rightarrow> bytes) \<Rightarrow> 64 word \<Rightarrow> 'name \<Rightarrow> partial_transcript \<Rightarrow> 'name verifier_output \<Rightarrow> observed_session" where
  "output_session dns now n t output =
     \<lparr>obs_transcript = t, obs_authority = dns n, obs_commitments = vo_commitments output, obs_created_at = now\<rparr>"

lemma record_session_Some:
  "record_session cfg keccak256 dns sign now p v = Some s \<longleftrightarrow>
   (\<exists>data. from_observed keccak256 (observed_of (dns (vr_server_name v)) now v) = Inr data \<and>
      encode_attested cfg data = Inr (cs_record s) \<and> sign (keccak256 (cs_record s)) = Some (cs_signature s) \<and>
      cs_created_at s = now \<and> cs_response_body s = response_body p \<and> cs_authority s = dns (vr_server_name v))"
  by (cases s) (auto simp: record_session_def Let_def ok_def bind_eq_Some_conv split: sum.splits)

lemma notarize_parts:
  assumes "notarize penv venv cfg keccak256 dns io_text now sign request layouts (Finished (Inr s))"
    and wire: "big_endian_fixint cfg" and keccak: "\<And>bs. length (keccak256 bs) = 32" and slices: "slices_fit venv"
  obtains result n t api_host request' secs ops where
    "v_accept_proof venv = Inr result" "vo_server_name result = Some n" "vo_transcript result = Some t"
    "session_ok venv" "request_ok venv" "cs_authority s = dns n" "cs_created_at s = now"
    "session_describable (output_session dns now n t result)"
    "\<And>rest. dec_attested (cs_record s @ rest) = Some (record_of keccak256 (output_session dns now n t result), rest)"
    "sign (keccak256 (cs_record s)) = Some (cs_signature s)"
    "prover_prepare penv request = Inr (api_host, request')"
    "went_through penv (capture_layout layouts) api_host request' (cs_response_body s) secs ops"
proof -
  from assms(1) obtain p v where
    p: "prover_generic penv (capture_layout layouts) request (Inr p :: session_error + (_, nat) prover_result)"
    and v: "verifier venv (Inr v :: session_error + (_, _, nat) verifier_result)"
    and r: "record_session cfg keccak256 dns sign now p v = Some s"
    by (elim notarize_Inr) blast
  from verifier_checked [OF v] obtain result where out: "session_ok venv" "request_ok venv"
      "v_accept_proof venv = Inr result" "vo_server_name result = Some (vr_server_name v)"
      "vo_transcript result = Some (vr_partial_transcript v)" "vo_commitments result = vr_transcript_commitments v"
    by blast
  from prover_went_through [OF p] obtain api_host request' where req: "prover_prepare penv request = Inr (api_host, request')"
      "went_through penv (capture_layout layouts) api_host request' (response_body p) (secrets p) (commitment_openings p)" by blast
  let ?s = "output_session dns now (vr_server_name v) (vr_partial_transcript v) result"
  have same: "observed_of (dns (vr_server_name v)) now v = ?s"
    using out(6) by (simp add: observed_of_def output_session_def)
  from r obtain data where data: "from_observed keccak256 ?s = Inr data" "encode_attested cfg data = Inr (cs_record s)"
      "sign (keccak256 (cs_record s)) = Some (cs_signature s)" "cs_created_at s = now"
      "cs_response_body s = response_body p" "cs_authority s = dns (vr_server_name v)"
    unfolding record_session_Some same by blast
  have fit: "slice_ok (unsafe_of dir (obs_transcript ?s)) \<and> slice_ok (authed_of dir (obs_transcript ?s))"
      "slice_ok (obs_commitments ?s)" for dir
    using slices out(3,5) unfolding slices_fit_def by (simp_all add: output_session_def)
  note dec = record_decodes [OF data(1) wire keccak fit]
  have "session_describable ?s" using data(1) by (simp add: from_observed_eq)
  moreover have "dec_attested (cs_record s @ rest) = Some (record_of keccak256 ?s, rest)" for rest
    using dec(1) dec(2) [of rest] data(2) by simp
  ultimately show ?thesis using that out(1-5) data(3-6) req by metis
qed

text \<open>What the notary is shown of one direction, whatever its output is.\<close>

definition shown_as :: "('tls, 'name) verifier_env \<Rightarrow> direction \<Rightarrow> layout \<Rightarrow> bytes \<Rightarrow> bool" where
  "shown_as venv dir l data \<longleftrightarrow> (\<forall>result t. v_accept_proof venv = Inr result \<longrightarrow> vo_transcript result = Some t \<longrightarrow>
     (let session = \<lparr>obs_transcript = t, obs_authority = [], obs_commitments = vo_commitments result, obs_created_at = 0\<rparr> in
      observes dir l data session \<and> sha256_hashes dir session))"

lemma shown_as_observes:
  assumes "shown_as venv dir l data" and "v_accept_proof venv = Inr result" and "vo_transcript result = Some t"
  shows "observes dir l data (output_session dns now n t result) \<and> sha256_hashes dir (output_session dns now n t result)"
  using assms by (simp add: shown_as_def output_session_def observes_def sha256_hashes_def Let_def)

section \<open>A sample session\<close>

definition sample_layouts :: layouts where
  "sample_layouts sent recv = Inr (\<lparr>reveal = [rng 0 2], commit = [rng 2 4]\<rparr>, \<lparr>reveal = [rng 0 4], commit = []\<rparr>)"

definition sample_shown :: partial_transcript where
  "sample_shown = \<lparr>len_sent = 4, len_received = 4, sent_authed = [rng 0 2], received_authed = [rng 0 4],
     sent_unsafe = [1, 2, 0, 0], received_unsafe = [5, 6, 7, 8]\<rparr>"

definition sample_notary :: "(nat, bytes) verifier_env" where
  "sample_notary = sample_verifier\<lparr>v_accept_proof := Inr \<lparr>vo_server_name = Some (ascii ''api.x.com''),
     vo_transcript = Some sample_shown, vo_commitments = [HashCommitment (sample_hash Sent 2 4)]\<rparr>\<rparr>"

definition sample_keccak :: "bytes \<Rightarrow> bytes" where
  "sample_keccak bs = take 32 (bs @ replicate 32 0)"

definition sample_observed :: observed_session where
  "sample_observed = \<lparr>obs_transcript = sample_shown, obs_authority = ascii ''api.x.com'',
     obs_commitments = [HashCommitment (sample_hash Sent 2 4)], obs_created_at = 9\<rparr>"

definition sample_capture :: capture_session where
  "sample_capture = (let rec = lay_attested (record_of sample_keccak sample_observed) in
     \<lparr>cs_record = rec, cs_signature = replicate 63 0 @ [7, 28], cs_created_at = 9, cs_response_body = [1, 2],
      cs_authority = ascii ''api.x.com''\<rparr>)"

lemma sample_keccak_32: "length (sample_keccak bs) = 32"
  by (simp add: sample_keccak_def)

lemma sample_notary_fit: "slices_fit sample_notary"
proof -
  have "slice_ok (unsafe_of dir sample_shown) \<and> slice_ok (authed_of dir sample_shown)" for dir
    by (cases dir) (simp_all add: sample_shown_def unsafe_of_def authed_of_def isize_max_def)
  then show ?thesis by (simp add: slices_fit_def sample_notary_def isize_max_def)
qed

lemma sample_notary_shown:
  "shown_as sample_notary Sent \<lparr>reveal = [rng 0 2], commit = [rng 2 4]\<rparr> [1, 2, 3, 4]"
  "shown_as sample_notary Received \<lparr>reveal = [rng 0 4], commit = []\<rparr> [5, 6, 7, 8]"
  by (simp_all add: shown_as_def sample_notary_def sample_shown_def observes_def sha256_hashes_def Let_def
      authed_of_def unsafe_of_def in_slice_def covered_def covers_def upt_rec sample_hash_def)

lemma sample_notary_returns:
  "verifier sample_notary (Inr \<lparr>vr_partial_transcript = sample_shown, vr_server_name = ascii ''api.x.com'',
     vr_tls_transcript = 0, vr_transcript_commitments = [HashCommitment (sample_hash Sent 2 4)], vr_io = (7 :: nat)\<rparr>)"
proof -
  have "snd (verifier_setup sample_notary) =
      Inr (ascii ''api.x.com'', sample_shown, 0, [HashCommitment (sample_hash Sent 2 4)])"
    by (simp add: verifier_setup_def leave_scope_def accept_session_def check_request_def accept_proof_def sample_notary_def
        run_simps mpc_err_def sample_verifier_def max_sent_data_def max_recv_data_def overrun_of_def application_data_len_def)
  then obtain s :: "(verifier_call, bytes \<times> partial_transcript \<times> nat \<times> transcript_commitment list, nat) race"
    where "reach (verifier_setup sample_notary) s"
      "phase_of s = Returned (Inr ((ascii ''api.x.com'', sample_shown, 0, [HashCommitment (sample_hash Sent 2 4)]), 7))"
    by (rule reach_returns)
  from verifier.returned [OF this] show ?thesis by (simp add: verifier_result_of_def)
qed

lemma sample_recorded:
  assumes "response_body p = [1, 2]"
  shows "record_session wire_config sample_keccak (\<lambda>n. n) (capture_sign toy_curve sample_keccak 7) 9 p
      \<lparr>vr_partial_transcript = sample_shown, vr_server_name = ascii ''api.x.com'',
       vr_tls_transcript = 0 :: nat, vr_transcript_commitments = [HashCommitment (sample_hash Sent 2 4)], vr_io = 7 :: nat\<rparr> = Some sample_capture"
proof -
  have "from_observed sample_keccak sample_observed = Inr (record_of sample_keccak sample_observed)"
    by (simp add: from_observed_eq session_describable_def direction_describable_def sample_observed_def sample_shown_def
        sample_hash_def authed_of_def unsafe_of_def describable_def fits_def in_slice_def)
  moreover have "slice_ok (unsafe_of dir (obs_transcript sample_observed)) \<and> slice_ok (authed_of dir (obs_transcript sample_observed))" for dir
    by (cases dir) (simp_all add: sample_observed_def sample_shown_def unsafe_of_def authed_of_def isize_max_def)
  moreover have "slice_ok (obs_commitments sample_observed)" by (simp add: sample_observed_def isize_max_def)
  ultimately have "encode_attested wire_config (record_of sample_keccak sample_observed) =
      Inr (lay_attested (record_of sample_keccak sample_observed))" "from_observed sample_keccak sample_observed = Inr (record_of sample_keccak sample_observed)"
    using record_decodes(1) [where ?keccak256.0 = sample_keccak, OF _ wire_config_fixint sample_keccak_32] by blast+
  moreover have "observed_of (ascii ''api.x.com'') 9 \<lparr>vr_partial_transcript = sample_shown, vr_server_name = ascii ''api.x.com'',
      vr_tls_transcript = 0 :: nat, vr_transcript_commitments = [HashCommitment (sample_hash Sent 2 4)], vr_io = 7 :: nat\<rparr> = sample_observed"
    by (simp add: observed_of_def sample_observed_def)
  ultimately show ?thesis
    using assms by (simp add: record_session_Some sample_capture_def Let_def capture_sign_def sign_eth_claim_def toy_curve_def ok_def)
qed

text \<open>Any prover that returns the body is notarized by the sample notary.\<close>

lemma sample_notarize:
  fixes env :: "(bytes option \<times> bytes, bytes, unit, list_builder, (direction \<times> span \<times> hash_alg_id) list, nat) prover_env"
  assumes "prover_prepare env request = Inr (host, request')"
    and "snd (prover_setup env (capture_layout layouts) host request') = Inr ([1, 2], 3, ops)"
  shows "notarize env sample_notary wire_config sample_keccak (\<lambda>n. n) (\<lambda>_. []) 9 (capture_sign toy_curve sample_keccak 7)
     request layouts (Finished (Inr sample_capture))"
proof -
  obtain s :: "((bytes option \<times> bytes, unit) prover_call, bytes \<times> nat \<times> commitment_opening list, nat) race"
    where "reach (prover_setup env (capture_layout layouts) host request') s"
      "phase_of s = Returned (Inr (([1, 2], 3, ops), 7))"
    by (rule reach_returns [OF assms(2)])
  note p = prover_generic.returned [OF assms(1) this]
  show ?thesis
    by (rule notarize.notarized [OF p sample_notary_returns sample_recorded]) (simp add: prover_result_of_def)
qed

text \<open>What the sample prover unfolds to.\<close>

lemmas run_sample = prover_setup_def leave_scope_def run_simps setup_mpc_def connect_tls_def exchange_def take_prover_def
  prove_layouts_def attestation_request_def sample_env_def capture_layout_def mpc_err_def
  transcript_commit_config_def sample_builder_def Let_def

lemma sample_notarized:
  "notarize sample_env sample_notary wire_config sample_keccak (\<lambda>n. n) (\<lambda>_. []) 9 (capture_sign toy_curve sample_keccak 7)
     sample_request sample_layouts (Finished (Inr sample_capture))"
  by (rule sample_notarize [OF sample_prepare]) (simp add: run_sample sample_layouts_def)

section \<open>Properties\<close>

text \<open>C18. A session the capture tool keeps is an attested one, end to end: the platform answered 200
  with the body that is kept (and every other stage of the prover's session succeeded), the notary's side had checked the limits, the identity and
  every committed range, the record decodes in one pass to what the verified output shows
  under the revealed server name and the clock, and its signature recovers to the notary
  key.\<close>
theorem notarized_session_is_attested:
  assumes "notarize penv venv cfg keccak256 dns io_text now (capture_sign k keccak256 key) request layouts (Finished (Inr s))"
    and "big_endian_fixint cfg" and "\<And>bs. length (keccak256 bs) = 32" and "slices_fit venv" and "ecdsa_laws k"
  shows "(\<exists>result n t. v_accept_proof venv = Inr result \<and> vo_server_name result = Some n \<and> vo_transcript result = Some t \<and>
      session_ok venv \<and> request_ok venv \<and> cs_authority s = dns n \<and>
      dec_attested (cs_record s @ rest) = Some (record_of keccak256 (output_session dns now n t result), rest)) \<and>
    recover_eth_claim k keccak256 (cs_signature s) (keccak256 (cs_record s)) = Inr (verifying_key k key) \<and>
    (\<exists>api_host request' secs ops. prover_prepare penv request = Inr (api_host, request') \<and>
      went_through penv (capture_layout layouts) api_host request' (cs_response_body s) secs ops)"
proof (rule notarize_parts [OF assms(1-4)], intro conjI)
  fix result n t api_host request' secs ops
  assume a: "v_accept_proof venv = Inr result" "vo_server_name result = Some n" "vo_transcript result = Some t"
    "session_ok venv" "request_ok venv" "cs_authority s = dns n"
    "\<And>rest. dec_attested (cs_record s @ rest) = Some (record_of keccak256 (output_session dns now n t result), rest)"
    "capture_sign k keccak256 key (keccak256 (cs_record s)) = Some (cs_signature s)"
    "prover_prepare penv request = Inr (api_host, request')"
    "went_through penv (capture_layout layouts) api_host request' (cs_response_body s) secs ops"
  show "\<exists>result n t. v_accept_proof venv = Inr result \<and> vo_server_name result = Some n \<and> vo_transcript result = Some t \<and>
      session_ok venv \<and> request_ok venv \<and> cs_authority s = dns n \<and>
      dec_attested (cs_record s @ rest) = Some (record_of keccak256 (output_session dns now n t result), rest)"
    using a(1-7) by blast
  have "sign_eth_claim k keccak256 key (keccak256 (cs_record s)) = Inr (cs_signature s)"
    using a(8) by (simp add: capture_sign_def ok_def split: sum.splits)
  from sign_recover_roundtrip_parts(4) [OF assms(5) this]
  show "recover_eth_claim k keccak256 (cs_signature s) (keccak256 (cs_record s)) = Inr (verifying_key k key)" .
  show "\<exists>api_host request' secs ops. prover_prepare penv request = Inr (api_host, request') \<and>
      went_through penv (capture_layout layouts) api_host request' (cs_response_body s) secs ops"
    using a(9,10) by blast
qed

theorem notarized_session_is_attested_witness:
  "recover_eth_claim toy_curve sample_keccak (replicate 63 0 @ [7, 28]) (sample_keccak (cs_record sample_capture)) = Inr 7"
  using notarized_session_is_attested [OF sample_notarized wire_config_fixint sample_keccak_32 sample_notary_fit toy_curve_laws, of "[]"]
  by (simp add: sample_capture_def Let_def) (simp add: toy_curve_def)

text \<open>C17. The layouts a capture chose are covered in what it keeps: where they tile the two
  transcripts and the notary was shown what they reveal and commit, the record that was
  signed decodes to one whose two blocks each tile their direction and commit exactly what
  the layouts commit.\<close>
theorem notarized_record_covers:
  assumes "notarize penv venv cfg keccak256 dns io_text now sign request layouts (Finished (Inr s))"
    and "big_endian_fixint cfg" and "\<And>bs. length (keccak256 bs) = 32" and "slices_fit venv"
    and "layouts (env_sent penv) (env_received penv) = Inr (sl, rl)"
    and "tiles sl (length (env_sent penv))" and "tiles rl (length (env_received penv))"
    and "length (env_sent penv) < 2 ^ 32" and "length (env_received penv) < 2 ^ 32"
    and "shown_as venv Sent sl (env_sent penv)" and "shown_as venv Received rl (env_received penv)"
  shows "\<exists>d. dec_attested (cs_record s) = Some (d, []) \<and> created_at d = cs_created_at s \<and>
    authority_id d = authority_id_of keccak256 (cs_authority s) \<and>
    tiles_from 0 (block_spans (sent_block d)) (length (env_sent penv)) \<and>
    mset (map com_span (blk_commitments (sent_block d))) = mset (commit sl) \<and>
    tiles_from 0 (block_spans (received_block d)) (length (env_received penv)) \<and>
    mset (map com_span (blk_commitments (received_block d))) = mset (commit rl)"
proof (rule notarize_parts [OF assms(1-4)])
  fix result n t
  assume a: "v_accept_proof venv = Inr result" "vo_transcript result = Some t" "cs_authority s = dns n" "cs_created_at s = now"
    and dec: "\<And>rest. dec_attested (cs_record s @ rest) = Some (record_of keccak256 (output_session dns now n t result), rest)"
  let ?s = "output_session dns now n t result"
  note sent = shown_as_observes [OF assms(10) a(1,2), of dns now n] and recv = shown_as_observes [OF assms(11) a(1,2), of dns now n]
  note bs = observed_block [OF conjunct1 [OF sent] conjunct2 [OF sent] assms(6,8)]
    and br = observed_block [OF conjunct1 [OF recv] conjunct2 [OF recv] assms(7,9)]
  have "dec_attested (cs_record s) = Some (record_of keccak256 ?s, [])" using dec [of "[]"] by simp
  moreover have "created_at (record_of keccak256 ?s) = cs_created_at s"
    "authority_id (record_of keccak256 ?s) = authority_id_of keccak256 (cs_authority s)"
    using a(3,4) by (simp_all add: record_of_def output_session_def)
  moreover have "sent_block (record_of keccak256 ?s) = block_of ?s Sent" "received_block (record_of keccak256 ?s) = block_of ?s Received"
    by (simp_all add: record_of_def)
  ultimately show ?thesis using bs(3,4) br(3,4) by (intro exI [of _ "record_of keccak256 ?s"]) simp
qed

theorem notarized_record_covers_witness:
  "\<exists>d. dec_attested (cs_record sample_capture) = Some (d, []) \<and> tiles_from 0 (block_spans (sent_block d)) 4 \<and>
    mset (map com_span (blk_commitments (sent_block d))) = {#rng 2 4#}"
proof -
  have sent: "env_sent sample_env = [1, 2, 3, 4]" "env_received sample_env = [5, 6, 7, 8]" by (simp_all add: sample_env_def)
  note shown = sample_notary_shown [folded sent]
  have chosen: "sample_layouts (env_sent sample_env) (env_received sample_env) =
      Inr (\<lparr>reveal = [rng 0 2], commit = [rng 2 4]\<rparr>, \<lparr>reveal = [rng 0 4], commit = []\<rparr>)" by (simp add: sample_layouts_def)
  have small: "length (env_sent sample_env) < 2 ^ 32" "length (env_received sample_env) < 2 ^ 32" by (simp_all add: sent)
  have "tiles \<lparr>reveal = [rng 0 2], commit = [rng 2 4]\<rparr> (length (env_sent sample_env))"
    "tiles \<lparr>reveal = [rng 0 4], commit = []\<rparr> (length (env_received sample_env))"
    by (simp_all add: sent tiles_def spans_of_def)
  from notarized_record_covers [OF sample_notarized wire_config_fixint sample_keccak_32 sample_notary_fit chosen this small shown]
  obtain d where "dec_attested (cs_record sample_capture) = Some (d, [])"
    "tiles_from 0 (block_spans (sent_block d)) (length (env_sent sample_env))"
    "mset (map com_span (blk_commitments (sent_block d))) = mset [rng 2 4]" by auto
  moreover have "length (env_sent sample_env) = 4" by (simp add: sent)
  ultimately show ?thesis by auto
qed

end
