(* ===== verification/Form_Url.thy ===== *)
theory Form_Url
  imports Rust_Str
begin

text \<open>
  \<open>form_encode\<close> and \<open>form_decode\<close> of \<open>libid-tlsn/examples/capture_ceremony.rs\<close>, with what they use of
  the standard library: \<open>str::from_utf8\<close> and \<open>u8::from_str_radix\<close> in base 16. Lemmas: decoding
  undoes encoding, and an encoded value holds none of the bytes that delimit a form or a
  request line.
\<close>

section \<open>str::from_utf8 and u8::from_str_radix\<close>

function from_utf8_ok :: "bytes \<Rightarrow> bool" where
  "from_utf8_ok xs =
     (if xs = [] then True
      else if fst (utf8_step xs) then from_utf8_ok (drop (snd (utf8_step xs)) xs) else False)"
  by pat_completeness auto
termination
  by (relation "measure length") (auto simp: utf8_step_pos)

declare from_utf8_ok.simps [simp del]

lemma from_utf8_ok_Nil [simp]: "from_utf8_ok []"
  by (simp add: from_utf8_ok.simps)

lemma from_utf8_ok_ascii: "is_ascii c \<Longrightarrow> from_utf8_ok (c # xs) \<longleftrightarrow> from_utf8_ok xs"
  by (subst from_utf8_ok.simps)
     (simp add: utf8_step_def Let_def safe_get_def utf8_char_width_def is_ascii_def)

text \<open>A \<open>str\<close> decodes to itself.\<close>

lemma from_utf8_lossy_ok: "from_utf8_ok xs \<Longrightarrow> from_utf8_lossy xs = xs"
proof (induction xs rule: from_utf8_ok.induct)
  case (1 xs)
  then show ?case
    by (cases "xs = []") (auto simp: from_utf8_lossy.simps [of xs] from_utf8_ok.simps [of xs] split: if_splits)
qed

definition to_digit_16 :: "byte \<Rightarrow> nat option" where
  "to_digit_16 c =
     (if is_ascii_digit c then Some (unat c - 0x30)
      else if 0x41 \<le> c \<and> c \<le> 0x46 then Some (unat c - 0x37)
      else if 0x61 \<le> c \<and> c \<le> 0x66 then Some (unat c - 0x57)
      else None)"

fun radix_16 :: "bytes \<Rightarrow> nat \<Rightarrow> byte option" where
  "radix_16 [] acc = Some (of_nat acc)"
| "radix_16 (c # cs) acc =
     (case to_digit_16 c of
        None \<Rightarrow> None
      | Some d \<Rightarrow> if acc * 16 + d < 256 then radix_16 cs (acc * 16 + d) else None)"

text \<open>A leading \<open>+\<close> is accepted before at least one digit; a sign alone is not a number.\<close>

definition u8_from_hex :: "bytes \<Rightarrow> byte option" where
  "u8_from_hex src =
     (case src of
        [] \<Rightarrow> None
      | [c] \<Rightarrow> if c = 0x2B \<or> c = 0x2D then None else radix_16 src 0
      | c # cs \<Rightarrow> if c = 0x2B then radix_16 cs 0 else radix_16 src 0)"

section \<open>form_encode\<close>

definition upper_hex_digit :: "nat \<Rightarrow> byte" where
  "upper_hex_digit n = (if n < 10 then 0x30 + of_nat n else 0x37 + of_nat n)"

definition form_encode_byte :: "byte \<Rightarrow> bytes" where
  "form_encode_byte b =
     (if is_ascii_alphanumeric b \<or> b \<in> set (ascii ''-._~'') then [b]
      else [0x25, upper_hex_digit (unat b div 16), upper_hex_digit (unat b mod 16)])"

definition form_encode :: "bytes \<Rightarrow> bytes" where
  "form_encode v = concat (map form_encode_byte v)"

section \<open>form_decode\<close>

text \<open>The loop, with the index \<open>i\<close> and the output so far.\<close>

function form_decode_loop :: "bytes \<Rightarrow> nat \<Rightarrow> bytes \<Rightarrow> bytes" where
  "form_decode_loop bs i out =
     (if length bs \<le> i then out
      else if bs ! i = 0x25 \<and> i + 2 < length bs then
        let pair = slice bs (rng (i + 1) (i + 3)); hex = (if from_utf8_ok pair then pair else []) in
        (case u8_from_hex hex of
           Some b \<Rightarrow> form_decode_loop bs (i + 3) (out @ [b])
         | None \<Rightarrow> form_decode_loop bs (i + 1) (out @ [0x25]))
      else if bs ! i = 0x2B then form_decode_loop bs (i + 1) (out @ [0x20])
      else form_decode_loop bs (i + 1) (out @ [bs ! i]))"
  by pat_completeness auto
termination
  by (relation "measure (\<lambda>(bs, i, out). length bs - i)") auto

declare form_decode_loop.simps [simp del]

definition form_decode :: "bytes \<Rightarrow> bytes" where
  "form_decode v = from_utf8_lossy (form_decode_loop v 0 [])"

lemmas [eval] = to_digit_16_def u8_from_hex_def upper_hex_digit_def form_encode_byte_def form_encode_def
  from_utf8_ok.simps form_decode_loop.simps form_decode_def slice_def

section \<open>Decoding undoes encoding\<close>

lemma loop_end: "length bs \<le> i \<Longrightarrow> form_decode_loop bs i out = out"
  by (simp add: form_decode_loop.simps)

lemma loop_plain:
  assumes "bs = pre @ c # rest" and "c \<noteq> 0x25" "c \<noteq> 0x2B"
  shows "form_decode_loop bs (length pre) out = form_decode_loop bs (length (pre @ [c])) (out @ [c])"
  using assms by (subst form_decode_loop.simps) simp

lemma loop_percent:
  assumes "bs = pre @ 0x25 # a # b # rest" and "from_utf8_ok [a, b]" and "u8_from_hex [a, b] = Some c"
  shows "form_decode_loop bs (length pre) out = form_decode_loop bs (length (pre @ [0x25, a, b])) (out @ [c])"
  using assms by (subst form_decode_loop.simps) (simp add: slice_def Let_def add.commute numeral_3_eq_3)

lemma unat_upper_hex: "n < 16 \<Longrightarrow> unat (upper_hex_digit n) = (if n < 10 then 48 + n else 55 + n)"
  by (simp add: upper_hex_digit_def unat_word_ariths unat_of_nat)

lemma upper_hex:
  assumes "n < 16"
  shows "is_ascii (upper_hex_digit n)" and "to_digit_16 (upper_hex_digit n) = Some n"
    and "is_ascii_alphanumeric (upper_hex_digit n)"
  using unat_upper_hex [OF assms] assms
  by (simp_all add: is_ascii_def to_digit_16_def is_ascii_digit_def is_ascii_alphanumeric_def word_less_nat_alt word_le_nat_alt)

lemma nibbles: "unat (b :: byte) div 16 < 16" "unat b mod 16 < 16"
  using unsigned_less [of b, where ?'a = nat] by (simp_all add: less_mult_imp_div_less)

lemma u8_from_hex_pair:
  assumes "to_digit_16 a = Some h" and "to_digit_16 b = Some l" and "h < 16" "l < 16"
  shows "u8_from_hex [a, b] = Some (of_nat (h * 16 + l))"
proof -
  have "a \<noteq> 0x2B" using assms(1) by (auto simp: to_digit_16_def is_ascii_digit_def)
  then show ?thesis using assms by (simp add: u8_from_hex_def)
qed

lemma loop_encoded_byte:
  assumes "bs = pre @ form_encode_byte b @ rest"
  shows "form_decode_loop bs (length pre) out = form_decode_loop bs (length (pre @ form_encode_byte b)) (out @ [b])"
proof (cases "is_ascii_alphanumeric b \<or> b \<in> set (ascii ''-._~'')")
  case True
  then have "b \<noteq> 0x25" "b \<noteq> 0x2B"
    by (auto simp: is_ascii_alphanumeric_def is_ascii_digit_def ascii_def)
  with True assms loop_plain [of bs pre b rest out] show ?thesis by (simp add: form_encode_byte_def)
next
  case False
  let ?h = "unat b div 16" and ?l = "unat b mod 16"
  have "from_utf8_ok [upper_hex_digit ?h, upper_hex_digit ?l]"
    using upper_hex(1) nibbles by (simp add: from_utf8_ok_ascii)
  moreover have "(of_nat (?h * 16 + ?l) :: byte) = b" by (subst div_mult_mod_eq) simp
  then have "u8_from_hex [upper_hex_digit ?h, upper_hex_digit ?l] = Some b"
    using u8_from_hex_pair [OF upper_hex(2) upper_hex(2)] nibbles by metis
  ultimately show ?thesis
    using False assms loop_percent [of bs pre "upper_hex_digit ?h" "upper_hex_digit ?l" rest b out]
    by (simp add: form_encode_byte_def)
qed

lemma loop_encoded:
  "bs = pre @ form_encode v \<Longrightarrow> form_decode_loop bs (length pre) out = out @ v"
proof (induction v arbitrary: pre out)
  case (Cons b v)
  then have bs: "bs = pre @ form_encode_byte b @ form_encode v" by (simp add: form_encode_def)
  from Cons.IH [of "pre @ form_encode_byte b" "out @ [b]"] bs loop_encoded_byte [OF bs, of out] show ?case by simp
qed (simp add: form_encode_def loop_end)

lemma form_decode_encode: "from_utf8_ok v \<Longrightarrow> form_decode (form_encode v) = v"
  using loop_encoded [of "form_encode v" "[]" v "[]"] by (simp add: form_decode_def from_utf8_lossy_ok)

section \<open>What an encoded value holds\<close>

definition form_safe :: "byte \<Rightarrow> bool" where
  "form_safe c \<longleftrightarrow> is_ascii_alphanumeric c \<or> c \<in> set (ascii ''-._~%'')"

lemma form_encode_safe: "list_all form_safe (form_encode v)"
proof -
  have "list_all form_safe (form_encode_byte b)" for b
    using upper_hex(3) nibbles by (auto simp: form_encode_byte_def form_safe_def ascii_def)
  then show ?thesis by (auto simp: form_encode_def list_all_iff)
qed

lemma form_safe_no_delimiter: "form_safe c \<Longrightarrow> c \<notin> set (ascii ''&=?+# /:'') \<and> c \<noteq> 13 \<and> c \<noteq> 10"
  by (auto simp: form_safe_def ascii_def is_ascii_alphanumeric_def is_ascii_digit_def)

lemma form_safe_ascii: "form_safe c \<Longrightarrow> is_ascii c"
  by (auto simp: form_safe_def ascii_def is_ascii_alphanumeric_def is_ascii_digit_def is_ascii_def word_le_nat_alt word_less_nat_alt)

definition unreserved :: "bytes \<Rightarrow> bool" where
  "unreserved v \<longleftrightarrow> list_all (\<lambda>c. is_ascii_alphanumeric c \<or> c \<in> set (ascii ''-._~'')) v"

lemma form_encode_unreserved: "unreserved v \<Longrightarrow> form_encode v = v"
  by (induction v) (auto simp: unreserved_def form_encode_def form_encode_byte_def)

lemma from_utf8_ok_all: "list_all is_ascii v \<Longrightarrow> from_utf8_ok v"
  by (induction v) (simp_all add: from_utf8_ok_ascii)

lemma unreserved_utf8: "unreserved v \<Longrightarrow> from_utf8_ok v"
  using form_safe_ascii by (intro from_utf8_ok_all) (auto simp: unreserved_def list_all_iff form_safe_def ascii_def)

section \<open>Properties\<close>

text \<open>A form value survives its encoding: decoding an encoded string gives it back, and the encoded
  text is made of letters, digits and \<open>-._~%\<close> only, so it holds no \<open>&\<close>, \<open>=\<close>, \<open>?\<close>, space or line
  break that would end the value, the query or the line it stands in.\<close>
theorem form_roundtrip:
  assumes "from_utf8_ok v"
  shows "form_decode (form_encode v) = v \<and> list_all form_safe (form_encode v) \<and>
    list_all (\<lambda>c. c \<notin> set (ascii ''&=?+# /:'')) (form_encode v)"
  using form_decode_encode [OF assms] form_encode_safe [of v] form_safe_no_delimiter by (auto simp: list_all_iff)

theorem form_roundtrip_witness:
  "form_encode (ascii ''a b&c'' @ [0xC3, 0xA9]) = ascii ''a%20b%26c%C3%A9'' \<and>
   form_decode (ascii ''a%20b%26c%C3%A9'') = ascii ''a b&c'' @ [0xC3, 0xA9]"
proof -
  have "from_utf8_ok (ascii ''a b&c'' @ [0xC3, 0xA9])" by (simp add: eval)
  moreover have "form_encode (ascii ''a b&c'' @ [0xC3, 0xA9]) = ascii ''a%20b%26c%C3%A9''" by (simp add: eval)
  ultimately show ?thesis using form_roundtrip by metis
qed

text \<open>
  \<open>form_decode\<close> reads more than it writes: \<open>from_str_radix\<close> takes a sign, so the pair behind a
  percent sign may be \<open>+\<close> and one digit.
\<close>

lemma signed_escape_is_decoded: "form_decode (ascii ''%+5'') = [5]"
  by (simp add: eval)

text \<open>
  The encoding is not quite the one of \<open>URLSearchParams\<close>, which writes a space as \<open>+\<close>, keeps \<open>*\<close> and
  escapes \<open>~\<close>.
\<close>

lemma form_encode_space_star_tilde: "form_encode (ascii '' *~'') = ascii ''%20%2A~''"
  by (simp add: eval)

end
