(* ===== verification/Redirect.thy ===== *)
theory Redirect
  imports Form_Url
begin

text \<open>
  \<open>receive_code\<close> of \<open>libid-tlsn/examples/capture_ceremony.rs\<close>: the loop that waits for the
  browser's redirect. Each connection is the text its first \<open>read\<close> gave; failing socket calls,
  which end the program, are left out. Lemmas: which connection ends the loop, with what
  code, and that the code a provider encodes into its redirect is the code received.
\<close>

section \<open>str::lines, split_once and nth\<close>

definition split_once :: "byte \<Rightarrow> bytes \<Rightarrow> (bytes \<times> bytes) option" where
  "split_once c xs = (case position (\<lambda>x. x = c) xs of None \<Rightarrow> None | Some i \<Rightarrow> Some (take i xs, drop (Suc i) xs))"

text \<open>\<open>lines().next().unwrap_or("")\<close>: up to the first line feed, less one carriage return before it.\<close>

definition first_line :: "bytes \<Rightarrow> bytes" where
  "first_line xs =
     (case split_once 10 xs of
        None \<Rightarrow> xs
      | Some (l, _) \<Rightarrow> if l \<noteq> [] \<and> last l = 13 then butlast l else l)"

definition second_word :: "bytes \<Rightarrow> bytes" where
  "second_word line = (case split_on 0x20 line of _ # w # _ \<Rightarrow> w | _ \<Rightarrow> [])"

lemma split_once_append: "c \<notin> set xs \<Longrightarrow> split_once c (xs @ c # ys) = Some (xs, ys)"
proof -
  assume "c \<notin> set xs"
  then have "position (\<lambda>x. x = c) (xs @ c # ys) = Some (length xs)"
    by (auto simp: position_Some_iff nth_append)
  then show ?thesis by (simp add: split_once_def)
qed

section \<open>One connection\<close>

definition redirect_query :: "bytes \<Rightarrow> bytes" where
  "redirect_query buf =
     (let line = first_line (from_utf8_lossy buf); target = second_word line in
      case split_once 0x3F target of Some (_, q) \<Rightarrow> q | None \<Rightarrow> [])"

definition read_pair :: "bytes \<Rightarrow> bytes option \<times> bytes option \<Rightarrow> bytes option \<times> bytes option" where
  "read_pair pair acc =
     (let (k, v) = (case split_once 0x3D pair of Some kv \<Rightarrow> kv | None \<Rightarrow> (pair, [])); (code, state) = acc in
      if k = ascii ''code'' then (Some (form_decode v), state)
      else if k = ascii ''state'' then (code, Some (form_decode v))
      else (code, state))"

definition redirect_params :: "bytes \<Rightarrow> bytes option \<times> bytes option" where
  "redirect_params buf = fold read_pair (split_on 0x26 (redirect_query buf)) (None, None)"

definition redirect_status :: "bytes \<Rightarrow> bytes option \<times> bytes option \<Rightarrow> bytes \<times> bytes" where
  "redirect_status expected_state p =
     (case p of
        (Some _, Some s) \<Rightarrow>
          if s = expected_state then (ascii ''200 OK'', ascii ''Consent received. You can close this tab.'')
          else (ascii ''400 Bad Request'', ascii ''No code, or the wrong state. Try the URL again.'')
      | _ \<Rightarrow> (ascii ''400 Bad Request'', ascii ''No code, or the wrong state. Try the URL again.''))"

definition redirect_response :: "bytes \<times> bytes \<Rightarrow> bytes" where
  "redirect_response sb =
     (let (status, body) = sb in
      ascii ''HTTP/1.1 '' @ status @ crlf @ ascii ''content-type: text/plain'' @ crlf @
      ascii ''content-length: '' @ ascii (decimal (length body)) @ crlf @ ascii ''connection: close'' @ crlf @ crlf @ body)"

section \<open>The loop\<close>

text \<open>
  The responses written, and the code with which the loop returned; no code while it waits
  for another connection.
\<close>

fun receive_code :: "bytes \<Rightarrow> bytes list \<Rightarrow> bytes list \<times> bytes option" where
  "receive_code expected_state [] = ([], None)"
| "receive_code expected_state (buf # bufs) =
     (let (code, state) = redirect_params buf; sb = redirect_status expected_state (code, state);
          response = redirect_response sb in
      if take 3 (fst sb) = ascii ''200'' then ([response], code)
      else (let (rs, r) = receive_code expected_state bufs in (response # rs, r)))"

lemmas [eval] = split_once_def first_line_def second_word_def redirect_query_def read_pair_def redirect_params_def
  redirect_status_def redirect_response_def

section \<open>Which connection is answered\<close>

definition consents :: "bytes \<Rightarrow> bytes \<Rightarrow> bool" where
  "consents expected_state buf \<longleftrightarrow>
     (\<exists>c. redirect_params buf = (Some c, Some expected_state))"

lemma consents_status:
  "(take 3 (fst (redirect_status expected_state (redirect_params buf))) = ascii ''200'') = consents expected_state buf"
  by (cases "redirect_params buf")
     (auto simp: redirect_status_def consents_def ascii_def split: option.splits)

definition redirect_reply :: "bytes \<Rightarrow> bytes \<Rightarrow> bytes" where
  "redirect_reply expected_state buf = redirect_response (redirect_status expected_state (redirect_params buf))"

lemma receive_code_Cons:
  "receive_code expected_state (buf # bufs) =
     (if consents expected_state buf then ([redirect_reply expected_state buf], fst (redirect_params buf))
      else (redirect_reply expected_state buf # fst (receive_code expected_state bufs), snd (receive_code expected_state bufs)))"
  by (cases "redirect_params buf")
     (simp add: consents_status [symmetric] redirect_reply_def Let_def split_beta)

lemma receive_code_waits:
  "list_all (\<lambda>b. \<not> consents expected_state b) bufs \<Longrightarrow>
   receive_code expected_state (bufs @ later) =
     (map (redirect_reply expected_state) bufs @ fst (receive_code expected_state later), snd (receive_code expected_state later))"
  by (induction bufs) (simp_all add: receive_code_Cons del: receive_code.simps)

lemma receive_code_first:
  assumes "list_all (\<lambda>b. \<not> consents expected_state b) before" and "redirect_params buf = (Some c, Some expected_state)"
  shows "receive_code expected_state (before @ buf # later) =
    (map (redirect_reply expected_state) (before @ [buf]), Some c)"
proof -
  have "consents expected_state buf" using assms(2) by (simp add: consents_def)
  then have "receive_code expected_state (buf # later) = ([redirect_reply expected_state buf], Some c)"
    using assms(2) by (simp add: receive_code_Cons del: receive_code.simps)
  with receive_code_waits [OF assms(1)] show ?thesis by simp
qed

lemma receive_code_returns:
  assumes "receive_code expected_state bufs = (rs, Some c)"
  shows "\<exists>before buf later. bufs = before @ buf # later \<and> list_all (\<lambda>b. \<not> consents expected_state b) before \<and>
    redirect_params buf = (Some c, Some expected_state) \<and> rs = map (redirect_reply expected_state) (before @ [buf])"
proof (cases "list_all (\<lambda>b. \<not> consents expected_state b) bufs")
  case True
  from receive_code_waits [OF this, of "[]"] assms show ?thesis by simp
next
  case False
  then obtain before buf later where b: "bufs = before @ buf # later" "consents expected_state buf"
      "\<forall>x \<in> set before. \<not> consents expected_state x"
    using split_list_first_prop [of bufs "consents expected_state"] by (auto simp: list_all_iff)
  then obtain c' where c': "redirect_params buf = (Some c', Some expected_state)" by (auto simp: consents_def)
  have "list_all (\<lambda>b. \<not> consents expected_state b) before" using b(3) by (simp add: list_all_iff)
  from receive_code_first [OF this c'] assms b this c' show ?thesis by auto
qed

section \<open>A provider's redirect\<close>

definition redirect_request :: "bytes \<Rightarrow> bytes \<Rightarrow> bytes \<Rightarrow> bytes \<Rightarrow> bytes" where
  "redirect_request path c s rest =
     ascii ''GET '' @ path @ ascii ''?code='' @ form_encode c @ ascii ''&state='' @ form_encode s @
     ascii '' HTTP/1.1'' @ crlf @ rest"

lemma from_utf8_lossy_prefix: "list_all is_ascii p \<Longrightarrow> from_utf8_lossy (p @ xs) = p @ from_utf8_lossy xs"
  by (induction p) (simp_all add: from_utf8_lossy_ascii)

lemma first_line_crlf: "10 \<notin> set l \<Longrightarrow> first_line (l @ [13, 10] @ rest) = l"
  using split_once_append [of 10 "l @ [13]" rest] by (simp add: first_line_def)

lemma second_word_line: "0x20 \<notin> set a \<Longrightarrow> 0x20 \<notin> set w \<Longrightarrow> second_word (a @ 0x20 # w @ 0x20 # b) = w"
  by (simp add: second_word_def split_on_append)

definition path_ok :: "bytes \<Rightarrow> bool" where
  "path_ok path \<longleftrightarrow> list_all (\<lambda>c. is_ascii c \<and> c \<notin> set (ascii '' ?'') \<and> c \<noteq> 10) path"

lemma encoded_lacks: "c \<in> set (ascii ''&=?+# /:'') \<or> c = 13 \<or> c = 10 \<Longrightarrow> c \<notin> set (form_encode v)"
  using form_encode_safe [of v] form_safe_no_delimiter by (auto simp: list_all_iff)

lemma redirect_query_request:
  assumes "path_ok path"
  shows "redirect_query (redirect_request path c s rest) = ascii ''code='' @ form_encode c @ ascii ''&state='' @ form_encode s"
proof -
  let ?q = "ascii ''code='' @ form_encode c @ ascii ''&state='' @ form_encode s"
  let ?line = "ascii ''GET'' @ 0x20 # (path @ 0x3F # ?q) @ 0x20 # ascii ''HTTP/1.1''"
  have enc: "list_all is_ascii (form_encode v)" for v
    using form_encode_safe [of v] form_safe_ascii by (auto simp: list_all_iff)
  have lit: "list_all is_ascii ?line"
    using enc assms by (auto simp: ascii_def is_ascii_def list_all_iff path_ok_def)
  have buf: "redirect_request path c s rest = (?line @ [13, 10]) @ rest"
    by (simp add: redirect_request_def ascii_def crlf_def)
  have "list_all is_ascii (?line @ [13, 10])" using lit by (simp add: is_ascii_def)
  then have "from_utf8_lossy (redirect_request path c s rest) = ?line @ [13, 10] @ from_utf8_lossy rest"
    unfolding buf by (subst from_utf8_lossy_prefix) simp_all
  moreover have "10 \<notin> set ?line"
    using encoded_lacks [of 10] assms by (auto simp: ascii_def path_ok_def list_all_iff)
  ultimately have "first_line (from_utf8_lossy (redirect_request path c s rest)) = ?line"
    using first_line_crlf by metis
  moreover have "0x20 \<notin> set (path @ 0x3F # ?q)"
    using encoded_lacks [of "0x20"] assms by (auto simp: ascii_def path_ok_def list_all_iff)
  then have "second_word ?line = path @ 0x3F # ?q" by (intro second_word_line) (simp_all add: ascii_def)
  moreover have "split_once 0x3F (path @ 0x3F # ?q) = Some (path, ?q)"
    using assms by (intro split_once_append) (auto simp: path_ok_def ascii_def list_all_iff)
  ultimately show ?thesis by (simp add: redirect_query_def Let_def)
qed

lemma redirect_params_request:
  assumes "path_ok path" and "from_utf8_ok c" and "from_utf8_ok s"
  shows "redirect_params (redirect_request path c s rest) = (Some c, Some s)"
proof -
  note dec = form_decode_encode
  have a: "0x26 \<notin> set (ascii ''code='' @ form_encode c)" "0x26 \<notin> set (ascii ''state='' @ form_encode s)"
    using encoded_lacks [of "0x26"] by (auto simp: ascii_def)
  have q: "redirect_query (redirect_request path c s rest) =
      (ascii ''code='' @ form_encode c) @ 0x26 # (ascii ''state='' @ form_encode s)"
    by (simp add: redirect_query_request [OF assms(1)] ascii_def)
  have split: "split_on 0x26 (redirect_query (redirect_request path c s rest)) =
      [ascii ''code='' @ form_encode c, ascii ''state='' @ form_encode s]"
    unfolding q split_on_append [OF a(1)] split_on_free [OF a(2)] ..
  have "split_once 0x3D (ascii ''code'' @ 0x3D # form_encode c) = Some (ascii ''code'', form_encode c)"
    "split_once 0x3D (ascii ''state'' @ 0x3D # form_encode s) = Some (ascii ''state'', form_encode s)"
    by (intro split_once_append; simp add: ascii_def)+
  then have "split_once 0x3D (ascii ''code='' @ form_encode c) = Some (ascii ''code'', form_encode c)"
    "split_once 0x3D (ascii ''state='' @ form_encode s) = Some (ascii ''state'', form_encode s)"
    by (simp_all add: ascii_def)
  then show ?thesis using assms dec by (simp add: redirect_params_def split read_pair_def ascii_def)
qed

section \<open>Properties\<close>

text \<open>C25. The loop returns for the consent it asked for and for no other: it returns a code exactly
  when some connection carries that code and the expected state and no connection before it
  carried any code with that state; every connection before it is answered 400 and the loop
  goes on, and while none has come it waits.\<close>
theorem receive_code_exact:
  "(receive_code expected_state bufs = (rs, Some c)) =
     (\<exists>before buf later. bufs = before @ buf # later \<and> list_all (\<lambda>b. \<not> consents expected_state b) before \<and>
        redirect_params buf = (Some c, Some expected_state) \<and> rs = map (redirect_reply expected_state) (before @ [buf])) \<and>
   ((snd (receive_code expected_state bufs) = None) = list_all (\<lambda>b. \<not> consents expected_state b) bufs)"
proof -
  have "snd (receive_code expected_state bufs) \<noteq> None"
    if "\<not> list_all (\<lambda>b. \<not> consents expected_state b) bufs"
  proof -
    from that obtain before buf later where b: "bufs = before @ buf # later" "consents expected_state buf"
        "\<forall>x \<in> set before. \<not> consents expected_state x"
      using split_list_first_prop [of bufs "consents expected_state"] by (auto simp: list_all_iff)
    then show ?thesis using receive_code_first [of expected_state before buf _ later]
      by (auto simp: consents_def list_all_iff)
  qed
  moreover have "snd (receive_code expected_state bufs) = None"
    if "list_all (\<lambda>b. \<not> consents expected_state b) bufs"
    using receive_code_waits [OF that, of "[]"] by simp
  ultimately show ?thesis using receive_code_returns receive_code_first by blast
qed

text \<open>C24. The code a provider sends is the code received: a redirect that carries any code and the
  expected state, each form-encoded, is answered with the code as it was before encoding,
  whatever path and headers stand around it and whatever came before without consent.\<close>
theorem redirect_delivers_code:
  assumes "path_ok path" and "from_utf8_ok c" and "from_utf8_ok s"
    and "list_all (\<lambda>b. \<not> consents s b) before"
  shows "snd (receive_code s (before @ redirect_request path c s rest # later)) = Some c"
  using receive_code_first [OF assms(4) redirect_params_request [OF assms(1-3)]] by simp

theorem redirect_delivers_code_witness:
  "snd (receive_code (ascii ''s1'') [ascii ''GET /favicon.ico HTTP/1.1'' @ crlf,
     redirect_request (ascii ''/callback'') (ascii ''a/b c'') (ascii ''s1'') crlf]) = Some (ascii ''a/b c'')"
proof -
  have "redirect_params (ascii ''GET /favicon.ico HTTP/1.1'' @ crlf) = (None, None)" by (simp add: eval)
  then have "list_all (\<lambda>b. \<not> consents (ascii ''s1'') b) [ascii ''GET /favicon.ico HTTP/1.1'' @ crlf]"
    by (simp add: consents_def)
  moreover have "path_ok (ascii ''/callback'')" by (simp add: path_ok_def ascii_def is_ascii_def)
  moreover have "from_utf8_ok (ascii ''a/b c'')" "from_utf8_ok (ascii ''s1'')" by (simp_all add: eval)
  ultimately show ?thesis
    using redirect_delivers_code [of "ascii ''/callback''" "ascii ''a/b c''" "ascii ''s1''" _ crlf "[]"] by fastforce
qed

end
