(* ===== verification/Capture.thy ===== *)
theory Capture
  imports Redirect Ceremony_Common Layouts
begin

text \<open>
  The straight-line parts of \<open>libid-tlsn/examples/capture_ceremony.rs\<close>: the arguments, the URL the
  account holder opens, the bodies of the two token requests and the requests of each
  platform. Lemmas: which command lines are accepted and what they mean, what a server reads
  out of a URL or a body, and which bytes of a token request the layout commits.
\<close>

section \<open>Arguments\<close>

record arg_state =
  st_platform :: "bytes option"
  st_client_id :: "bytes option"
  st_client_secret :: "bytes option"
  st_redirect_uri :: "bytes option"
  st_listen :: bytes
  st_out :: "bytes option"

record capture_args =
  arg_platform :: bytes
  arg_client_id :: bytes
  arg_client_secret :: "bytes option"
  arg_redirect_uri :: bytes
  arg_listen :: bytes
  arg_out :: bytes

definition set_flag :: "bytes \<Rightarrow> (bytes \<Rightarrow> arg_state \<Rightarrow> arg_state) option" where
  "set_flag flag =
     (if flag = ascii ''--platform'' then Some (\<lambda>v s. s\<lparr>st_platform := Some v\<rparr>)
      else if flag = ascii ''--client-id'' then Some (\<lambda>v s. s\<lparr>st_client_id := Some v\<rparr>)
      else if flag = ascii ''--client-secret'' then Some (\<lambda>v s. s\<lparr>st_client_secret := Some v\<rparr>)
      else if flag = ascii ''--redirect-uri'' then Some (\<lambda>v s. s\<lparr>st_redirect_uri := Some v\<rparr>)
      else if flag = ascii ''--listen'' then Some (\<lambda>v s. s\<lparr>st_listen := v\<rparr>)
      else if flag = ascii ''--out'' then Some (\<lambda>v s. s\<lparr>st_out := Some v\<rparr>)
      else None)"

text \<open>The loop over the words behind the program name. An error is the message of the panic.\<close>

fun read_flags :: "bytes list \<Rightarrow> arg_state \<Rightarrow> bytes + arg_state" where
  "read_flags [] s = Inr s"
| "read_flags [flag] s =
     (case set_flag flag of None \<Rightarrow> Inl (ascii ''unknown flag '' @ flag) | Some f \<Rightarrow> Inl (flag @ ascii '' needs a value''))"
| "read_flags (flag # v # ws) s =
     (case set_flag flag of None \<Rightarrow> Inl (ascii ''unknown flag '' @ flag) | Some f \<Rightarrow> read_flags ws (f v s))"

definition no_args :: arg_state where
  "no_args = \<lparr>st_platform = None, st_client_id = None, st_client_secret = None, st_redirect_uri = None,
              st_listen = ascii ''127.0.0.1:8787'', st_out = None\<rparr>"

definition parse_args :: "bytes list \<Rightarrow> bytes + capture_args" where
  "parse_args ws =
     and_then (read_flags ws no_args) (\<lambda>s.
     and_then (ok_or (st_platform s) (ascii ''--platform x|github'')) (\<lambda>platform.
     and_then (ok_or (st_client_id s) (ascii ''--client-id'')) (\<lambda>client_id.
     and_then (ok_or (st_redirect_uri s) (ascii ''--redirect-uri'')) (\<lambda>redirect_uri.
     and_then (ok_or (st_out s) (ascii ''--out <dir>'')) (\<lambda>out.
     Inr \<lparr>arg_platform = platform, arg_client_id = client_id, arg_client_secret = st_client_secret s,
          arg_redirect_uri = redirect_uri, arg_listen = st_listen s, arg_out = out\<rparr>)))))"

section \<open>The URL to open\<close>

definition authorize_endpoint :: "bytes \<Rightarrow> (bytes \<times> bytes) option" where
  "authorize_endpoint platform =
     (if platform = ascii ''x'' then
        Some (ascii ''https://x.com/i/oauth2/authorize?response_type=code'', ascii ''tweet.read users.read'')
      else if platform = ascii ''github'' then
        Some (ascii ''https://github.com/login/oauth/authorize?'', ascii ''read:user'')
      else None)"

definition capture_state :: "(bytes \<Rightarrow> bytes) \<Rightarrow> (bytes \<Rightarrow> bytes) \<Rightarrow> nat \<Rightarrow> bytes" where
  "capture_state keccak256 hex_encode now =
     hex_encode (take 16 (keccak256 (ascii ''libid capture '' @ ascii (decimal now))))"

text \<open>An unknown platform panics.\<close>

definition authorize_url :: "bytes \<Rightarrow> bytes \<Rightarrow> bytes \<Rightarrow> bytes \<Rightarrow> bytes \<Rightarrow> bytes option" where
  "authorize_url platform client_id redirect_uri state challenge = do {
     (authorize, scope) \<leftarrow> authorize_endpoint platform;
     let separator = (if last authorize = 0x3F then [] else ascii ''&'');
     Some (authorize @ separator @ ascii ''client_id='' @ form_encode client_id @
       ascii ''&redirect_uri='' @ form_encode redirect_uri @ ascii ''&scope='' @ form_encode scope @
       ascii ''&state='' @ state @ ascii ''&code_challenge='' @ challenge @ ascii ''&code_challenge_method=S256'')
   }"

section \<open>The bodies of the token requests\<close>

definition x_token_body :: "bytes \<Rightarrow> bytes \<Rightarrow> bytes \<Rightarrow> bytes \<Rightarrow> bytes" where
  "x_token_body client_id auth_code redirect_uri verifier =
     ascii ''grant_type=authorization_code&client_id='' @ form_encode client_id @ ascii ''&code='' @ form_encode auth_code @
     ascii ''&redirect_uri='' @ form_encode redirect_uri @ ascii ''&code_verifier='' @ verifier"

definition github_token_body :: "bytes \<Rightarrow> bytes \<Rightarrow> bytes \<Rightarrow> bytes \<Rightarrow> bytes \<Rightarrow> bytes" where
  "github_token_body client_id auth_code redirect_uri verifier secret =
     ascii ''client_id='' @ form_encode client_id @ ascii ''&code='' @ form_encode auth_code @
     ascii ''&redirect_uri='' @ form_encode redirect_uri @ ascii ''&code_verifier='' @ verifier @
     ascii ''&client_secret='' @ form_encode secret"

section \<open>The requests\<close>

record request_parts =
  rp_method :: bytes
  rp_uri :: bytes
  rp_headers :: "(bytes \<times> bytes) list"
  rp_body :: bytes

definition x_token_parts :: "bytes \<Rightarrow> request_parts" where
  "x_token_parts body = \<lparr>rp_method = ascii ''POST'', rp_uri = ascii ''https://api.x.com/2/oauth2/token'',
     rp_headers = [(ascii ''Host'', ascii ''api.x.com''),
       (ascii ''Content-Type'', ascii ''application/x-www-form-urlencoded''),
       (ascii ''Content-Length'', ascii (decimal (length body))),
       (ascii ''Accept'', ascii ''application/json''), (ascii ''Connection'', ascii ''close'')],
     rp_body = body\<rparr>"

definition x_identity_parts :: "bytes \<Rightarrow> request_parts" where
  "x_identity_parts bearer = \<lparr>rp_method = ascii ''GET'', rp_uri = ascii ''https://api.x.com/2/users/me'',
     rp_headers = [(ascii ''Authorization'', ascii ''Bearer '' @ bearer), (ascii ''Accept'', ascii ''application/json''),
       (ascii ''Host'', ascii ''api.x.com''), (ascii ''Connection'', ascii ''close'')],
     rp_body = []\<rparr>"

definition github_token_parts :: "bytes \<Rightarrow> request_parts" where
  "github_token_parts body = \<lparr>rp_method = ascii ''POST'', rp_uri = ascii ''https://github.com/login/oauth/access_token'',
     rp_headers = [(ascii ''host'', ascii ''github.com''),
       (ascii ''content-type'', ascii ''application/x-www-form-urlencoded''),
       (ascii ''accept'', ascii ''application/json''), (ascii ''connection'', ascii ''close'')],
     rp_body = body\<rparr>"

definition github_identity_parts :: "bytes \<Rightarrow> request_parts" where
  "github_identity_parts bearer = \<lparr>rp_method = ascii ''GET'', rp_uri = ascii ''https://api.github.com/user'',
     rp_headers = [(ascii ''Host'', ascii ''api.github.com''), (ascii ''Authorization'', ascii ''Bearer '' @ bearer),
       (ascii ''Accept'', ascii ''application/vnd.github+json''), (ascii ''User-Agent'', browser_agent),
       (ascii ''X-GitHub-Api-Version'', ascii ''2022-11-28''), (ascii ''Connection'', ascii ''close'')],
     rp_body = []\<rparr>"

text \<open>The builder of \<open>http\<close>; \<open>None\<close> is the panic on a request that is not valid.\<close>

record ('b, 'req) request_builder =
  rb_new :: "bytes \<Rightarrow> bytes \<Rightarrow> 'b"
  rb_header :: "bytes \<Rightarrow> bytes \<Rightarrow> 'b \<Rightarrow> 'b"
  rb_body :: "bytes \<Rightarrow> 'b \<Rightarrow> 'req option"

definition capture_request :: "('b, 'req) request_builder \<Rightarrow> request_parts \<Rightarrow> 'req option" where
  "capture_request rb p =
     rb_body rb (rp_body p) (fold (\<lambda>(name, v). rb_header rb name v) (rp_headers p) (rb_new rb (rp_method p) (rp_uri p)))"

section \<open>Command lines\<close>

definition known_flags :: "bytes list" where
  "known_flags = map ascii [''--platform'', ''--client-id'', ''--client-secret'', ''--redirect-uri'', ''--listen'', ''--out'']"

lemma set_flag_known: "set_flag f = None \<longleftrightarrow> f \<notin> set known_flags"
  by (simp add: set_flag_def known_flags_def)

definition last_value :: "bytes \<Rightarrow> (bytes \<times> bytes) list \<Rightarrow> bytes option" where
  "last_value f ps = map_of (rev ps) f"

definition words_of :: "(bytes \<times> bytes) list \<Rightarrow> bytes list" where
  "words_of ps = concat (map (\<lambda>(f, v). [f, v]) ps)"

definition flags_read :: "(bytes \<times> bytes) list \<Rightarrow> arg_state \<Rightarrow> arg_state" where
  "flags_read ps = fold (\<lambda>(f, v). the (set_flag f) v) ps"

lemma read_flags_words: "list_all (\<lambda>(f, v). f \<in> set known_flags) ps \<Longrightarrow> read_flags (words_of ps) s = Inr (flags_read ps s)"
proof (induction ps arbitrary: s)
  case (Cons p ps)
  obtain f v where p: "p = (f, v)" by (cases p)
  then obtain g where "set_flag f = Some g" using Cons.prems set_flag_known [of f] by auto
  with Cons p show ?case by (simp add: words_of_def flags_read_def)
qed (simp add: words_of_def flags_read_def)

lemma read_flags_Inr: "read_flags ws s = Inr s' \<Longrightarrow> \<exists>ps. ws = words_of ps \<and> list_all (\<lambda>(f, v). f \<in> set known_flags) ps"
proof (induction ws s rule: read_flags.induct)
  case (1 s)
  then show ?case by (intro exI [of _ "[]"]) (simp add: words_of_def)
next
  case (3 flag v ws s)
  then obtain g where g: "set_flag flag = Some g" by (auto split: option.splits)
  with 3 obtain ps where "ws = words_of ps" "list_all (\<lambda>(f, v). f \<in> set known_flags) ps" by auto
  moreover have "flag \<in> set known_flags" using g set_flag_known by force
  ultimately show ?case by (intro exI [of _ "(flag, v) # ps"]) (simp add: words_of_def)
qed (auto split: option.splits)

definition field_of :: "bytes option \<Rightarrow> bytes option \<Rightarrow> bytes option" where
  "field_of new old = (case new of Some v \<Rightarrow> Some v | None \<Rightarrow> old)"

lemma flags_read_fields:
  assumes "list_all (\<lambda>(f, v). f \<in> set known_flags) ps"
  shows "st_platform (flags_read ps s) = field_of (last_value (ascii ''--platform'') ps) (st_platform s) \<and>
    st_client_id (flags_read ps s) = field_of (last_value (ascii ''--client-id'') ps) (st_client_id s) \<and>
    st_client_secret (flags_read ps s) = field_of (last_value (ascii ''--client-secret'') ps) (st_client_secret s) \<and>
    st_redirect_uri (flags_read ps s) = field_of (last_value (ascii ''--redirect-uri'') ps) (st_redirect_uri s) \<and>
    Some (st_listen (flags_read ps s)) = field_of (last_value (ascii ''--listen'') ps) (Some (st_listen s)) \<and>
    st_out (flags_read ps s) = field_of (last_value (ascii ''--out'') ps) (st_out s)"
  using assms
proof (induction ps rule: rev_induct)
  case (snoc p ps)
  obtain f v where p: "p = (f, v)" by (cases p)
  have step: "flags_read (ps @ [p]) s = the (set_flag f) v (flags_read ps s)"
    and last: "last_value x (ps @ [p]) = (if x = f then Some v else last_value x ps)" for x
    by (simp_all add: flags_read_def last_value_def p)
  have "f \<in> set known_flags" using snoc.prems p by simp
  then show ?case
    using snoc by (auto simp: step last known_flags_def set_flag_def field_of_def ascii_def)
qed (simp add: flags_read_def last_value_def field_of_def)

section \<open>Reading a form\<close>

text \<open>The pairs of a query or a body, read the way \<open>receive_code\<close> reads them.\<close>

definition form_pair :: "bytes \<Rightarrow> bytes \<times> bytes" where
  "form_pair p = (case split_once 0x3D p of Some (k, v) \<Rightarrow> (k, form_decode v) | None \<Rightarrow> (p, []))"

definition form_pairs :: "bytes \<Rightarrow> (bytes \<times> bytes) list" where
  "form_pairs q = map form_pair (split_on 0x26 q)"

fun form_text :: "(bytes \<times> bytes) list \<Rightarrow> bytes" where
  "form_text [] = []"
| "form_text [(k, v)] = k @ 0x3D # v"
| "form_text ((k, v) # kvs) = (k @ 0x3D # v) @ 0x26 # form_text kvs"

definition pair_ok :: "bytes \<times> bytes \<Rightarrow> bool" where
  "pair_ok kv \<longleftrightarrow> 0x26 \<notin> set (fst kv) \<and> 0x3D \<notin> set (fst kv) \<and> 0x26 \<notin> set (snd kv)"

lemma form_pair_text: "pair_ok (k, v) \<Longrightarrow> form_pair (k @ 0x3D # v) = (k, form_decode v)"
  by (simp add: form_pair_def pair_ok_def split_once_append)

lemma form_pairs_text:
  "list_all pair_ok kvs \<Longrightarrow> kvs \<noteq> [] \<Longrightarrow> form_pairs (form_text kvs) = map (\<lambda>(k, v). (k, form_decode v)) kvs"
proof (induction kvs rule: form_text.induct)
  case (2 k v)
  then have "0x26 \<notin> set (k @ 0x3D # v)" by (simp add: pair_ok_def)
  from split_on_free [OF this] 2 show ?case by (simp add: form_pairs_def form_pair_text)
next
  case (3 k v p kvs)
  then have "0x26 \<notin> set (k @ 0x3D # v)" by (simp add: pair_ok_def)
  from split_on_append [OF this] 3 show ?case by (simp add: form_pairs_def form_pair_text)
qed simp

lemma pair_ok_encoded: "0x26 \<notin> set k \<Longrightarrow> 0x3D \<notin> set k \<Longrightarrow> pair_ok (k, form_encode v)"
  using encoded_lacks [of "0x26" v] by (simp add: pair_ok_def ascii_def)

lemma base64_unreserved: "unreserved (base64url_nopad bs)"
  using base64url_alphabet [of bs] alphabet_url_safe by (auto simp: unreserved_def list_all_iff ascii_def)

lemma code_verifier_unreserved: "unreserved (code_verifier_of keccak256 sha256)" "unreserved (code_challenge keccak256 sha256)"
  by (simp_all add: code_verifier_of_def code_challenge_def base64_unreserved)

lemma decode_unreserved: "unreserved v \<Longrightarrow> form_decode v = v"
  using form_decode_encode [OF unreserved_utf8] by (simp add: form_encode_unreserved)

lemma pair_ok_unreserved: "0x26 \<notin> set k \<Longrightarrow> 0x3D \<notin> set k \<Longrightarrow> unreserved v \<Longrightarrow> pair_ok (k, v)"
  using pair_ok_encoded [of k v] by (simp add: form_encode_unreserved)

text \<open>Each text as the pairs it spells.\<close>

lemma x_token_body_text: "x_token_body client_id auth_code redirect_uri verifier = form_text
    [(ascii ''grant_type'', ascii ''authorization_code''), (ascii ''client_id'', form_encode client_id),
     (ascii ''code'', form_encode auth_code), (ascii ''redirect_uri'', form_encode redirect_uri),
     (ascii ''code_verifier'', verifier)]"
  by (simp add: x_token_body_def ascii_def)

lemma github_token_body_text: "github_token_body client_id auth_code redirect_uri verifier secret = form_text
    [(ascii ''client_id'', form_encode client_id), (ascii ''code'', form_encode auth_code),
     (ascii ''redirect_uri'', form_encode redirect_uri), (ascii ''code_verifier'', verifier),
     (ascii ''client_secret'', form_encode secret)]"
  by (simp add: github_token_body_def ascii_def)

section \<open>Where the secret begins\<close>

text \<open>A needle that starts with \<open>c\<close> is not found inside a text without \<open>c\<close>.\<close>

lemma occurs_head: "occurs_at (c # n) (xs @ ys) j \<Longrightarrow> c \<notin> set xs \<Longrightarrow> length xs \<le> j"
proof (rule ccontr)
  assume o: "occurs_at (c # n) (xs @ ys) j" and c: "c \<notin> set xs" and "\<not> length xs \<le> j"
  then have j: "j < length xs" by simp
  from o have "take (length (c # n)) (drop j (xs @ ys)) = c # n" by (simp add: occurs_at_def)
  then have "(xs @ ys) ! j = c" using j by (metis hd_drop_conv_nth hd_take length_append length_greater_0_conv list.distinct(1) list.sel(1) trans_less_add1)
  with j c show False by (auto simp: nth_append)
qed

lemma occurs_segment:
  assumes o: "occurs_at (c # n) ((c # s) @ zs) j" and s: "c \<notin> set s" and n: "take (length n) (s @ zs) \<noteq> n"
  shows "length (c # s) \<le> j"
proof (cases j)
  case 0
  with o n show ?thesis by (simp add: occurs_at_def)
next
  case (Suc i)
  then have "occurs_at (c # n) (s @ zs) i" using o occurs_at_shift [of "c # n" "[c]" "s @ zs" i] by simp
  from occurs_head [OF this s] Suc show ?thesis by simp
qed

text \<open>The body before the secret.\<close>

definition public_part :: "bytes \<Rightarrow> bytes \<Rightarrow> bytes \<Rightarrow> bytes \<Rightarrow> bytes" where
  "public_part client_id auth_code redirect_uri verifier = form_text
    [(ascii ''client_id'', form_encode client_id), (ascii ''code'', form_encode auth_code),
     (ascii ''redirect_uri'', form_encode redirect_uri), (ascii ''code_verifier'', verifier)]"

lemma github_body_split: "github_token_body client_id auth_code redirect_uri verifier secret =
    public_part client_id auth_code redirect_uri verifier @ secret_key (ascii ''client_secret'') @ form_encode secret"
  by (simp add: github_token_body_def public_part_def secret_key_def ascii_def)

lemma secret_after_public:
  assumes o: "occurs_at (secret_key (ascii ''client_secret'')) (head @ public_part client_id auth_code redirect_uri verifier @ zs) j"
    and head: "0x26 \<notin> set head" and v: "0x26 \<notin> set verifier"
  shows "length (head @ public_part client_id auth_code redirect_uri verifier) \<le> j"
proof -
  let ?n = "ascii ''client_secret=''"
  let ?s0 = "head @ ascii ''client_id='' @ form_encode client_id"
  let ?s1 = "ascii ''code='' @ form_encode auth_code"
  let ?s2 = "ascii ''redirect_uri='' @ form_encode redirect_uri"
  let ?s3 = "ascii ''code_verifier='' @ verifier"
  have e: "0x26 \<notin> set (form_encode x)" for x using encoded_lacks [of "0x26"] by (simp add: ascii_def)
  have body: "head @ public_part client_id auth_code redirect_uri verifier @ zs =
      ?s0 @ (0x26 # ?s1) @ (0x26 # ?s2) @ (0x26 # ?s3) @ zs"
    by (simp add: public_part_def ascii_def)
  have key: "secret_key (ascii ''client_secret'') = 0x26 # ?n" by (simp add: secret_key_def ascii_def)
  note o' = o [unfolded body key]
  have j0: "length ?s0 \<le> j" by (rule occurs_head [OF o']) (use head e in \<open>simp add: ascii_def\<close>)
  note o1 = occurs_at_drop [OF o' j0]
  have j1: "length (0x26 # ?s1) \<le> j - length ?s0"
    by (rule occurs_segment [OF o1]) (use e in \<open>simp_all add: ascii_def\<close>)
  note o2 = occurs_at_drop [OF o1 j1]
  have j2: "length (0x26 # ?s2) \<le> j - length ?s0 - length (0x26 # ?s1)"
    by (rule occurs_segment [OF o2]) (use e in \<open>simp_all add: ascii_def\<close>)
  note o3 = occurs_at_drop [OF o2 j2]
  have "length (0x26 # ?s3) \<le> j - length ?s0 - length (0x26 # ?s1) - length (0x26 # ?s2)"
    by (rule occurs_segment [OF o3]) (use v in \<open>simp_all add: ascii_def\<close>)
  with j0 j1 j2 show ?thesis by (simp add: public_part_def)
qed

section \<open>Properties\<close>

text \<open>C28. A command line is accepted exactly when it is a sequence of known flags with a value each in
  which the platform, the client id, the redirect URI and the output directory occur; each
  argument is then the last value given for its flag, and the listener has its default
  address when none is given.\<close>
theorem parse_args_exact:
  "(parse_args ws = Inr a) =
   (\<exists>ps. ws = words_of ps \<and> list_all (\<lambda>(f, v). f \<in> set known_flags) ps \<and>
      last_value (ascii ''--platform'') ps = Some (arg_platform a) \<and>
      last_value (ascii ''--client-id'') ps = Some (arg_client_id a) \<and>
      last_value (ascii ''--client-secret'') ps = arg_client_secret a \<and>
      last_value (ascii ''--redirect-uri'') ps = Some (arg_redirect_uri a) \<and>
      field_of (last_value (ascii ''--listen'') ps) (Some (ascii ''127.0.0.1:8787'')) = Some (arg_listen a) \<and>
      last_value (ascii ''--out'') ps = Some (arg_out a))"
proof -
  let ?ok = "\<lambda>ps. list_all (\<lambda>(f, v). f \<in> set known_flags) ps"
  have old: "field_of x None = x" for x by (simp add: field_of_def split: option.splits)
  have parsed: "(parse_args (words_of ps) = Inr a) =
      (last_value (ascii ''--platform'') ps = Some (arg_platform a) \<and>
       last_value (ascii ''--client-id'') ps = Some (arg_client_id a) \<and>
       last_value (ascii ''--client-secret'') ps = arg_client_secret a \<and>
       last_value (ascii ''--redirect-uri'') ps = Some (arg_redirect_uri a) \<and>
       field_of (last_value (ascii ''--listen'') ps) (Some (ascii ''127.0.0.1:8787'')) = Some (arg_listen a) \<and>
       last_value (ascii ''--out'') ps = Some (arg_out a))" if "?ok ps" for ps
    using flags_read_fields [OF that, of no_args]
    by (cases a) (auto simp: parse_args_def read_flags_words [OF that] and_then_Inr_iff ok_or_def no_args_def old
        split: option.splits)
  show ?thesis
  proof
    assume p: "parse_args ws = Inr a"
    then obtain s where "read_flags ws no_args = Inr s" by (auto simp: parse_args_def and_then_Inr_iff)
    from read_flags_Inr [OF this] obtain ps where "ws = words_of ps" "?ok ps" by blast
    with p parsed [of ps] show "\<exists>ps. ws = words_of ps \<and> ?ok ps \<and>
      last_value (ascii ''--platform'') ps = Some (arg_platform a) \<and>
      last_value (ascii ''--client-id'') ps = Some (arg_client_id a) \<and>
      last_value (ascii ''--client-secret'') ps = arg_client_secret a \<and>
      last_value (ascii ''--redirect-uri'') ps = Some (arg_redirect_uri a) \<and>
      field_of (last_value (ascii ''--listen'') ps) (Some (ascii ''127.0.0.1:8787'')) = Some (arg_listen a) \<and>
      last_value (ascii ''--out'') ps = Some (arg_out a)" by blast
  qed (use parsed in blast)
qed

text \<open>What a token request asks for is what the server reads: the form of both platforms' bodies
  decodes to the client id, the code, the redirect URI, the derived verifier and, for GitHub,
  the secret, in the order and under the names of the profile, whatever bytes they hold.\<close>
theorem token_bodies_read_back:
  assumes "from_utf8_ok client_id" and "from_utf8_ok auth_code" and "from_utf8_ok redirect_uri" and "from_utf8_ok secret"
  shows "form_pairs (x_token_body client_id auth_code redirect_uri (code_verifier_of keccak256 sha256)) =
      [(ascii ''grant_type'', ascii ''authorization_code''), (ascii ''client_id'', client_id), (ascii ''code'', auth_code),
       (ascii ''redirect_uri'', redirect_uri), (ascii ''code_verifier'', code_verifier_of keccak256 sha256)] \<and>
    form_pairs (github_token_body client_id auth_code redirect_uri (code_verifier_of keccak256 sha256) secret) =
      [(ascii ''client_id'', client_id), (ascii ''code'', auth_code), (ascii ''redirect_uri'', redirect_uri),
       (ascii ''code_verifier'', code_verifier_of keccak256 sha256), (ascii ''client_secret'', secret)]"
proof -
  note v = code_verifier_unreserved(1) [of keccak256 sha256]
  have g: "unreserved (ascii ''authorization_code'')" by (simp add: unreserved_def eval)
  have "pair_ok (ascii ''grant_type'', ascii ''authorization_code'')" "pair_ok (ascii ''code_verifier'', code_verifier_of keccak256 sha256)"
    using v g by (auto intro!: pair_ok_unreserved simp: ascii_def)
  moreover have "pair_ok (ascii ''client_id'', form_encode x)" "pair_ok (ascii ''code'', form_encode x)"
    "pair_ok (ascii ''redirect_uri'', form_encode x)" "pair_ok (ascii ''client_secret'', form_encode x)" for x
    by (auto intro!: pair_ok_encoded simp: ascii_def)
  ultimately show ?thesis unfolding x_token_body_text github_token_body_text
    by (intro conjI; subst form_pairs_text) (simp_all add: assms form_decode_encode decode_unreserved v g del: form_text.simps)
qed

theorem token_bodies_read_back_witness:
  "form_pairs (x_token_body (ascii ''id'') (ascii ''a&b'') (ascii ''http://l/'') (code_verifier_of rev rev)) =
     [(ascii ''grant_type'', ascii ''authorization_code''), (ascii ''client_id'', ascii ''id''), (ascii ''code'', ascii ''a&b''),
      (ascii ''redirect_uri'', ascii ''http://l/''), (ascii ''code_verifier'', code_verifier_of rev rev)]"
proof -
  have "from_utf8_ok (ascii ''id'')" "from_utf8_ok (ascii ''a&b'')" "from_utf8_ok (ascii ''http://l/'')" by (simp_all add: eval)
  then show ?thesis using token_bodies_read_back [of "ascii ''id''" "ascii ''a&b''" "ascii ''http://l/''" "[]" rev rev] by simp
qed

text \<open>C19. Of GitHub's token request exactly the secret is hidden: behind any head without an ampersand
  the layout commits one run, \<open>&client_secret=\<close> with the encoded secret to the end of the
  request, and reveals the head and the rest of the body, the authorization code included.\<close>
theorem github_commits_the_secret:
  assumes "secret_field session = Some (ascii ''client_secret'')" and "0x26 \<notin> set head"
    and "sent = head @ github_token_body client_id auth_code redirect_uri (code_verifier_of keccak256 sha256) secret"
  shows "\<exists>a. token_request sent session = Inr \<lparr>reveal = [rng 0 a], commit = [rng a (length sent)]\<rparr> \<and>
    slice sent (rng a (length sent)) = ascii ''&client_secret='' @ form_encode secret \<and>
    slice sent (rng 0 a) = head @ public_part client_id auth_code redirect_uri (code_verifier_of keccak256 sha256)"
proof -
  let ?key = "secret_key (ascii ''client_secret'')" and ?v = "code_verifier_of keccak256 sha256"
  let ?pre = "head @ public_part client_id auth_code redirect_uri ?v" and ?post = "?key @ form_encode secret"
  have "0x26 \<notin> set (form_encode ?v)" by (rule encoded_lacks) (simp add: ascii_def)
  then have v: "0x26 \<notin> set ?v" by (simp add: form_encode_unreserved code_verifier_unreserved)
  have sent: "sent = ?pre @ ?post" using assms(3) by (simp add: github_body_split)
  have "occurs_at ?key sent (length ?pre)" using occurs_at_split sent by blast
  moreover have "\<not> occurs_at ?key sent j" if "j < length ?pre" for j
    using secret_after_public [OF _ assms(2) v, of client_id auth_code redirect_uri ?post j] that sent by auto
  ultimately have "token_request sent session = Inr (revealing [rng 0 (length ?pre)] (length sent))"
    unfolding token_request_Some using assms(1) by auto
  moreover have "length ?pre < length sent" "0 < length ?pre" by (simp_all add: sent secret_key_def public_part_def)
  ultimately have "token_request sent session = Inr \<lparr>reveal = [rng 0 (length ?pre)], commit = [rng (length ?pre) (length sent)]\<rparr>"
    by (simp add: revealing_one complement_one)
  moreover have "slice sent (rng (length ?pre) (length sent)) = ?post" "slice sent (rng 0 (length ?pre)) = ?pre"
    by (simp_all add: sent slice_def)
  ultimately show ?thesis by (intro exI [of _ "length ?pre"]) (simp add: secret_key_def ascii_def)
qed

theorem github_commits_the_secret_witness:
  "token_request (ascii ''POST'' @ crlf @ github_token_body [] (ascii ''c'') [] (code_verifier_of rev rev) (ascii ''s&1''))
      \<lparr>secret_field = Some (ascii ''client_secret'')\<rparr> \<noteq> Inl MissingCredential"
proof -
  have "0x26 \<notin> set (ascii ''POST'' @ crlf)" by (simp add: ascii_def crlf_def)
  from github_commits_the_secret [where session = "\<lparr>secret_field = Some (ascii ''client_secret'')\<rparr>", OF _ this]
  obtain a where "token_request ((ascii ''POST'' @ crlf) @ github_token_body [] (ascii ''c'') [] (code_verifier_of rev rev) (ascii ''s&1''))
      \<lparr>secret_field = Some (ascii ''client_secret'')\<rparr> = Inr \<lparr>reveal = [rng 0 a], commit =
        [rng a (length ((ascii ''POST'' @ crlf) @ github_token_body [] (ascii ''c'') [] (code_verifier_of rev rev) (ascii ''s&1'')))]\<rparr>"
    by force
  then show ?thesis by simp
qed

text \<open>The URL the account holder opens asks for what it should: behind the platform's endpoint a
  provider reads the client id, the redirect URI, the platform's scope, the state, the
  challenge of the derived verifier and its method, and for X the response type before
  them.\<close>
theorem authorize_url_reads_back:
  assumes "platform = ascii ''x'' \<or> platform = ascii ''github''"
    and "from_utf8_ok client_id" and "from_utf8_ok redirect_uri" and "unreserved state"
  shows "\<exists>origin query. authorize_url platform client_id redirect_uri state (code_challenge keccak256 sha256) =
      Some (origin @ 0x3F # query) \<and> 0x3F \<notin> set origin \<and>
    form_pairs query = (if platform = ascii ''x'' then [(ascii ''response_type'', ascii ''code'')] else []) @
      [(ascii ''client_id'', client_id), (ascii ''redirect_uri'', redirect_uri),
       (ascii ''scope'', if platform = ascii ''x'' then ascii ''tweet.read users.read'' else ascii ''read:user''),
       (ascii ''state'', state), (ascii ''code_challenge'', code_challenge keccak256 sha256),
       (ascii ''code_challenge_method'', ascii ''S256'')]"
proof -
  let ?c = "code_challenge keccak256 sha256"
  let ?x = "ascii ''tweet.read users.read''" and ?g = "ascii ''read:user''"
  let ?kvs = "\<lambda>scope. [(ascii ''client_id'', form_encode client_id), (ascii ''redirect_uri'', form_encode redirect_uri),
       (ascii ''scope'', form_encode scope), (ascii ''state'', state), (ascii ''code_challenge'', ?c),
       (ascii ''code_challenge_method'', ascii ''S256'')]"
  note c = code_verifier_unreserved(2) [of keccak256 sha256]
  have lit: "unreserved (ascii ''S256'')" "unreserved (ascii ''code'')" by (simp_all add: unreserved_def eval)
  have utf8: "from_utf8_ok ?x" "from_utf8_ok ?g" by (rule from_utf8_ok_all; simp add: ascii_def is_ascii_def)+
  have "pair_ok (ascii ''response_type'', ascii ''code'')" "pair_ok (ascii ''state'', state)" "pair_ok (ascii ''code_challenge'', ?c)"
    "pair_ok (ascii ''code_challenge_method'', ascii ''S256'')"
    using lit c assms(4) by (auto intro!: pair_ok_unreserved simp: ascii_def)
  moreover have "pair_ok (ascii ''client_id'', form_encode x)" "pair_ok (ascii ''redirect_uri'', form_encode x)"
    "pair_ok (ascii ''scope'', form_encode x)" for x
    by (auto intro!: pair_ok_encoded simp: ascii_def)
  ultimately have pairs: "form_pairs (form_text (?kvs ?g)) =
      [(ascii ''client_id'', client_id), (ascii ''redirect_uri'', redirect_uri), (ascii ''scope'', ?g),
       (ascii ''state'', state), (ascii ''code_challenge'', ?c), (ascii ''code_challenge_method'', ascii ''S256'')]"
    "form_pairs (form_text ((ascii ''response_type'', ascii ''code'') # ?kvs ?x)) =
      [(ascii ''response_type'', ascii ''code''), (ascii ''client_id'', client_id), (ascii ''redirect_uri'', redirect_uri),
       (ascii ''scope'', ?x), (ascii ''state'', state), (ascii ''code_challenge'', ?c),
       (ascii ''code_challenge_method'', ascii ''S256'')]"
    by (subst form_pairs_text; simp add: assms utf8 form_decode_encode decode_unreserved lit c del: form_text.simps)+
  have url: "authorize_url (ascii ''github'') client_id redirect_uri state ?c =
      Some (ascii ''https://github.com/login/oauth/authorize'' @ 0x3F # form_text (?kvs ?g))"
    "authorize_url (ascii ''x'') client_id redirect_uri state ?c =
      Some (ascii ''https://x.com/i/oauth2/authorize'' @ 0x3F # form_text ((ascii ''response_type'', ascii ''code'') # ?kvs ?x))"
    by (simp_all add: authorize_url_def authorize_endpoint_def ascii_def Let_def)
  have free: "0x3F \<notin> set (ascii ''https://github.com/login/oauth/authorize'')" "0x3F \<notin> set (ascii ''https://x.com/i/oauth2/authorize'')"
    by (simp_all add: ascii_def)
  from assms(1) show ?thesis
  proof
    assume p: "platform = ascii ''x''"
    show ?thesis unfolding p url(2) by (intro exI conjI, rule refl, rule free) (simp only: pairs if_True append.simps simp_thms)
  next
    assume p: "platform = ascii ''github''"
    have ne: "ascii ''github'' \<noteq> ascii ''x''" by (simp add: ascii_def)
    show ?thesis unfolding p url(1)
      by (intro exI conjI, rule refl, rule free) (simp only: ne pairs if_False append.simps simp_thms)
  qed
qed

theorem authorize_url_reads_back_witness:
  "\<exists>origin query. authorize_url (ascii ''github'') (ascii ''Iv1'') (ascii ''http://l/'') (ascii ''00ff'') (code_challenge rev rev) =
     Some (origin @ 0x3F # query) \<and> (ascii ''redirect_uri'', ascii ''http://l/'') \<in> set (form_pairs query)"
proof -
  have "from_utf8_ok (ascii ''Iv1'')" "from_utf8_ok (ascii ''http://l/'')" by (simp_all add: eval)
  moreover have "unreserved (ascii ''00ff'')" by (simp add: unreserved_def eval)
  ultimately show ?thesis
    using authorize_url_reads_back [of "ascii ''github''" "ascii ''Iv1''" "ascii ''http://l/''" "ascii ''00ff''" rev rev] by fastforce
qed

end
