(* ===== verification/Capture_Main.thy ===== *)
theory Capture_Main
  imports Notarize Capture
begin

text \<open>
  \<open>main\<close> of \<open>libid-tlsn/examples/capture_ceremony.rs\<close> behind the redirect: the token session, the
  bearer out of its response, the identity session and the file. The sessions are those of
  \<open>Notarize\<close>, the requests and bodies those of \<open>Capture\<close>. The JSON parser, the request builder
  and the results of the two sessions are arguments. Lemmas: what a written file holds.
\<close>

section \<open>The layouts of a platform\<close>

text \<open>
  The closures of \<open>main\<close>. \<open>unwrap\<close> on the profile table does not fail for the platforms that
  have both sessions, which are the two accepted ones.
\<close>

definition token_layouts :: "chunk_size_parser \<Rightarrow> token_session \<Rightarrow> layouts" where
  "token_layouts pcs profile sent recv =
     and_then (token_request sent profile) (\<lambda>s. and_then (token_response pcs recv) (\<lambda>r. Inr (s, r)))"

definition identity_layouts :: "chunk_size_parser \<Rightarrow> identity_session \<Rightarrow> layouts" where
  "identity_layouts pcs profile sent recv =
     and_then (identity_request sent) (\<lambda>s. and_then (identity_response pcs recv profile) (\<lambda>r. Inr (s, r)))"

section \<open>The bearer and the file\<close>

text \<open>\<open>json["access_token"]\<close> is null where there is no such member or no object.\<close>

definition bearer_of :: "(bytes \<Rightarrow> json option) \<Rightarrow> bytes \<Rightarrow> bytes option" where
  "bearer_of parse_json body = do {
     json \<leftarrow> parse_json body;
     (case json_get (ascii ''access_token'') json of Some (JString s) \<Rightarrow> Some s | _ \<Rightarrow> None)
   }"

definition capture_session_json :: "(bytes \<Rightarrow> bytes) \<Rightarrow> bytes \<Rightarrow> capture_session \<Rightarrow> json" where
  "capture_session_json hex_encode endpoint session = JObject [
     (ascii ''endpoint'', JString endpoint),
     (ascii ''authority'', JString (cs_authority session)),
     (ascii ''created_at'', JNumber (unat (cs_created_at session))),
     (ascii ''attested_data'', JString (hex0x hex_encode (cs_record session))),
     (ascii ''notary_signature'', JString (hex0x hex_encode (cs_signature session)))]"

text \<open>\<open>Path::join\<close> with a relative name.\<close>

definition path_join :: "bytes \<Rightarrow> bytes \<Rightarrow> bytes" where
  "path_join dir name = (if dir \<noteq> [] \<and> last dir \<noteq> 0x2F then dir @ ascii ''/'' @ name else dir @ name)"

section \<open>The calls of a platform\<close>

text \<open>A GitHub capture without a secret panics.\<close>

definition token_call :: "capture_args \<Rightarrow> bytes \<Rightarrow> bytes \<Rightarrow> request_parts option" where
  "token_call args auth_code pkce =
     (if arg_platform args = ascii ''x'' then
        Some (x_token_parts (x_token_body (arg_client_id args) auth_code (arg_redirect_uri args) pkce))
      else do {
        secret \<leftarrow> arg_client_secret args;
        Some (github_token_parts (github_token_body (arg_client_id args) auth_code (arg_redirect_uri args) pkce secret))
      })"

definition identity_call :: "capture_args \<Rightarrow> bytes \<Rightarrow> request_parts" where
  "identity_call args bearer =
     (if arg_platform args = ascii ''x'' then x_identity_parts bearer else github_identity_parts bearer)"

definition token_endpoint :: "capture_args \<Rightarrow> bytes" where
  "token_endpoint args =
     (if arg_platform args = ascii ''x'' then ascii ''https://api.x.com/2/oauth2/token''
      else ascii ''https://github.com/login/oauth/access_token'')"

definition identity_endpoint :: "capture_args \<Rightarrow> bytes" where
  "identity_endpoint args =
     (if arg_platform args = ascii ''x'' then ascii ''https://api.x.com/2/users/me'' else ascii ''https://api.github.com/user'')"

definition capture_file ::
  "(bytes \<Rightarrow> bytes) \<Rightarrow> (bytes \<Rightarrow> bytes) \<Rightarrow> (bytes \<Rightarrow> bytes) \<Rightarrow> bytes \<Rightarrow> 64 word \<Rightarrow> capture_args \<Rightarrow>
   capture_session \<Rightarrow> capture_session \<Rightarrow> json" where
  "capture_file keccak256 sha256 hex_encode notary now args token identity =
     json_set (ascii ''identity'') (capture_session_json hex_encode (identity_endpoint args) identity)
     (json_set (ascii ''token'') (capture_session_json hex_encode (token_endpoint args) token)
     (json_set (ascii ''captured_at'') (JNumber (unat now))
     (json_set (ascii ''source'') (JString (ascii (''captured: a real MPC-TLS session against the platform, '' @
         ''the verifier in-process, by libid-rs examples/capture_ceremony.rs'')))
     (submission_json keccak256 sha256 hex_encode (arg_platform args) notary))))"

section \<open>The run behind the redirect\<close>

text \<open>What the run is given from outside, and the two ways it ends besides a panic.\<close>

record ('u, 'p, 'rest, 'c, 'cfg, 'sec, 'tls, 'name) session_env =
  se_prover :: "('u, 'p, 'rest, 'c, 'cfg, 'sec) prover_env"
  se_verifier :: "('tls, 'name) verifier_env"
  se_now :: "64 word"

record ('e, 'b, 'req, 'name) capture_lib =
  cl_wire :: "'e bincode"
  cl_keccak256 :: "bytes \<Rightarrow> bytes"
  cl_sha256 :: "bytes \<Rightarrow> bytes"
  cl_hex_encode :: "bytes \<Rightarrow> bytes"
  cl_dns :: "'name \<Rightarrow> bytes"
  cl_io_text :: "io_error \<Rightarrow> bytes"
  cl_parse_json :: "bytes \<Rightarrow> json option"
  cl_chunk_size :: chunk_size_parser
  cl_builder :: "('b, 'req) request_builder"

datatype capture_end = CapturePanic | Exited bytes | Wrote bytes json

text \<open>One session of the run: the request is built, or the run panics.\<close>

inductive capture_step ::
  "('e, 'b, ('u, 'rest) http_request, 'name) capture_lib \<Rightarrow> (bytes \<Rightarrow> bytes option) \<Rightarrow>
   ('u, 'p, 'rest, 'c, 'cfg, 'sec, 'tls, 'name) session_env \<Rightarrow> request_parts \<Rightarrow> layouts \<Rightarrow>
   capture_session outcome \<Rightarrow> bool" for lib sign env parts layouts where
  invalid: "capture_request (cl_builder lib) parts = None \<Longrightarrow> capture_step lib sign env parts layouts Panicked"
| ran: "capture_request (cl_builder lib) parts = Some request \<Longrightarrow>
     notarize (se_prover env) (se_verifier env) (cl_wire lib) (cl_keccak256 lib) (cl_dns lib) (cl_io_text lib)
       (se_now env) sign request layouts r \<Longrightarrow>
     capture_step lib sign env parts layouts r"

inductive_cases capture_step_Inr: "capture_step lib sign env parts layouts (Finished (Inr s))"

inductive capture ::
  "('e, 'b, ('u, 'rest) http_request, 'name) capture_lib \<Rightarrow> (bytes \<Rightarrow> bytes option) \<Rightarrow> bytes \<Rightarrow>
   token_session \<Rightarrow> identity_session \<Rightarrow>
   ('u, 'p, 'rest, 'c, 'cfg, 'sec, 'tls, 'name) session_env \<Rightarrow>
   ('u, 'p, 'rest, 'c, 'cfg, 'sec, 'tls, 'name) session_env \<Rightarrow> 64 word \<Rightarrow>
   capture_args \<Rightarrow> bytes \<Rightarrow> capture_end \<Rightarrow> bool"
  for lib sign notary token_profile identity_profile env1 env2 now args auth_code where
  no_secret:
    "token_call args auth_code (code_verifier_of (cl_keccak256 lib) (cl_sha256 lib)) = None \<Longrightarrow>
     capture lib sign notary token_profile identity_profile env1 env2 now args auth_code CapturePanic"
| token_panicked:
    "token_call args auth_code (code_verifier_of (cl_keccak256 lib) (cl_sha256 lib)) = Some parts \<Longrightarrow>
     capture_step lib sign env1 parts (token_layouts (cl_chunk_size lib) token_profile) Panicked \<Longrightarrow>
     capture lib sign notary token_profile identity_profile env1 env2 now args auth_code CapturePanic"
| token_failed:
    "token_call args auth_code (code_verifier_of (cl_keccak256 lib) (cl_sha256 lib)) = Some parts \<Longrightarrow>
     capture_step lib sign env1 parts (token_layouts (cl_chunk_size lib) token_profile) (Finished (Inl e)) \<Longrightarrow>
     capture lib sign notary token_profile identity_profile env1 env2 now args auth_code (Exited (ascii ''error: '' @ e))"
| no_bearer:
    "token_call args auth_code (code_verifier_of (cl_keccak256 lib) (cl_sha256 lib)) = Some parts \<Longrightarrow>
     capture_step lib sign env1 parts (token_layouts (cl_chunk_size lib) token_profile) (Finished (Inr token)) \<Longrightarrow>
     bearer_of (cl_parse_json lib) (cs_response_body token) = None \<Longrightarrow>
     capture lib sign notary token_profile identity_profile env1 env2 now args auth_code CapturePanic"
| identity_panicked:
    "token_call args auth_code (code_verifier_of (cl_keccak256 lib) (cl_sha256 lib)) = Some parts \<Longrightarrow>
     capture_step lib sign env1 parts (token_layouts (cl_chunk_size lib) token_profile) (Finished (Inr token)) \<Longrightarrow>
     bearer_of (cl_parse_json lib) (cs_response_body token) = Some bearer \<Longrightarrow>
     capture_step lib sign env2 (identity_call args bearer) (identity_layouts (cl_chunk_size lib) identity_profile) Panicked \<Longrightarrow>
     capture lib sign notary token_profile identity_profile env1 env2 now args auth_code CapturePanic"
| identity_failed:
    "token_call args auth_code (code_verifier_of (cl_keccak256 lib) (cl_sha256 lib)) = Some parts \<Longrightarrow>
     capture_step lib sign env1 parts (token_layouts (cl_chunk_size lib) token_profile) (Finished (Inr token)) \<Longrightarrow>
     bearer_of (cl_parse_json lib) (cs_response_body token) = Some bearer \<Longrightarrow>
     capture_step lib sign env2 (identity_call args bearer) (identity_layouts (cl_chunk_size lib) identity_profile) (Finished (Inl e)) \<Longrightarrow>
     capture lib sign notary token_profile identity_profile env1 env2 now args auth_code (Exited (ascii ''error: '' @ e))"
| wrote:
    "token_call args auth_code (code_verifier_of (cl_keccak256 lib) (cl_sha256 lib)) = Some parts \<Longrightarrow>
     capture_step lib sign env1 parts (token_layouts (cl_chunk_size lib) token_profile) (Finished (Inr token)) \<Longrightarrow>
     bearer_of (cl_parse_json lib) (cs_response_body token) = Some bearer \<Longrightarrow>
     capture_step lib sign env2 (identity_call args bearer) (identity_layouts (cl_chunk_size lib) identity_profile) (Finished (Inr identity)) \<Longrightarrow>
     capture lib sign notary token_profile identity_profile env1 env2 now args auth_code
       (Wrote (path_join (arg_out args) (arg_platform args @ ascii ''-ceremony-real.json''))
         (capture_file (cl_keccak256 lib) (cl_sha256 lib) (cl_hex_encode lib) notary now args token identity))"

inductive_cases capture_Wrote:
  "capture lib sign notary token_profile identity_profile env1 env2 now args auth_code (Wrote path file)"

section \<open>Reading the file\<close>

lemma capture_file_members:
  "json_get (ascii ''identity'') (capture_file keccak256 sha256 hex_encode notary now args token identity) =
     Some (capture_session_json hex_encode (identity_endpoint args) identity)"
  "json_get (ascii ''token'') (capture_file keccak256 sha256 hex_encode notary now args token identity) =
     Some (capture_session_json hex_encode (token_endpoint args) token)"
  "json_get (ascii ''notary'') (capture_file keccak256 sha256 hex_encode notary now args token identity) = Some (JString notary)"
  "json_get (ascii ''authorization_digest'') (capture_file keccak256 sha256 hex_encode notary now args token identity) =
     Some (JString (hex0x hex_encode (authorization_digest keccak256)))"
  "json_get (ascii ''code_verifier'') (capture_file keccak256 sha256 hex_encode notary now args token identity) =
     Some (JString (code_verifier_of keccak256 sha256))"
  by (simp_all add: capture_file_def submission_json_def ascii_def)

section \<open>The program\<close>

text \<open>
  \<open>main\<close>: the words of the command line, the connections the browser makes, the clock, and the two
  sessions. While no connection consents the program has not ended, so no rule applies.
\<close>

inductive capture_main ::
  "('e, 'b, ('u, 'rest) http_request, 'name) capture_lib \<Rightarrow> ('sk, 'vk, 'sig, 'rid) curve \<Rightarrow> (bytes \<Rightarrow> bytes + bytes) \<Rightarrow>
   (bytes \<Rightarrow> token_session) \<Rightarrow> (bytes \<Rightarrow> identity_session) \<Rightarrow>
   ('u, 'p, 'rest, 'c, 'cfg, 'sec, 'tls, 'name) session_env \<Rightarrow>
   ('u, 'p, 'rest, 'c, 'cfg, 'sec, 'tls, 'name) session_env \<Rightarrow> nat \<Rightarrow> 64 word \<Rightarrow>
   bytes list \<Rightarrow> bytes list \<Rightarrow> capture_end \<Rightarrow> bool"
  for lib k hex_decode token_profile identity_profile env1 env2 start now ws connections where
  bad_args: "parse_args ws = Inl e \<Longrightarrow>
     capture_main lib k hex_decode token_profile identity_profile env1 env2 start now ws connections CapturePanic"
| bad_key: "parse_args ws = Inr args \<Longrightarrow> hex_to_signing_key k hex_decode notary_key = Inl e \<Longrightarrow>
     capture_main lib k hex_decode token_profile identity_profile env1 env2 start now ws connections CapturePanic"
| bad_platform: "parse_args ws = Inr args \<Longrightarrow> hex_to_signing_key k hex_decode notary_key = Inr key \<Longrightarrow>
     authorize_url (arg_platform args) (arg_client_id args) (arg_redirect_uri args)
       (capture_state (cl_keccak256 lib) (cl_hex_encode lib) start) (code_challenge (cl_keccak256 lib) (cl_sha256 lib)) = None \<Longrightarrow>
     capture_main lib k hex_decode token_profile identity_profile env1 env2 start now ws connections CapturePanic"
| ends: "parse_args ws = Inr args \<Longrightarrow> hex_to_signing_key k hex_decode notary_key = Inr key \<Longrightarrow>
     authorize_url (arg_platform args) (arg_client_id args) (arg_redirect_uri args)
       (capture_state (cl_keccak256 lib) (cl_hex_encode lib) start) (code_challenge (cl_keccak256 lib) (cl_sha256 lib)) = Some url \<Longrightarrow>
     receive_code (capture_state (cl_keccak256 lib) (cl_hex_encode lib) start) connections = (responses, Some auth_code) \<Longrightarrow>
     capture lib (capture_sign k (cl_keccak256 lib) key)
       (hex0x (cl_hex_encode lib) (pubkey_to_eth_address k (cl_keccak256 lib) (verifying_key k key)))
       (token_profile (arg_platform args)) (identity_profile (arg_platform args)) env1 env2 now args auth_code r \<Longrightarrow>
     capture_main lib k hex_decode token_profile identity_profile env1 env2 start now ws connections r"

inductive_cases capture_main_Wrote:
  "capture_main lib k hex_decode token_profile identity_profile env1 env2 start now ws connections (Wrote path file)"

section \<open>What a written file holds\<close>

text \<open>A member of the file is the session \<open>s\<close>, signed by \<open>vk\<close>.\<close>

definition attested_member ::
  "('e, 'b, 'req, 'name) capture_lib \<Rightarrow> ('sk, 'vk, 'sig, 'rid) curve \<Rightarrow> 'vk \<Rightarrow> bytes \<Rightarrow> json option \<Rightarrow> capture_session \<Rightarrow> bool" where
  "attested_member lib k vk endpoint j s \<longleftrightarrow>
     j = Some (capture_session_json (cl_hex_encode lib) endpoint s) \<and>
     recover_eth_claim k (cl_keccak256 lib) (cs_signature s) (cl_keccak256 lib (cs_record s)) = Inr vk \<and>
     (\<exists>d. dec_attested (cs_record s) = Some (d, []) \<and> created_at d = cs_created_at s \<and>
        authority_id d = authority_id_of (cl_keccak256 lib) (cs_authority s))"

lemma capture_step_attested:
  assumes "capture_step lib (capture_sign k (cl_keccak256 lib) key) env parts layouts (Finished (Inr s))"
    and "big_endian_fixint (cl_wire lib)" and "\<And>bs. length (cl_keccak256 lib bs) = 32" and "slices_fit (se_verifier env)"
    and "ecdsa_laws k"
  shows "attested_member lib k (verifying_key k key) endpoint (Some (capture_session_json (cl_hex_encode lib) endpoint s)) s"
proof -
  from assms(1) obtain request where n: "notarize (se_prover env) (se_verifier env) (cl_wire lib) (cl_keccak256 lib)
      (cl_dns lib) (cl_io_text lib) (se_now env) (capture_sign k (cl_keccak256 lib) key) request layouts (Finished (Inr s))"
    by (elim capture_step_Inr) blast
  show ?thesis
  proof (rule notarize_parts [OF n assms(2-4)])
    fix result n t
    assume a: "cs_authority s = cl_dns lib n" "cs_created_at s = se_now env"
      and dec: "\<And>rest. dec_attested (cs_record s @ rest) =
        Some (record_of (cl_keccak256 lib) (output_session (cl_dns lib) (se_now env) n t result), rest)"
      and sig: "capture_sign k (cl_keccak256 lib) key (cl_keccak256 lib (cs_record s)) = Some (cs_signature s)"
    let ?d = "record_of (cl_keccak256 lib) (output_session (cl_dns lib) (se_now env) n t result)"
    have "sign_eth_claim k (cl_keccak256 lib) key (cl_keccak256 lib (cs_record s)) = Inr (cs_signature s)"
      using sig by (simp add: capture_sign_def ok_def split: sum.splits)
    note rec = sign_recover_roundtrip_parts(4) [OF assms(5) this]
    have "dec_attested (cs_record s) = Some (?d, [])" using dec [of "[]"] by simp
    moreover have "created_at ?d = cs_created_at s" "authority_id ?d = authority_id_of (cl_keccak256 lib) (cs_authority s)"
      using a by (simp_all add: record_of_def output_session_def)
    ultimately show ?thesis using rec unfolding attested_member_def by blast
  qed
qed

section \<open>Properties\<close>

text \<open>C16. Whatever the capture tool writes can be verified from the file alone: both sessions in it
  carry a record that decodes in one pass, with the time and the authority the file gives,
  and a signature that recovers to the key whose address stands as the notary. The token
  session ran the token request made of the code of a connection that carried the state the
  URL was printed with and of the code verifier the file gives; the identity session ran
  the identity request made of the bearer out of that token session's response.\<close>
theorem captured_file_is_attested:
  assumes "capture_main lib k hex_decode token_profile identity_profile env1 env2 start now ws connections (Wrote path file)"
    and "big_endian_fixint (cl_wire lib)" and "\<And>bs. length (cl_keccak256 lib bs) = 32" and "ecdsa_laws k"
    and "slices_fit (se_verifier env1)" and "slices_fit (se_verifier env2)"
  shows "\<exists>args key auth_code parts token bearer identity.
    parse_args ws = Inr args \<and> hex_to_signing_key k hex_decode notary_key = Inr key \<and>
    (\<exists>buf \<in> set connections. redirect_params buf = (Some auth_code, Some (capture_state (cl_keccak256 lib) (cl_hex_encode lib) start))) \<and>
    json_get (ascii ''notary'') file =
      Some (JString (hex0x (cl_hex_encode lib) (pubkey_to_eth_address k (cl_keccak256 lib) (verifying_key k key)))) \<and>
    attested_member lib k (verifying_key k key) (token_endpoint args) (json_get (ascii ''token'') file) token \<and>
    attested_member lib k (verifying_key k key) (identity_endpoint args) (json_get (ascii ''identity'') file) identity \<and>
    json_get (ascii ''code_verifier'') file = Some (JString (code_verifier_of (cl_keccak256 lib) (cl_sha256 lib))) \<and>
    token_call args auth_code (code_verifier_of (cl_keccak256 lib) (cl_sha256 lib)) = Some parts \<and>
    capture_step lib (capture_sign k (cl_keccak256 lib) key) env1 parts
      (token_layouts (cl_chunk_size lib) (token_profile (arg_platform args))) (Finished (Inr token)) \<and>
    bearer_of (cl_parse_json lib) (cs_response_body token) = Some bearer \<and>
    capture_step lib (capture_sign k (cl_keccak256 lib) key) env2 (identity_call args bearer)
      (identity_layouts (cl_chunk_size lib) (identity_profile (arg_platform args))) (Finished (Inr identity))"
proof -
  let ?state = "capture_state (cl_keccak256 lib) (cl_hex_encode lib) start"
  from assms(1) obtain args key responses auth_code where a: "parse_args ws = Inr args"
      "hex_to_signing_key k hex_decode notary_key = Inr key"
      and code: "receive_code ?state connections = (responses, Some auth_code)"
      and cap: "capture lib (capture_sign k (cl_keccak256 lib) key)
        (hex0x (cl_hex_encode lib) (pubkey_to_eth_address k (cl_keccak256 lib) (verifying_key k key)))
        (token_profile (arg_platform args)) (identity_profile (arg_platform args)) env1 env2 now args auth_code (Wrote path file)"
    by (elim capture_main_Wrote) blast
  from cap obtain parts token bearer identity where
      call: "token_call args auth_code (code_verifier_of (cl_keccak256 lib) (cl_sha256 lib)) = Some parts"
    and t: "capture_step lib (capture_sign k (cl_keccak256 lib) key) env1 parts
        (token_layouts (cl_chunk_size lib) (token_profile (arg_platform args))) (Finished (Inr token))"
    and b: "bearer_of (cl_parse_json lib) (cs_response_body token) = Some bearer"
    and i: "capture_step lib (capture_sign k (cl_keccak256 lib) key) env2 (identity_call args bearer)
        (identity_layouts (cl_chunk_size lib) (identity_profile (arg_platform args))) (Finished (Inr identity))"
    and f: "file = capture_file (cl_keccak256 lib) (cl_sha256 lib) (cl_hex_encode lib)
        (hex0x (cl_hex_encode lib) (pubkey_to_eth_address k (cl_keccak256 lib) (verifying_key k key))) now args token identity"
    by (elim capture_Wrote) blast
  have "\<exists>buf \<in> set connections. redirect_params buf = (Some auth_code, Some ?state)"
    using receive_code_returns [OF code] by fastforce
  moreover note capture_step_attested [OF t assms(2,3,5,4), of "token_endpoint args"]
    capture_step_attested [OF i assms(2,3,6,4), of "identity_endpoint args"]
  ultimately show ?thesis
    using a call t b i unfolding f capture_file_members by blast
qed

text \<open>A capture on X against the sample notary, with a browser that consents at once.\<close>

definition sample_lib :: "(unit, unit, (bytes option \<times> bytes, unit) http_request, bytes) capture_lib" where
  "sample_lib = \<lparr>cl_wire = wire_config, cl_keccak256 = sample_keccak, cl_sha256 = sample_keccak,
     cl_hex_encode = (\<lambda>_. ascii ''aa''), cl_dns = (\<lambda>n. n), cl_io_text = (\<lambda>_. []),
     cl_parse_json = (\<lambda>_. Some (JObject [(ascii ''access_token'', JString (ascii ''tok''))])),
     cl_chunk_size = hex_chunk_size,
     cl_builder = \<lparr>rb_new = (\<lambda>_ _. ()), rb_header = (\<lambda>_ _ b. b), rb_body = (\<lambda>_ _. Some sample_request)\<rparr>\<rparr>"

definition sample_env1 :: "(bytes option \<times> bytes, bytes, unit, list_builder, (direction \<times> span \<times> hash_alg_id) list, nat, nat, bytes) session_env" where
  "sample_env1 = \<lparr>se_prover = sample_env\<lparr>env_received := token_sample\<rparr>, se_verifier = sample_notary, se_now = 9\<rparr>"

definition sample_env2 :: "(bytes option \<times> bytes, bytes, unit, list_builder, (direction \<times> span \<times> hash_alg_id) list, nat, nat, bytes) session_env" where
  "sample_env2 = \<lparr>se_prover = sample_env\<lparr>env_sent := bearer_sample, env_received := sample_response\<rparr>,
                  se_verifier = sample_notary, se_now = 9\<rparr>"

definition sample_words :: "bytes list" where
  "sample_words = map ascii [''--platform'', ''x'', ''--client-id'', ''i'', ''--redirect-uri'', ''u'', ''--out'', ''d'']"

definition sample_args :: capture_args where
  "sample_args = \<lparr>arg_platform = ascii ''x'', arg_client_id = ascii ''i'', arg_client_secret = None,
     arg_redirect_uri = ascii ''u'', arg_listen = ascii ''127.0.0.1:8787'', arg_out = ascii ''d''\<rparr>"

lemma sample_words_parse: "parse_args sample_words = Inr sample_args"
  by (simp add: sample_words_def sample_args_def parse_args_def no_args_def set_flag_def ok_or_def ascii_def)

lemma sample_prepared:
  "prover_prepare (sample_env\<lparr>env_sent := s, env_received := r\<rparr>) sample_request = Inr (ascii ''api.x.com'', sample_wire_request)"
  using sample_prepare by (simp add: prover_prepare_def sample_env_def)

lemma sample_env_fields:
  "env_prover_config sample_env = Inr ()" "env_new_prover sample_env = Inr ()" "env_mpc_config sample_env a b = Inr ()"
  "env_commit sample_env = Inr ()" "env_tcp sample_env h = Inr ()" "env_server_name sample_env h = Inr ()"
  "env_tls_config sample_env = Inr ()" "env_connect sample_env = Inr ()" "env_http_handshake sample_env = Inr ()"
  "env_send sample_env q = Inr 200" "env_collect sample_env = Inr [1, 2]" "env_join_prover sample_env = Inr (Inr ())"
  "env_builder sample_env = sample_builder" "env_new_builder sample_env = (OtherAlg 2, [])"
  "env_prove_config sample_env = Inr ()"
  "env_prove sample_env cfg = Inr (map (\<lambda>(dir, r, _). HashSecret dir [r] (replicate 16 9)) cfg)"
  "env_request_config sample_env cfg = Inr ()" "env_has_certs sample_env" "env_has_signature sample_env"
  "env_attestation_request sample_env = Inr 3" "env_close sample_env = Inr ()"
  by (simp_all add: sample_env_def)

lemma sample_prover_runs:
  assumes "layouts s r = Inr (sl, rl)"
    and "list_all (\<lambda>r. sp_start r < sp_end r) (commit sl)" and "list_all (\<lambda>r. sp_start r < sp_end r) (commit rl)"
  shows "\<exists>ops. snd (prover_setup (sample_env\<lparr>env_sent := s, env_received := r\<rparr>) (capture_layout layouts)
    (ascii ''api.x.com'') sample_wire_request) = Inr ([1, 2], 3, ops)"
proof -
  have all: "list_all (\<lambda>r. sp_start r < sp_end r) rs \<Longrightarrow>
      commit_each sample_builder what dir rs (alg, cs) = Inr (alg, cs @ map (\<lambda>r. (dir, r, alg)) rs)" for what dir rs alg cs
    by (induction rs arbitrary: cs) (simp_all add: sample_builder_def mpc_err_def)
  have quiet: "snd (reveal_each (sample_env\<lparr>env_sent := s, env_received := r\<rparr>) what dir rs) = Inr ()" for what dir rs
    by (induction rs) (simp_all add: run_simps sample_env_def mpc_err_def)
  let ?cfg = "map (\<lambda>r. (Sent, r, SHA256)) (commit sl) @ map (\<lambda>r. (Received, r, SHA256)) (commit rl)"
  have cfg: "transcript_commit_config sample_builder (OtherAlg 2, []) (commit sl) (commit rl) = Inr ?cfg"
    using assms(2,3) by (simp add: transcript_commit_config_def Let_def all mpc_err_def)
       (simp add: sample_builder_def all [unfolded sample_builder_def] mpc_err_def)
  let ?ops = "map (\<lambda>(dir, r, _). \<lparr>op_direction = dir, op_ranges = [r], op_blinder = replicate 16 9\<rparr>) ?cfg"
  have "collect_results (map opening_of (map (\<lambda>(dir, r, _). HashSecret dir [r] (replicate 16 9)) ?cfg)) = Inr ?ops"
    by (simp add: collect_results_Inr comp_def)
  then have "snd (prover_setup (sample_env\<lparr>env_sent := s, env_received := r\<rparr>) (capture_layout layouts) (ascii ''api.x.com'') sample_wire_request) =
      Inr ([1, 2], 3, ?ops)"
    using cfg assms(1)
    by (simp add: prover_setup_def leave_scope_def run_simps setup_mpc_def connect_tls_def exchange_def take_prover_def
        prove_layouts_def attestation_request_def capture_layout_def mpc_err_def sample_env_fields quiet comp_def)
  then show ?thesis by blast
qed

lemma sample_step:
  assumes "layouts s r = Inr (sl, rl)"
    and "list_all (\<lambda>r. sp_start r < sp_end r) (commit sl)" and "list_all (\<lambda>r. sp_start r < sp_end r) (commit rl)"
    and "se_prover env = sample_env\<lparr>env_sent := s, env_received := r\<rparr>" and "se_verifier env = sample_notary" and "se_now env = 9"
  shows "capture_step sample_lib (capture_sign toy_curve sample_keccak 7) env parts layouts (Finished (Inr sample_capture))"
proof -
  obtain ops where "snd (prover_setup (sample_env\<lparr>env_sent := s, env_received := r\<rparr>) (capture_layout layouts)
      (ascii ''api.x.com'') sample_wire_request) = Inr ([1, 2], 3, ops)"
    using sample_prover_runs [of layouts s r sl rl] assms(1-3) by blast
  from sample_notarize [OF sample_prepared this]
  have "notarize (se_prover env) (se_verifier env) (cl_wire sample_lib) (cl_keccak256 sample_lib) (cl_dns sample_lib)
      (cl_io_text sample_lib) (se_now env) (capture_sign toy_curve sample_keccak 7) sample_request layouts (Finished (Inr sample_capture))"
    by (simp add: assms sample_lib_def)
  then show ?thesis by (rule capture_step.ran [rotated]) (simp add: capture_request_def sample_lib_def)
qed

lemma sample_step1: "capture_step sample_lib (capture_sign toy_curve sample_keccak 7) sample_env1 parts
    (token_layouts hex_chunk_size \<lparr>secret_field = None\<rparr>) (Finished (Inr sample_capture))"
proof (rule sample_step)
  show "token_layouts hex_chunk_size \<lparr>secret_field = None\<rparr> [1, 2, 3, 4] token_sample =
      Inr (\<lparr>reveal = [rng 0 4], commit = []\<rparr>, \<lparr>reveal = [rng 8 24, rng 26 27], commit = [rng 0 8, rng 24 26, rng 27 28]\<rparr>)"
    by (simp add: token_layouts_def token_request_def token_sample_layout revealing_one complement_def)
  show "se_prover sample_env1 = sample_env\<lparr>env_sent := [1, 2, 3, 4], env_received := token_sample\<rparr>"
    by (simp add: sample_env1_def sample_env_def)
qed (simp_all add: sample_env1_def)

lemma sample_step2: "capture_step sample_lib (capture_sign toy_curve sample_keccak 7) sample_env2 parts
    (identity_layouts hex_chunk_size identity_sample_session) (Finished (Inr sample_capture))"
proof (rule sample_step)
  show "identity_layouts hex_chunk_size identity_sample_session bearer_sample sample_response =
      Inr (\<lparr>reveal = [rng 0 27, rng 30 34], commit = [rng 27 30]\<rparr>, \<lparr>reveal = [rng 40 58, rng 64 72],
         commit = [rng 0 40, rng 58 64, rng 72 (length sample_response)]\<rparr>)"
    by (simp add: identity_layouts_def bearer_sample_layout identity_sample_layout)
  have "72 < length sample_response" by (simp add: sample_response_def eval)
  then show "list_all (\<lambda>r. sp_start r < sp_end r) (commit \<lparr>reveal = [rng 40 58, rng 64 72],
         commit = [rng 0 40, rng 58 64, rng 72 (length sample_response)]\<rparr>)" by simp
qed (simp_all add: sample_env2_def)

definition sample_redirect :: bytes where
  "sample_redirect = redirect_request (ascii ''/callback'') (ascii ''c'') (ascii ''aa'') crlf"

definition sample_file :: json where
  "sample_file = capture_file sample_keccak sample_keccak (\<lambda>_. ascii ''aa'')
     (ascii ''0xaa'') 9 sample_args sample_capture sample_capture"

lemma sample_capture_main:
  "capture_main sample_lib toy_curve (\<lambda>_. Inr (replicate 31 0 @ [7])) (\<lambda>_. \<lparr>secret_field = None\<rparr>) (\<lambda>_. identity_sample_session)
     sample_env1 sample_env2 0 9 sample_words [sample_redirect]
     (Wrote (path_join (ascii ''d'') (ascii ''x-ceremony-real.json'')) sample_file)"
proof -
  let ?state = "capture_state (cl_keccak256 sample_lib) (cl_hex_encode sample_lib) 0"
  have state: "?state = ascii ''aa''" by (simp add: capture_state_def sample_lib_def)
  have key: "hex_to_signing_key toy_curve (\<lambda>_. Inr (replicate 31 0 @ [7])) notary_key = Inr 7"
    by (simp add: hex_to_signing_key_def toy_curve_def)
  have "path_ok (ascii ''/callback'')" by (simp add: path_ok_def ascii_def is_ascii_def)
  moreover have "from_utf8_ok (ascii ''c'')" "from_utf8_ok (ascii ''aa'')"
    by (rule from_utf8_ok_all; simp add: ascii_def is_ascii_def)+
  ultimately have params: "redirect_params sample_redirect = (Some (ascii ''c''), Some ?state)"
    unfolding sample_redirect_def state by (rule redirect_params_request)
  then have code: "receive_code ?state [sample_redirect] = (map (redirect_reply ?state) [sample_redirect], Some (ascii ''c''))"
    using receive_code_first [of ?state "[]" sample_redirect "ascii ''c''" "[]"] by simp
  have url: "\<exists>url. authorize_url (arg_platform sample_args) (arg_client_id sample_args) (arg_redirect_uri sample_args) ?state
      (code_challenge (cl_keccak256 sample_lib) (cl_sha256 sample_lib)) = Some url"
    by (simp add: authorize_url_def authorize_endpoint_def sample_args_def)
  have bearer: "bearer_of (cl_parse_json sample_lib) (cs_response_body sample_capture) = Some (ascii ''tok'')"
    by (simp add: bearer_of_def sample_lib_def)
  have lib: "cl_chunk_size sample_lib = hex_chunk_size" "cl_keccak256 sample_lib = sample_keccak" "cl_sha256 sample_lib = sample_keccak"
    "cl_hex_encode sample_lib = (\<lambda>_. ascii ''aa'')" by (simp_all add: sample_lib_def)
  have plat: "arg_platform sample_args = ascii ''x''" "arg_out sample_args = ascii ''d''" by (simp_all add: sample_args_def)
  obtain parts where parts: "token_call sample_args (ascii ''c'') (code_verifier_of (cl_keccak256 sample_lib) (cl_sha256 sample_lib)) = Some parts"
    by (simp add: token_call_def plat)
  have "capture sample_lib (capture_sign toy_curve sample_keccak 7) (ascii ''0xaa'') \<lparr>secret_field = None\<rparr> identity_sample_session
      sample_env1 sample_env2 9 sample_args (ascii ''c'')
      (Wrote (path_join (arg_out sample_args) (arg_platform sample_args @ ascii ''-ceremony-real.json''))
        (capture_file (cl_keccak256 sample_lib) (cl_sha256 sample_lib) (cl_hex_encode sample_lib) (ascii ''0xaa'') 9 sample_args
          sample_capture sample_capture))"
    by (rule capture.wrote [OF parts _ bearer]) (simp_all add: lib sample_step1 sample_step2)
  moreover have "ascii ''x'' @ ascii ''-ceremony-real.json'' = ascii ''x-ceremony-real.json''" by (simp add: ascii_def)
  ultimately have cap: "capture sample_lib (capture_sign toy_curve (cl_keccak256 sample_lib) 7)
      (hex0x (cl_hex_encode sample_lib) (pubkey_to_eth_address toy_curve (cl_keccak256 sample_lib) (verifying_key toy_curve 7)))
      \<lparr>secret_field = None\<rparr> identity_sample_session
      sample_env1 sample_env2 9 sample_args (ascii ''c'') (Wrote (path_join (ascii ''d'') (ascii ''x-ceremony-real.json'')) sample_file)"
    by (simp add: sample_file_def lib plat hex0x_def) (simp add: ascii_def)
  from url obtain url where "authorize_url (arg_platform sample_args) (arg_client_id sample_args) (arg_redirect_uri sample_args) ?state
      (code_challenge (cl_keccak256 sample_lib) (cl_sha256 sample_lib)) = Some url" by blast
  from capture_main.ends [OF sample_words_parse key this code cap] show ?thesis .
qed

theorem captured_file_is_attested_witness:
  "\<exists>token. attested_member sample_lib toy_curve 7 (ascii ''https://api.x.com/2/oauth2/token'')
     (json_get (ascii ''token'') sample_file) token"
proof -
  have "big_endian_fixint (cl_wire sample_lib)" by (simp add: sample_lib_def wire_config_fixint)
  moreover have "\<And>bs. length (cl_keccak256 sample_lib bs) = 32" by (simp add: sample_lib_def sample_keccak_32)
  moreover have "slices_fit (se_verifier sample_env1)" "slices_fit (se_verifier sample_env2)"
    by (simp_all add: sample_env1_def sample_env2_def sample_notary_fit)
  ultimately have "\<exists>args key token. parse_args sample_words = Inr args \<and>
      hex_to_signing_key toy_curve (\<lambda>_. Inr (replicate 31 0 @ [7])) notary_key = Inr key \<and>
      attested_member sample_lib toy_curve (verifying_key toy_curve key) (token_endpoint args) (json_get (ascii ''token'') sample_file) token"
    using captured_file_is_attested [OF sample_capture_main _ _ toy_curve_laws] by blast
  then show ?thesis
    by (auto simp: sample_words_parse token_endpoint_def sample_args_def hex_to_signing_key_def toy_curve_def)
qed

end
