(* ===== verification/Account_Record.thy ===== *)
theory Account_Record
  imports Record_Reads Capture_Main
begin

text \<open>
  The identity session of \<open>libid-tlsn/examples/capture_ceremony.rs\<close>, end to end: from the layouts of
  \<open>libid-transcript/src/ceremony.rs\<close> over prover and notary to the signed record, and what that
  record states. The sample at the end is a whole notarized identity session.
\<close>

section \<open>The layouts of an identity session\<close>

lemma identity_layouts_Inr:
  "identity_layouts pcs session sent recv = Inr (sl, rl) \<longleftrightarrow>
     identity_request sent = Inr sl \<and> identity_response pcs recv session = Inr rl"
  by (auto simp: identity_layouts_def and_then_Inr_iff)

lemma revealing_sorted: "sort_key sp_start (reveal (revealing rs len)) = reveal (revealing rs len)"
  by (simp add: revealing_def Let_def sort_key_id_if_sorted)

lemma identity_request_sorted:
  "identity_request sent = Inr l \<Longrightarrow> sort_key sp_start (reveal l) = reveal l"
  unfolding identity_request_Inr using revealing_sorted by blast

lemma identity_request_tiles: "identity_request sent = Inr l \<Longrightarrow> tiles l (length sent)"
  using constructed_tiles [OF constructed.identity_request] by blast

text \<open>What the sent block of an identity session reveals.\<close>

definition cut_out_of :: "bytes \<Rightarrow> bytes \<Rightarrow> bytes \<Rightarrow> bool" where
  "cut_out_of bearer rest sent \<longleftrightarrow>
     (\<exists>before after. sent = before @ bearer_prefix @ bearer @ crlf @ after \<and>
        (\<forall>j < length before. \<not> occurs_at bearer_prefix sent j) \<and> (\<nexists>i. occurs_at crlf bearer i) \<and>
        rest = before @ bearer_prefix @ crlf @ after)"

lemma identity_request_shows:
  assumes "identity_request sent = Inr l"
  shows "\<exists>bearer. concat (map (slice sent) (commit l)) = bearer \<and>
    cut_out_of bearer (concat (map (slice sent) (sort_key sp_start (reveal l)))) sent"
proof -
  obtain p bearer where b: "sent = take p sent @ bearer_prefix @ bearer @ crlf @ drop (p + length (bearer_prefix @ bearer @ crlf)) sent"
      "\<forall>j < p. \<not> occurs_at bearer_prefix sent j" "\<nexists>i. occurs_at crlf bearer i" "concat (map (slice sent) (commit l)) = bearer"
    and shown: "concat (map (slice sent) (reveal l)) = take (p + length bearer_prefix) sent @ drop (p + length (bearer_prefix @ bearer)) sent"
    using identity_request_exact_parts [OF assms] by blast
  define before after where "before = take p sent" and "after = drop (p + length (bearer_prefix @ bearer @ crlf)) sent"
  have sent: "sent = before @ bearer_prefix @ bearer @ crlf @ after" using b(1) by (simp only: before_def after_def)
  have "length sent = length before + length (bearer_prefix @ bearer @ crlf) + length after" using sent by (metis add.assoc length_append)
  moreover have "length before = min (length sent) p" "length after = length sent - (p + length (bearer_prefix @ bearer @ crlf))"
    by (simp_all add: before_def after_def)
  ultimately have p: "length before = p" by (simp add: length_bearer_prefix)
  have "take (p + length bearer_prefix) sent = before @ bearer_prefix"
    "drop (p + length (bearer_prefix @ bearer)) sent = crlf @ after"
    using p by (simp_all add: sent)
  then show ?thesis
    unfolding cut_out_of_def identity_request_sorted [OF assms] shown using sent b(2-4) p by auto
qed

lemma identity_record:
  assumes "notarize penv venv cfg keccak256 dns io_text now (capture_sign k keccak256 key) request
      (identity_layouts pcs session) (Finished (Inr s))"
    and "big_endian_fixint cfg" and "\<And>bs. length (keccak256 bs) = 32" and "slices_fit venv" and "ecdsa_laws k"
    and layouts: "identity_layouts pcs session (env_sent penv) (env_received penv) = Inr (sl, rl)"
    and apart: "members_apart pcs (env_received penv) session"
    and len: "length (env_sent penv) < 2 ^ 32" "length (env_received penv) < 2 ^ 32"
    and shown: "shown_as venv Sent sl (env_sent penv)" "shown_as venv Received rl (env_received penv)"
  shows "\<exists>d body id_text handle_text. dec_attested (cs_record s) = Some (d, []) \<and>
    recover_eth_claim k keccak256 (cs_signature s) (keccak256 (cs_record s)) = Inr (verifying_key k key) \<and>
    authority_id d = authority_id_of keccak256 (cs_authority s) \<and>
    (extract_response_body pcs (env_received penv) :: unit error + bytes) = Inr body \<and>
    (if id_shape_of session = JsonString then states_member else states_number) body (id_field session) id_text \<and>
    states_member body (handle_field session) handle_text \<and>
    revealed_text (received_block d) \<in> {id_text @ handle_text, handle_text @ id_text} \<and>
    cut_out_of (concat (map (slice (env_sent penv)) (commit sl))) (revealed_text (sent_block d)) (env_sent penv)"
proof (rule notarize_parts [OF assms(1-4)])
  fix result n t
  assume a: "v_accept_proof venv = Inr result" "vo_transcript result = Some t" "cs_authority s = dns n"
    and dec: "\<And>rest. dec_attested (cs_record s @ rest) = Some (record_of keccak256 (output_session dns now n t result), rest)"
    and sig: "capture_sign k keccak256 key (keccak256 (cs_record s)) = Some (cs_signature s)"
  let ?s = "output_session dns now n t result" and ?d = "record_of keccak256 (output_session dns now n t result)"
  note sent = shown_as_observes [OF shown(1) a(1,2), of dns now n]
    and recv = shown_as_observes [OF shown(2) a(1,2), of dns now n]
  have l: "identity_request (env_sent penv) = Inr sl" "identity_response pcs (env_received penv) session = Inr rl"
    using layouts by (simp_all add: identity_layouts_Inr)
  have "sign_eth_claim k keccak256 key (keccak256 (cs_record s)) = Inr (cs_signature s)"
    using sig by (simp add: capture_sign_def ok_def split: sum.splits)
  note signed = sign_recover_roundtrip_parts(4) [OF assms(5) this]
  have "revealed_text (sent_block ?d) = concat (map (slice (env_sent penv)) (sort_key sp_start (reveal sl)))"
    using observed_text [OF conjunct1 [OF sent] identity_request_tiles [OF l(1)] len(1)] by (simp add: record_of_def)
  then have cut: "cut_out_of (concat (map (slice (env_sent penv)) (commit sl))) (revealed_text (sent_block ?d)) (env_sent penv)"
    using identity_request_shows [OF l(1)] by simp
  from account_recorded [OF l(2) apart conjunct1 [OF recv] conjunct2 [OF recv] len(2)]
  obtain b body id_text handle_text where b: "block_from_observed ?s Received = Inr b"
      and r: "(extract_response_body pcs (env_received penv) :: unit error + bytes) = Inr body"
      "(if id_shape_of session = JsonString then states_member else states_number) body (id_field session) id_text"
      "states_member body (handle_field session) handle_text" "revealed_text b \<in> {id_text @ handle_text, handle_text @ id_text}"
    by blast
  have "received_block ?d = b" using b by (simp add: block_from_observed_eq record_of_def)
  moreover have "dec_attested (cs_record s) = Some (?d, [])" using dec [of "[]"] by simp
  moreover have "authority_id ?d = authority_id_of keccak256 (cs_authority s)"
    by (simp add: record_of_def output_session_def a(3))
  ultimately show ?thesis using signed r cut by (intro exI [of _ ?d] exI [of _ body] exI [of _ id_text] exI [of _ handle_text]) simp
qed

section \<open>A notarized sample\<close>

text \<open>A notary whose output is the given session, and what a capture keeps of it.\<close>

definition notary_showing :: "observed_session \<Rightarrow> (nat, bytes) verifier_env" where
  "notary_showing session = sample_verifier\<lparr>v_accept_proof := Inr \<lparr>vo_server_name = Some (obs_authority session),
     vo_transcript = Some (obs_transcript session), vo_commitments = obs_commitments session\<rparr>\<rparr>"

definition kept_of :: "observed_session \<Rightarrow> capture_session" where
  "kept_of session = \<lparr>cs_record = lay_attested (record_of sample_keccak session), cs_signature = replicate 63 0 @ [7, 28],
     cs_created_at = obs_created_at session, cs_response_body = [1, 2], cs_authority = obs_authority session\<rparr>"

lemma notary_showing_returns:
  "verifier (notary_showing session) (Inr \<lparr>vr_partial_transcript = obs_transcript session, vr_server_name = obs_authority session,
     vr_tls_transcript = 0, vr_transcript_commitments = obs_commitments session, vr_io = (7 :: nat)\<rparr>)"
proof -
  have "snd (verifier_setup (notary_showing session)) =
      Inr (obs_authority session, obs_transcript session, 0, obs_commitments session)"
    by (simp add: verifier_setup_def leave_scope_def accept_session_def check_request_def accept_proof_def notary_showing_def
        run_simps mpc_err_def sample_verifier_def max_sent_data_def max_recv_data_def overrun_of_def application_data_len_def)
  then obtain s :: "(verifier_call, bytes \<times> partial_transcript \<times> nat \<times> transcript_commitment list, nat) race"
    where "reach (verifier_setup (notary_showing session)) s"
      "phase_of s = Returned (Inr ((obs_authority session, obs_transcript session, 0, obs_commitments session), 7))"
    by (rule reach_returns)
  from verifier.returned [OF this] show ?thesis by (simp add: verifier_result_of_def)
qed

definition session_fits :: "observed_session \<Rightarrow> bool" where
  "session_fits session \<longleftrightarrow>
     (\<forall>dir. slice_ok (unsafe_of dir (obs_transcript session)) \<and> slice_ok (authed_of dir (obs_transcript session))) \<and>
     slice_ok (obs_commitments session)"

lemma notary_showing_fits: "session_fits session \<Longrightarrow> slices_fit (notary_showing session)"
  by (simp add: slices_fit_def notary_showing_def session_fits_def)

lemma showing_notarized:
  assumes ls: "layouts sent recv = Inr (sl, rl)" "list_all (\<lambda>r. sp_start r < sp_end r) (commit sl)"
      "list_all (\<lambda>r. sp_start r < sp_end r) (commit rl)"
    and rec: "from_observed sample_keccak session = Inr (record_of sample_keccak session)" "session_fits session"
  shows "notarize (sample_env\<lparr>env_sent := sent, env_received := recv\<rparr>) (notary_showing session) wire_config sample_keccak
     (\<lambda>n. n) (\<lambda>_. []) (obs_created_at session) (capture_sign toy_curve sample_keccak 7) sample_request layouts
     (Finished (Inr (kept_of session)))"
proof -
  obtain ops where "snd (prover_setup (sample_env\<lparr>env_sent := sent, env_received := recv\<rparr>) (capture_layout layouts)
      (ascii ''api.x.com'') sample_wire_request) = Inr ([1, 2], 3, ops)"
    using sample_prover_runs [of layouts sent recv sl rl] ls by blast
  then obtain s :: "((bytes option \<times> bytes, unit) prover_call, bytes \<times> nat \<times> commitment_opening list, nat) race"
    where "reach (prover_setup (sample_env\<lparr>env_sent := sent, env_received := recv\<rparr>) (capture_layout layouts)
        (ascii ''api.x.com'') sample_wire_request) s" "phase_of s = Returned (Inr (([1, 2], 3, ops), 7))"
    by (rule reach_returns)
  note p = prover_generic.returned [OF sample_prepared this]
  have enc: "encode_attested wire_config (record_of sample_keccak session) = Inr (lay_attested (record_of sample_keccak session))"
    using rec(2) record_decodes(1) [OF rec(1) wire_config_fixint sample_keccak_32] by (simp add: session_fits_def)
  have same: "observed_of (obs_authority session) (obs_created_at session)
      \<lparr>vr_partial_transcript = obs_transcript session, vr_server_name = obs_authority session,
       vr_tls_transcript = 0 :: nat, vr_transcript_commitments = obs_commitments session, vr_io = 7 :: nat\<rparr> = session"
    by (simp add: observed_of_def)
  have kept: "record_session wire_config sample_keccak (\<lambda>n. n) (capture_sign toy_curve sample_keccak 7) (obs_created_at session) q
      \<lparr>vr_partial_transcript = obs_transcript session, vr_server_name = obs_authority session,
       vr_tls_transcript = 0 :: nat, vr_transcript_commitments = obs_commitments session, vr_io = 7 :: nat\<rparr> = Some (kept_of session)"
    if "response_body q = [1, 2]" for q :: "(nat, nat) prover_result"
    unfolding record_session_Some using that enc rec(1)
    by (simp add: same kept_of_def) (simp add: capture_sign_def sign_eth_claim_def toy_curve_def ok_def)
  show ?thesis
    by (rule notarize.notarized [OF p notary_showing_returns kept]) (simp add: prover_result_of_def)
qed

lemma notary_showing_shows:
  assumes "session_observes ls data session"
  shows "shown_as (notary_showing session) dir (ls dir) (data dir)"
  using assms
  by (cases dir) (simp_all add: shown_as_def notary_showing_def session_observes_def observes_def sha256_hashes_def Let_def)

text \<open>The two samples of \<open>Layouts\<close> and \<open>Ranges\<close> as one identity session.\<close>

definition sample_ls :: "direction \<Rightarrow> layout" where
  "sample_ls dir = (case dir of Sent \<Rightarrow> \<lparr>reveal = [rng 0 27, rng 30 34], commit = [rng 27 30]\<rparr>
     | Received \<Rightarrow> \<lparr>reveal = [rng 40 58, rng 64 72], commit = [rng 0 40, rng 58 64, rng 72 (length sample_response)]\<rparr>)"

definition sample_data :: "direction \<Rightarrow> bytes" where
  "sample_data dir = (case dir of Sent \<Rightarrow> bearer_sample | Received \<Rightarrow> sample_response)"

definition identity_run :: observed_session where
  "identity_run = shown_session (ascii ''api.x.com'') 9 sample_ls sample_data (\<lambda>_. replicate 32 7)"

lemma sample_sizes: "length bearer_sample = 34" "72 < length sample_response" "length sample_response < 100"
  by (simp_all add: bearer_sample_def length_bearer_prefix sample_response_def eval)

lemma sample_ls_fit: "layouts_fit sample_ls sample_data"
  using sample_sizes by (simp add: layouts_fit_def sample_ls_def sample_data_def tiles_def spans_of_def)

lemma identity_run_observes: "session_observes sample_ls sample_data identity_run"
  unfolding identity_run_def by (rule shown_observes [OF sample_ls_fit]) (simp_all add: sample_ls_def)

lemma identity_run_fits: "session_fits identity_run"
proof -
  have "slice_ok (unsafe_of dir (obs_transcript identity_run)) \<and> slice_ok (authed_of dir (obs_transcript identity_run))" for dir
    using sample_sizes by (cases dir)
      (simp_all add: identity_run_def shown_session_def unsafe_of_def authed_of_def sample_ls_def sample_data_def isize_max_def)
  moreover have "slice_ok (obs_commitments identity_run)"
    by (simp add: identity_run_def shown_session_def sample_ls_def isize_max_def)
  ultimately show ?thesis by (simp add: session_fits_def)
qed

lemma sample_identity_layouts:
  "identity_layouts hex_chunk_size identity_sample_session bearer_sample sample_response = Inr (sample_ls Sent, sample_ls Received)"
  by (simp add: identity_layouts_def bearer_sample_layout identity_sample_layout sample_ls_def)

lemma identity_run_notarized:
  "notarize (sample_env\<lparr>env_sent := bearer_sample, env_received := sample_response\<rparr>) (notary_showing identity_run) wire_config
     sample_keccak (\<lambda>n. n) (\<lambda>_. []) 9 (capture_sign toy_curve sample_keccak 7) sample_request
     (identity_layouts hex_chunk_size identity_sample_session) (Finished (Inr (kept_of identity_run)))"
proof -
  have ls: "list_all (\<lambda>r. sp_start r < sp_end r) (commit (sample_ls Sent))" "list_all (\<lambda>r. sp_start r < sp_end r) (commit (sample_ls Received))"
    using sample_sizes by (simp_all add: sample_ls_def)
  note rec = session_record [where ?keccak256.0 = sample_keccak, OF identity_run_observes sample_ls_fit]
  from showing_notarized [where layouts = "identity_layouts hex_chunk_size identity_sample_session" and sent = bearer_sample
      and recv = sample_response, OF sample_identity_layouts ls rec identity_run_fits]
  show ?thesis by (simp add: identity_run_def shown_session_def)
qed

lemma sample_members_apart: "members_apart hex_chunk_size sample_response identity_sample_session"
  by (simp add: members_apart_def identity_sample_session_def sample_id sample_login
      compute_field_snippet_range_def disjoint_spans_def)

section \<open>Property\<close>

text \<open>C3. The composition of it all, for the identity session of a capture whose two members do not
  overlap (the debug assertion of \<open>revealing\<close>): what is kept is a record
  signed by the notary key under the authority the session named; the received block states
  the account, its revealed bytes being the id and the handle of the decoded body in order;
  and the sent block shows the request with exactly the bearer cut out, which is what the
  layout committed.\<close>
theorem identity_record_states_account:
  assumes "notarize penv venv cfg keccak256 dns io_text now (capture_sign k keccak256 key) request
      (identity_layouts pcs session) (Finished (Inr s))"
    and "big_endian_fixint cfg" and "\<And>bs. length (keccak256 bs) = 32" and "slices_fit venv" and "ecdsa_laws k"
    and layouts: "identity_layouts pcs session (env_sent penv) (env_received penv) = Inr (sl, rl)"
    and apart: "members_apart pcs (env_received penv) session"
    and len: "length (env_sent penv) < 2 ^ 32" "length (env_received penv) < 2 ^ 32"
    and shown: "shown_as venv Sent sl (env_sent penv)" "shown_as venv Received rl (env_received penv)"
  shows "\<exists>d body id_text handle_text. dec_attested (cs_record s) = Some (d, []) \<and>
    recover_eth_claim k keccak256 (cs_signature s) (keccak256 (cs_record s)) = Inr (verifying_key k key) \<and>
    authority_id d = authority_id_of keccak256 (cs_authority s) \<and>
    (extract_response_body pcs (env_received penv) :: unit error + bytes) = Inr body \<and>
    (if id_shape_of session = JsonString then states_member else states_number) body (id_field session) id_text \<and>
    states_member body (handle_field session) handle_text \<and>
    revealed_text (received_block d) \<in> {id_text @ handle_text, handle_text @ id_text} \<and>
    cut_out_of (concat (map (slice (env_sent penv)) (commit sl))) (revealed_text (sent_block d)) (env_sent penv)"
  by (rule identity_record [OF assms])

theorem identity_record_states_account_witness:
  "\<exists>d id_text handle_text. dec_attested (cs_record (kept_of identity_run)) = Some (d, []) \<and>
    revealed_text (received_block d) \<in> {id_text @ handle_text, handle_text @ id_text} \<and>
    cut_out_of (ascii ''tok'') (revealed_text (sent_block d)) bearer_sample"
proof -
  let ?env = "sample_env\<lparr>env_sent := bearer_sample, env_received := sample_response\<rparr>"
  have data: "env_sent ?env = bearer_sample" "env_received ?env = sample_response" by simp_all
  have len: "length (env_sent ?env) < 2 ^ 32" "length (env_received ?env) < 2 ^ 32" using sample_sizes by simp_all
  have shown: "shown_as (notary_showing identity_run) Sent (sample_ls Sent) (env_sent ?env)"
    "shown_as (notary_showing identity_run) Received (sample_ls Received) (env_received ?env)"
    using notary_showing_shows [OF identity_run_observes, of Sent] notary_showing_shows [OF identity_run_observes, of Received]
    by (simp_all add: sample_data_def)
  have layouts: "identity_layouts hex_chunk_size identity_sample_session (env_sent ?env) (env_received ?env) = Inr (sample_ls Sent, sample_ls Received)"
    and apart: "members_apart hex_chunk_size (env_received ?env) identity_sample_session"
    unfolding data by (rule sample_identity_layouts sample_members_apart)+
  have "concat (map (slice bearer_sample) (commit (sample_ls Sent))) = ascii ''tok''"
    by (simp add: sample_ls_def bearer_sample_def bearer_prefix_def slice_def eval)
  then show ?thesis
    using identity_record_states_account [OF identity_run_notarized wire_config_fixint sample_keccak_32
      notary_showing_fits [OF identity_run_fits] toy_curve_laws layouts apart len shown]
    unfolding data by auto
qed

end
