(* ===== verification/Fixtures.thy ===== *)
theory Fixtures
  imports Coverage Session_Parts Ceremony_Common "HOL-Library.Product_Lexorder"
begin

text \<open>
  \<open>blinder\<close> and \<open>build\<close> of \<open>libid-tlsn/examples/ceremony_fixtures.rs\<close>: a record made the way a
  ceremony makes it, without the MPC. The builders, the partial transcript and the plaintext
  hash of \<open>tlsn\<close> are arguments, with what they document in \<open>fixture_laws\<close>; \<open>None\<close> is the panic of
  an \<open>expect\<close> or of an index. Lemmas: the build succeeds on layouts that tile, and what its
  record and its openings are.
\<close>

section \<open>The parameters\<close>

record ('c, 'cfg) fixture_tlsn =
  ft_builder :: "('c, 'cfg) commit_builder"
  ft_new :: 'c
  ft_iter_hash :: "'cfg \<Rightarrow> (direction \<times> span list) list"
  ft_reveal :: "direction \<Rightarrow> span \<Rightarrow> bytes + unit"
  ft_prove_config :: "span list \<Rightarrow> span list \<Rightarrow> bytes + unit"
  ft_partial :: "bytes \<Rightarrow> bytes \<Rightarrow> span list \<Rightarrow> span list \<Rightarrow> partial_transcript"
  ft_hash_prefixed :: "bytes \<Rightarrow> bytes \<Rightarrow> bytes"

section \<open>The build\<close>

definition fixture_clock :: "64 word" where "fixture_clock = 1770000000"

definition blinder :: "(bytes \<Rightarrow> bytes) \<Rightarrow> bytes \<Rightarrow> nat \<Rightarrow> bytes" where
  "blinder keccak256 session index =
     take 16 (keccak256 (ascii ''libid ceremony fixture '' @ session @ ascii '' '' @ ascii (decimal index)))"

fun reveal_all :: "('c, 'cfg) fixture_tlsn \<Rightarrow> direction \<Rightarrow> span list \<Rightarrow> unit option" where
  "reveal_all lib dir [] = Some ()"
| "reveal_all lib dir (r # rs) = (case ft_reveal lib dir r of Inl _ \<Rightarrow> None | Inr _ \<Rightarrow> reveal_all lib dir rs)"

definition bytes_of :: "direction \<Rightarrow> bytes \<Rightarrow> bytes \<Rightarrow> bytes" where
  "bytes_of dir sent recv = (case dir of Sent \<Rightarrow> sent | Received \<Rightarrow> recv)"

text \<open>\<open>sort_by_key\<close> reads \<open>ranges[0]\<close> as soon as there are two entries to compare.\<close>

definition order_commitments :: "(direction \<times> span list) list \<Rightarrow> (direction \<times> span list) list option" where
  "order_commitments cs =
     (if 2 \<le> length cs \<and> (\<not> list_all (\<lambda>(dir, ranges). ranges \<noteq> []) cs) then None
      else Some (sort_key (\<lambda>(dir, ranges). (dir = Received, sp_start (hd ranges))) cs))"

text \<open>One commitment: what opens it, and the plaintext hash.\<close>

definition fixture_commitment ::
  "('c, 'cfg) fixture_tlsn \<Rightarrow> (bytes \<Rightarrow> bytes) \<Rightarrow> bytes \<Rightarrow> bytes \<Rightarrow> bytes \<Rightarrow>
   nat \<times> direction \<times> span list \<Rightarrow> (commitment_opening \<times> plaintext_hash) option" where
  "fixture_commitment lib keccak256 session sent recv e =
     (let (index, dir, ranges) = e; bs = bytes_of dir sent recv; b = blinder keccak256 session index in
      if list_all (in_slice bs) ranges
      then Some (\<lparr>op_direction = dir, op_ranges = ranges, op_blinder = b\<rparr>,
                 \<lparr>ph_direction = dir, ph_idx = ranges, ph_alg = SHA256,
                  ph_value = ft_hash_prefixed lib (concat (map (slice bs) ranges)) b\<rparr>)
      else None)"

definition opening_json :: "(bytes \<Rightarrow> bytes) \<Rightarrow> (direction \<Rightarrow> bytes) \<Rightarrow> commitment_opening \<Rightarrow> json" where
  "opening_json hex_encode direction_text o' = JObject [
     (ascii ''direction'', JString (direction_text (op_direction o'))),
     (ascii ''ranges'', JArray (map (\<lambda>r. JArray [JNumber (sp_start r), JNumber (sp_end r)]) (op_ranges o'))),
     (ascii ''blinder'', JString (ascii ''0x'' @ hex_encode (op_blinder o')))]"

record fixture_record_of =
  fr_data :: attested_data
  fr_openings :: "commitment_opening list"

definition fixture_build ::
  "('c, 'cfg) fixture_tlsn \<Rightarrow> (bytes \<Rightarrow> bytes) \<Rightarrow> bytes \<Rightarrow> bytes \<Rightarrow> bytes \<Rightarrow> layout \<Rightarrow> layout \<Rightarrow> bytes \<Rightarrow>
   fixture_record_of option" where
  "fixture_build lib keccak256 session sent recv sl rl authority = do {
     commits \<leftarrow> ok (transcript_commit_config (ft_builder lib) (ft_new lib) (commit sl) (commit rl));
     _ \<leftarrow> reveal_all lib Sent (reveal sl);
     _ \<leftarrow> reveal_all lib Received (reveal rl);
     _ \<leftarrow> ok (ft_prove_config lib (reveal sl) (reveal rl));
     let partial = ft_partial lib sent recv (reveal sl) (reveal rl);
     ordered \<leftarrow> order_commitments (ft_iter_hash lib commits);
     made \<leftarrow> those (map (fixture_commitment lib keccak256 session sent recv) (enumerate 0 ordered));
     data \<leftarrow> ok (from_observed keccak256
       \<lparr>obs_transcript = partial, obs_authority = authority,
        obs_commitments = map (HashCommitment \<circ> snd) made, obs_created_at = fixture_clock\<rparr>);
     Some \<lparr>fr_data = data, fr_openings = map fst made\<rparr>
   }"

definition fixture_session_json ::
  "('e bincode) \<Rightarrow> (bytes \<Rightarrow> bytes) \<Rightarrow> (bytes \<Rightarrow> bytes) \<Rightarrow> (direction \<Rightarrow> bytes) \<Rightarrow> (bytes \<Rightarrow> bytes option) \<Rightarrow>
   bytes \<Rightarrow> bytes \<Rightarrow> bytes \<Rightarrow> fixture_record_of \<Rightarrow> json option" where
  "fixture_session_json cfg keccak256 hex_encode direction_text sign endpoint sent recv rec = do {
     attested \<leftarrow> ok (encode_attested cfg (fr_data rec));
     signature \<leftarrow> sign (keccak256 attested);
     Some (JObject [
       (ascii ''endpoint'', JString endpoint),
       (ascii ''sent'', JString (hex0x hex_encode sent)),
       (ascii ''received'', JString (hex0x hex_encode recv)),
       (ascii ''attested_data'', JString (hex0x hex_encode attested)),
       (ascii ''notary_signature'', JString (hex0x hex_encode signature)),
       (ascii ''openings'', JArray (map (opening_json hex_encode direction_text) (fr_openings rec)))])
   }"

section \<open>What the library documents\<close>

text \<open>
  Ranges inside the transcript are accepted, and a proof that reveals something can be
  configured (\<open>reveal()\<close> has nothing to return otherwise); the configuration iterates what was committed,
  in any order; the partial transcript has the revealed positions as its authenticated set
  and the plaintext there; a hash has 32 bytes.
\<close>

definition fixture_laws ::
  "('c, 'cfg) fixture_tlsn \<Rightarrow> ('c \<Rightarrow> hash_alg_id) \<Rightarrow> ('c \<Rightarrow> (direction \<times> span \<times> hash_alg_id) list) \<Rightarrow>
   ('cfg \<Rightarrow> (direction \<times> span \<times> hash_alg_id) list) \<Rightarrow> bytes \<Rightarrow> bytes \<Rightarrow> bool" where
  "fixture_laws lib kind added contents sent recv \<longleftrightarrow>
     builder_laws (ft_builder lib) kind added contents \<and> added (ft_new lib) = [] \<and>
     (\<forall>dir r c. span_ok (length (bytes_of dir sent recv)) r \<longrightarrow>
        (\<exists>c'. cb_commit (ft_builder lib) dir r c = Inr c') \<and> ft_reveal lib dir r = Inr ()) \<and>
     (\<forall>c. \<exists>cfg. cb_build (ft_builder lib) c = Inr cfg) \<and>
     (\<forall>rs ss. rs \<noteq> [] \<or> ss \<noteq> [] \<longrightarrow> ft_prove_config lib rs ss = Inr ()) \<and>
     (\<forall>cfg. distinct (contents cfg) \<longrightarrow> mset (ft_iter_hash lib cfg) = mset (map (\<lambda>(d, r, _). (d, [r])) (contents cfg))) \<and>
     (\<forall>rs ss. let t = ft_partial lib sent recv rs ss in
        (list_all (span_ok (length sent)) rs \<and> list_all (span_ok (length recv)) ss) \<longrightarrow>
        partial_shows sent rs (sent_authed t) (sent_unsafe t) \<and> partial_shows recv ss (received_authed t) (received_unsafe t) \<and>
        len_sent t = length sent \<and> len_received t = length recv) \<and>
     (\<forall>m b. length (ft_hash_prefixed lib m b) = 32)"

section \<open>The commitments\<close>

lemma commit_each_accepts:
  "(\<And>r c. r \<in> set rs \<Longrightarrow> \<exists>c'. cb_commit cb dir r c = Inr c') \<Longrightarrow> \<exists>c'. commit_each cb what dir rs c = Inr c'"
proof (induction rs arbitrary: c)
  case (Cons r rs)
  then obtain c1 where "cb_commit cb dir r c = Inr c1" by (metis list.set_intros(1))
  with Cons show ?case by (simp add: mpc_err_def)
qed simp

lemma reveal_all_accepts: "(\<And>r. r \<in> set rs \<Longrightarrow> ft_reveal lib dir r = Inr ()) \<Longrightarrow> reveal_all lib dir rs = Some ()"
  by (induction rs) simp_all

lemma tiles_spans: "tiles l len \<Longrightarrow> list_all (span_ok len) (reveal l) \<and> list_all (span_ok len) (commit l) \<and> distinct (commit l)"
proof -
  assume t: "tiles l len"
  then have "distinct (spans_of l)" using tiles_from_starts(3) by (simp add: tiles_def)
  then have "distinct (reveal l @ commit l)" by (metis distinct_sort spans_of_def)
  with tiles_disjoint(1) [OF t] show ?thesis by (simp add: list_all_iff)
qed

text \<open>The entries in the order of the record, and the entry made of each.\<close>

definition wanted :: "layout \<Rightarrow> layout \<Rightarrow> (direction \<times> span list) list" where
  "wanted sl rl = map (\<lambda>r. (Sent, [r])) (commit sl) @ map (\<lambda>r. (Received, [r])) (commit rl)"

lemma commits_of:
  assumes laws: "fixture_laws lib kind added contents sent recv"
    and t: "tiles sl (length sent)" "tiles rl (length recv)"
  shows "\<exists>cfg. transcript_commit_config (ft_builder lib) (ft_new lib) (commit sl) (commit rl) = Inr cfg \<and>
    mset (ft_iter_hash lib cfg) = mset (wanted sl rl)"
proof -
  have acc: "\<exists>c'. cb_commit (ft_builder lib) Sent r c = Inr c'" if "r \<in> set (commit sl)" for r c
    using laws tiles_spans [OF t(1)] that by (auto simp: fixture_laws_def bytes_of_def list_all_iff split: direction.splits)
  have acc': "\<exists>c'. cb_commit (ft_builder lib) Received r c = Inr c'" if "r \<in> set (commit rl)" for r c
    using laws tiles_spans [OF t(2)] that by (auto simp: fixture_laws_def bytes_of_def list_all_iff split: direction.splits)
  obtain c1 where c1: "commit_each (ft_builder lib) ''commit sent'' Sent (commit sl) (cb_default_kind (ft_builder lib) SHA256 (ft_new lib)) = Inr c1"
    using commit_each_accepts [OF acc] by blast
  obtain c2 where c2: "commit_each (ft_builder lib) ''commit recv'' Received (commit rl) c1 = Inr c2"
    using commit_each_accepts [OF acc'] by blast
  obtain cfg where "cb_build (ft_builder lib) c2 = Inr cfg" using laws unfolding fixture_laws_def by blast
  with c1 c2 have cfg: "transcript_commit_config (ft_builder lib) (ft_new lib) (commit sl) (commit rl) = Inr cfg"
    by (simp add: transcript_commit_config_def Let_def mpc_err_def)
  have b: "builder_laws (ft_builder lib) kind added contents" "added (ft_new lib) = []"
    using laws by (simp_all add: fixture_laws_def)
  from transcript_commit_config_contents [OF b cfg]
  have con: "contents cfg = map (\<lambda>r. (Sent, r, SHA256)) (commit sl) @ map (\<lambda>r. (Received, r, SHA256)) (commit rl)" .
  then have "distinct (contents cfg)"
    using tiles_spans [OF t(1)] tiles_spans [OF t(2)] by (auto simp: distinct_map inj_on_def)
  then have "mset (ft_iter_hash lib cfg) = mset (map (\<lambda>(d, r, _). (d, [r])) (contents cfg))"
    using laws by (simp add: fixture_laws_def)
  also have "\<dots> = mset (wanted sl rl)" by (simp add: con wanted_def comp_def)
  finally show ?thesis using cfg by blast
qed

lemma hashes_of_made:
  "hashes_of dir (map (HashCommitment \<circ> snd) made) = map snd (filter (\<lambda>m. ph_direction (snd m) = dir) made)"
  by (induction made) auto

lemma those_Some: "those (map f xs) = Some ys \<longleftrightarrow> map f xs = map Some ys"
  by (induction xs arbitrary: ys) (auto simp: Cons_eq_map_conv split: option.splits)

lemma those_all: "(\<And>x. x \<in> set xs \<Longrightarrow> f x = Some (g x)) \<Longrightarrow> those (map f xs) = Some (map g xs)"
  by (simp add: those_Some)

definition made_of ::
  "('c, 'cfg) fixture_tlsn \<Rightarrow> (bytes \<Rightarrow> bytes) \<Rightarrow> bytes \<Rightarrow> bytes \<Rightarrow> bytes \<Rightarrow> nat \<times> direction \<times> span list \<Rightarrow>
   commitment_opening \<times> plaintext_hash" where
  "made_of lib keccak256 session sent recv e =
     (let (index, dir, ranges) = e; bs = bytes_of dir sent recv; b = blinder keccak256 session index in
      (\<lparr>op_direction = dir, op_ranges = ranges, op_blinder = b\<rparr>,
       \<lparr>ph_direction = dir, ph_idx = ranges, ph_alg = SHA256,
        ph_value = ft_hash_prefixed lib (concat (map (slice bs) ranges)) b\<rparr>))"

lemma made_of_parts [simp]:
  "ph_direction (snd (made_of lib keccak256 session sent recv e)) = fst (snd e)"
  "ph_idx (snd (made_of lib keccak256 session sent recv e)) = snd (snd e)"
  "ph_alg (snd (made_of lib keccak256 session sent recv e)) = SHA256"
  "op_direction (fst (made_of lib keccak256 session sent recv e)) = fst (snd e)"
  "op_ranges (fst (made_of lib keccak256 session sent recv e)) = snd (snd e)"
  "ph_value (snd (made_of lib keccak256 session sent recv e)) =
     ft_hash_prefixed lib (concat (map (slice (bytes_of (fst (snd e)) sent recv)) (snd (snd e))))
       (op_blinder (fst (made_of lib keccak256 session sent recv e)))"
  by (simp_all add: made_of_def Let_def split_beta)

lemma wanted_in_slice:
  assumes "tiles sl (length sent)" and "tiles rl (length recv)" and "(dir, rs) \<in> set (wanted sl rl)"
  shows "\<exists>r. rs = [r] \<and> span_ok (length (bytes_of dir sent recv)) r"
  using tiles_spans [OF assms(1)] tiles_spans [OF assms(2)] assms(3)
  by (auto simp: wanted_def bytes_of_def list_all_iff)

text \<open>The entries made from any order of the wanted ones.\<close>

lemma enumerate_wanted:
  assumes m: "mset ordered = mset (wanted sl rl)" and e: "e \<in> set (enumerate 0 ordered)"
  shows "snd e \<in> set (wanted sl rl)"
proof -
  have "snd e \<in> set ordered" using e by (auto simp: in_set_enumerate_eq dest: nth_mem)
  then show ?thesis using mset_eq_setD [OF m] by simp
qed

lemma made_all:
  assumes t: "tiles sl (length sent)" "tiles rl (length recv)" and m: "mset ordered = mset (wanted sl rl)"
  shows "those (map (fixture_commitment lib keccak256 session sent recv) (enumerate 0 ordered)) =
    Some (map (made_of lib keccak256 session sent recv) (enumerate 0 ordered))"
proof (rule those_all)
  fix e assume e: "e \<in> set (enumerate 0 ordered)"
  obtain i dir rs where eq: "e = (i, dir, rs)" by (cases e)
  have "(dir, rs) \<in> set (wanted sl rl)" using enumerate_wanted [OF m e] by (simp add: eq)
  from wanted_in_slice [OF t this] obtain r where "rs = [r]" "span_ok (length (bytes_of dir sent recv)) r" by blast
  then have "list_all (in_slice (bytes_of dir sent recv)) rs" by (simp add: span_ok_def in_slice_def)
  then show "fixture_commitment lib keccak256 session sent recv e = Some (made_of lib keccak256 session sent recv e)"
    by (simp add: eq fixture_commitment_def made_of_def Let_def)
qed

definition layout_of :: "direction \<Rightarrow> layout \<Rightarrow> layout \<Rightarrow> layout" where
  "layout_of dir sl rl = (case dir of Sent \<Rightarrow> sl | Received \<Rightarrow> rl)"

lemma filter_wanted: "filter (\<lambda>x. fst x = dir) (wanted sl rl) = map (\<lambda>r. (dir, [r])) (commit (layout_of dir sl rl))"
  by (cases dir) (simp_all add: wanted_def layout_of_def filter_map comp_def)

lemma map_filter_enumerate:
  "map (snd \<circ> snd) (filter (\<lambda>e. P (snd e)) (enumerate n xs)) = map snd (filter P xs)"
  by (induction xs arbitrary: n) auto

lemma made_idx:
  assumes "mset ordered = mset (wanted sl rl)"
  shows "mset (map ph_idx (hashes_of dir (map (HashCommitment \<circ> snd) (map (made_of lib keccak256 session sent recv) (enumerate 0 ordered))))) =
    mset (map (\<lambda>r. [r]) (commit (layout_of dir sl rl)))"
proof -
  let ?es = "enumerate 0 ordered"
  have "map ph_idx (hashes_of dir (map (HashCommitment \<circ> snd) (map (made_of lib keccak256 session sent recv) ?es))) =
      map (snd \<circ> snd) (filter (\<lambda>e. fst (snd e) = dir) ?es)"
    by (simp only: hashes_of_made) (simp add: filter_map comp_def)
  also have "\<dots> = map snd (filter (\<lambda>x. fst x = dir) ordered)"
    by (rule map_filter_enumerate)
  finally have "mset (map ph_idx (hashes_of dir (map (HashCommitment \<circ> snd) (map (made_of lib keccak256 session sent recv) ?es)))) =
      image_mset snd (filter_mset (\<lambda>x. fst x = dir) (mset (wanted sl rl)))"
    by (simp add: assms [symmetric])
  also have "\<dots> = mset (map snd (filter (\<lambda>x. fst x = dir) (wanted sl rl)))" by simp
  finally show ?thesis by (simp only: filter_wanted) (simp add: comp_def)
qed

section \<open>The session a build observes\<close>

definition built_session ::
  "('c, 'cfg) fixture_tlsn \<Rightarrow> (bytes \<Rightarrow> bytes) \<Rightarrow> bytes \<Rightarrow> bytes \<Rightarrow> bytes \<Rightarrow> layout \<Rightarrow> layout \<Rightarrow> bytes \<Rightarrow>
   (direction \<times> span list) list \<Rightarrow> observed_session" where
  "built_session lib keccak256 session sent recv sl rl authority ordered =
     \<lparr>obs_transcript = ft_partial lib sent recv (reveal sl) (reveal rl), obs_authority = authority,
      obs_commitments = map (HashCommitment \<circ> snd) (map (made_of lib keccak256 session sent recv) (enumerate 0 ordered)),
      obs_created_at = fixture_clock\<rparr>"

lemma built_observes:
  assumes laws: "fixture_laws lib kind added contents sent recv"
    and t: "tiles sl (length sent)" "tiles rl (length recv)" and m: "mset ordered = mset (wanted sl rl)"
  shows "observes dir (layout_of dir sl rl) (bytes_of dir sent recv)
      (built_session lib keccak256 session sent recv sl rl authority ordered)"
    and "sha256_hashes dir (built_session lib keccak256 session sent recv sl rl authority ordered)"
proof -
  let ?s = "built_session lib keccak256 session sent recv sl rl authority ordered"
  let ?t = "ft_partial lib sent recv (reveal sl) (reveal rl)"
  have p: "partial_shows sent (reveal sl) (sent_authed ?t) (sent_unsafe ?t) \<and>
      partial_shows recv (reveal rl) (received_authed ?t) (received_unsafe ?t)"
    using laws tiles_spans [OF t(1)] tiles_spans [OF t(2)] by (auto simp: fixture_laws_def Let_def)
  have "mset (map ph_idx (hashes_of dir (obs_commitments ?s))) = mset (map (\<lambda>r. [r]) (commit (layout_of dir sl rl)))"
    using made_idx [OF m] by (simp add: built_session_def)
  with p show "observes dir (layout_of dir sl rl) (bytes_of dir sent recv) ?s"
    by (cases dir) (auto simp: observes_def Let_def partial_shows_def built_session_def authed_of_def unsafe_of_def
        layout_of_def bytes_of_def list_all_iff)
  have "\<forall>m b. length (ft_hash_prefixed lib m b) = 32" using laws by (simp add: fixture_laws_def)
  moreover have "\<exists>e. h = snd (made_of lib keccak256 session sent recv e)" if "h \<in> set (hashes_of dir (obs_commitments ?s))" for h
    using that by (simp only: built_session_def observed_session.simps hashes_of_made)
      (auto simp del: split_paired_Ex split_paired_All)
  ultimately show "sha256_hashes dir ?s" by (force simp: sha256_hashes_def list_all_iff)
qed

lemma build_succeeds:
  assumes laws: "fixture_laws lib kind added contents sent recv"
    and t: "tiles sl (length sent)" "tiles rl (length recv)" and len: "length sent < 2 ^ 32" "length recv < 2 ^ 32"
    and some: "reveal sl \<noteq> [] \<or> reveal rl \<noteq> []"
  shows "\<exists>ordered. mset ordered = mset (wanted sl rl) \<and>
    fixture_build lib keccak256 session sent recv sl rl authority =
      Some \<lparr>fr_data = record_of keccak256 (built_session lib keccak256 session sent recv sl rl authority ordered),
            fr_openings = map fst (map (made_of lib keccak256 session sent recv) (enumerate 0 ordered))\<rparr>"
proof -
  obtain cfg where cfg: "transcript_commit_config (ft_builder lib) (ft_new lib) (commit sl) (commit rl) = Inr cfg"
      "mset (ft_iter_hash lib cfg) = mset (wanted sl rl)"
    using commits_of [OF laws t] by blast
  let ?ordered = "sort_key (\<lambda>(dir, ranges). (dir = Received, sp_start (hd ranges))) (ft_iter_hash lib cfg)"
  let ?s = "built_session lib keccak256 session sent recv sl rl authority ?ordered"
  have m: "mset ?ordered = mset (wanted sl rl)" using cfg(2) by simp
  have "list_all (\<lambda>(dir, ranges). ranges \<noteq> []) (ft_iter_hash lib cfg)"
    using wanted_in_slice [OF t] cfg(2) by (auto simp: list_all_iff) (metis set_mset_mset not_Cons_self2)+
  then have ord: "order_commitments (ft_iter_hash lib cfg) = Some ?ordered" by (simp add: order_commitments_def)
  have rev: "reveal_all lib Sent (reveal sl) = Some ()" "reveal_all lib Received (reveal rl) = Some ()"
    using laws tiles_spans [OF t(1)] tiles_spans [OF t(2)]
    by (auto intro!: reveal_all_accepts simp: fixture_laws_def list_all_iff bytes_of_def split: direction.splits)
  have "direction_describable ?s dir" for dir
  proof -
    have "tiles (layout_of dir sl rl) (length (bytes_of dir sent recv))" "length (bytes_of dir sent recv) < 2 ^ 32"
      using t len by (cases dir; simp add: layout_of_def bytes_of_def)+
    from observed_block(1) [OF built_observes [OF laws t m] this]
    show ?thesis by (simp add: block_from_observed_eq)
  qed
  moreover have "len_sent (obs_transcript ?s) = length sent \<and> len_received (obs_transcript ?s) = length recv"
    using laws tiles_spans [OF t(1)] tiles_spans [OF t(2)] by (auto simp: fixture_laws_def Let_def built_session_def)
  ultimately have "session_describable ?s" using len by (simp add: session_describable_def)
  then have "from_observed keccak256 ?s = Inr (record_of keccak256 ?s)" by (simp add: from_observed_eq)
  moreover have "ft_prove_config lib (reveal sl) (reveal rl) = Inr ()" using laws some by (simp add: fixture_laws_def)
  ultimately show ?thesis
    using cfg(1) ord rev m made_all [OF t m, of lib keccak256 session]
    by (intro exI [of _ ?ordered]) (simp add: fixture_build_def ok_def built_session_def)
qed

section \<open>The record and its openings\<close>

text \<open>\<open>o'\<close> opens \<open>c\<close>: it names its range, and the hash of the bytes there with its blinder is the committed one.\<close>

definition opens :: "('c, 'cfg) fixture_tlsn \<Rightarrow> bytes \<Rightarrow> commitment_opening \<Rightarrow> range_commitment \<Rightarrow> bool" where
  "opens lib data o' c \<longleftrightarrow>
     op_ranges o' = [com_span c] \<and> in_slice data (com_span c) \<and>
     com_commitment c = ft_hash_prefixed lib (slice data (com_span c)) (op_blinder o')"

lemma layout_of_tiles:
  assumes "tiles sl (length sent)" and "tiles rl (length recv)" and "length sent < 2 ^ 32" and "length recv < 2 ^ 32"
  shows "tiles (layout_of dir sl rl) (length (bytes_of dir sent recv))" and "length (bytes_of dir sent recv) < 2 ^ 32"
  using assms by (cases dir; simp add: layout_of_def bytes_of_def)+

lemma built_opens:
  assumes laws: "fixture_laws lib kind added contents sent recv"
    and t: "tiles sl (length sent)" "tiles rl (length recv)" and len: "length sent < 2 ^ 32" "length recv < 2 ^ 32"
    and m: "mset ordered = mset (wanted sl rl)"
    and c: "c \<in> set (blk_commitments (block_of (built_session lib keccak256 session sent recv sl rl authority ordered) dir))"
  shows "\<exists>o' \<in> set (map fst (map (made_of lib keccak256 session sent recv) (enumerate 0 ordered))).
    op_direction o' = dir \<and> opens lib (bytes_of dir sent recv) o' c"
proof -
  let ?s = "built_session lib keccak256 session sent recv sl rl authority ordered"
  note o = built_observes [OF laws t m, where ?keccak256.0 = keccak256 and session = session and authority = authority and dir = dir] and l = layout_of_tiles [OF t len, of dir]
  from c obtain h where h: "h \<in> set (hashes_of dir (obs_commitments ?s))" "c = described h" by (auto simp: block_of_def)
  then obtain e where e: "e \<in> set (enumerate 0 ordered)" "h = snd (made_of lib keccak256 session sent recv e)" "fst (snd e) = dir"
    by (simp only: built_session_def observed_session.simps hashes_of_made)
      (auto simp del: split_paired_Ex split_paired_All)
  have "describable h" using observed_commitments(1) [OF o l] h(1) by (simp add: list_all_iff)
  then have span: "com_span c = hd (ph_idx h)" using h(2) com_span_described by simp
  obtain r where r: "snd (snd e) = [r]" "span_ok (length (bytes_of dir sent recv)) r"
    using wanted_in_slice [OF t, of "fst (snd e)" "snd (snd e)"] enumerate_wanted [OF m e(1)] e(3) by auto
  have "opens lib (bytes_of dir sent recv) (fst (made_of lib keccak256 session sent recv e)) c"
    using span r h(2) e(2,3) by (simp add: opens_def span_ok_def in_slice_def described_def)
  then show ?thesis using e by (force simp del: split_paired_Ex split_paired_All)
qed

text \<open>C20. The example builds a record the way a ceremony does, and it is complete: on layouts that
  tile their transcripts \<open>build\<close> does not panic, the revealed and committed ranges of each of
  its two blocks tile the direction, and for every commitment there is an opening among the
  session file's whose range and blinder hash to it.
\<close>

theorem fixture_record_opens:
  assumes laws: "fixture_laws lib kind added contents sent recv"
    and t: "tiles sl (length sent)" "tiles rl (length recv)" and len: "length sent < 2 ^ 32" "length recv < 2 ^ 32"
    and some: "reveal sl \<noteq> [] \<or> reveal rl \<noteq> []"
  shows "\<exists>rec. fixture_build lib keccak256 session sent recv sl rl authority = Some rec \<and>
    (\<forall>dir. tiles_from 0 (block_spans (block_in dir (fr_data rec))) (length (bytes_of dir sent recv)) \<and>
      (\<forall>c \<in> set (blk_commitments (block_in dir (fr_data rec))). \<exists>o' \<in> set (fr_openings rec).
         op_direction o' = dir \<and> opens lib (bytes_of dir sent recv) o' c))"
proof -
  obtain ordered where m: "mset ordered = mset (wanted sl rl)" and b: "fixture_build lib keccak256 session sent recv sl rl authority =
      Some \<lparr>fr_data = record_of keccak256 (built_session lib keccak256 session sent recv sl rl authority ordered),
            fr_openings = map fst (map (made_of lib keccak256 session sent recv) (enumerate 0 ordered))\<rparr>"
    using build_succeeds [OF laws t len some] by blast
  have "tiles_from 0 (block_spans (block_of (built_session lib keccak256 session sent recv sl rl authority ordered) dir))
      (length (bytes_of dir sent recv))" for dir
    by (rule observed_block(4) [OF built_observes [OF laws t m] layout_of_tiles [OF t len]])
  with b show ?thesis
    using built_opens [OF laws t len m] by (simp only: block_in_record_of fixture_record_of.simps ex_simps simp_thms option.inject ex_simps) blast
qed

text \<open>A library that keeps lists, for two transcripts of two bytes.\<close>

definition two_runs :: "span list \<Rightarrow> span list" where
  "two_runs rs =
     (if covered 0 rs then if covered 1 rs then [rng 0 2] else [rng 0 1]
      else if covered 1 rs then [rng 1 2] else [])"

definition shown :: "bytes \<Rightarrow> span list \<Rightarrow> bytes" where
  "shown data rs = map (\<lambda>i. if covered i rs then data ! i else 0) [0..<length data]"

definition sample_fixture :: "(list_builder, (direction \<times> span \<times> hash_alg_id) list) fixture_tlsn" where
  "sample_fixture =
     \<lparr>ft_builder = sample_builder, ft_new = (OtherAlg 2, []),
      ft_iter_hash = map (\<lambda>(d, r, _). (d, [r])),
      ft_reveal = (\<lambda>_ _. Inr ()),
      ft_prove_config = (\<lambda>rs ss. if rs = [] \<and> ss = [] then Inl [] else Inr ()),
      ft_partial = (\<lambda>sent recv rs ss. \<lparr>len_sent = length sent, len_received = length recv,
        sent_authed = two_runs rs, received_authed = two_runs ss, sent_unsafe = shown sent rs, received_unsafe = shown recv ss\<rparr>),
      ft_hash_prefixed = (\<lambda>m b. take 32 (m @ b @ replicate 32 0))\<rparr>"

lemma covered_rng [simp]: "covered i [] \<longleftrightarrow> False" "covered i (r # rs) \<longleftrightarrow> covers i r \<or> covered i rs"
  by (simp_all add: covered_def)

lemma two_runs_shows: "length data = 2 \<Longrightarrow> partial_shows data rs (two_runs rs) (shown data rs)"
  by (simp add: partial_shows_def two_runs_def shown_def in_slice_def covers_def numeral_2_eq_2)

lemma sample_fixture_laws: "fixture_laws sample_fixture fst snd (\<lambda>cs. cs) [1, 2] [3, 4]"
proof -
  have "builder_laws (ft_builder sample_fixture) fst snd (\<lambda>cs. cs)" using sample_builder_laws by (simp add: sample_fixture_def)
  moreover have "partial_shows [1, 2] rs (two_runs rs) (shown [1, 2] rs)" "partial_shows [3, 4] rs (two_runs rs) (shown [3, 4] rs)" for rs
    by (rule two_runs_shows; simp)+
  moreover have "\<exists>c'. cb_commit sample_builder dir r c = Inr c'" if "span_ok n r" for dir r c n
    using that by (cases c) (simp add: sample_builder_def span_ok_def)
  moreover have "\<exists>cfg. cb_build sample_builder c = Inr cfg" for c by (cases c) (simp add: sample_builder_def)
  moreover have "length (take 32 (m @ b @ replicate 32 0)) = 32" for m b :: bytes by simp
  ultimately show ?thesis by (simp add: fixture_laws_def sample_fixture_def Let_def del: length_take)
qed

theorem fixture_record_opens_witness:
  "\<exists>rec. fixture_build sample_fixture rev (ascii ''x'') [1, 2] [3, 4]
      \<lparr>reveal = [rng 0 1], commit = [rng 1 2]\<rparr> \<lparr>reveal = [rng 0 2], commit = []\<rparr> (ascii ''a'') = Some rec \<and>
    (\<forall>dir. tiles_from 0 (block_spans (block_in dir (fr_data rec))) (length (bytes_of dir [1, 2] [3, 4])) \<and>
      (\<forall>c \<in> set (blk_commitments (block_in dir (fr_data rec))). \<exists>o' \<in> set (fr_openings rec).
         op_direction o' = dir \<and> opens sample_fixture (bytes_of dir [1, 2] [3, 4]) o' c))"
  by (rule fixture_record_opens [OF sample_fixture_laws])
     (simp_all add: tiles_def spans_of_def)

end
