(* ===== verification/Head_Lines.thy ===== *)
theory Head_Lines
  imports Ranges
begin

text \<open>
  The searches of \<open>libid-transcript/src/ranges.rs\<close> over a response whose head is a list of
  lines: what a search for a header can find, line by line, and the ranges of a response that
  names no transfer encoding.
\<close>

section \<open>Searching a head line by line\<close>

text \<open>What a search for something that starts with CR can find: the end of a line, or the rest.\<close>

definition join_lines :: "bytes list \<Rightarrow> bytes \<Rightarrow> bytes" where
  "join_lines ls rest = concat (map (\<lambda>l. l @ crlf) ls) @ rest"

fun line_hits :: "nat \<Rightarrow> (bytes \<Rightarrow> bool) \<Rightarrow> bytes list \<Rightarrow> bytes \<Rightarrow> bool" where
  "line_hits k P [] rest \<longleftrightarrow> (\<exists>i. window_hit k P rest i)"
| "line_hits k P (l # ls) rest \<longleftrightarrow> P (take k (crlf @ join_lines ls rest)) \<or> line_hits k P ls rest"

definition starts_with_cr :: "(bytes \<Rightarrow> bool) \<Rightarrow> bool" where
  "starts_with_cr P \<longleftrightarrow> (\<forall>w. P w \<longrightarrow> (\<exists>t. w = 13 # t))"

lemma window_hit_cr: "window_hit k P xs j \<Longrightarrow> starts_with_cr P \<Longrightarrow> j < length xs \<and> xs ! j = 13"
proof -
  assume "window_hit k P xs j" "starts_with_cr P"
  then obtain t where "take k (drop j xs) = 13 # t" unfolding window_hit_def starts_with_cr_def by blast
  then have "drop j xs \<noteq> [] \<and> hd (drop j xs) = 13" by (cases k; cases "drop j xs") auto
  then show ?thesis by (metis drop_eq_Nil hd_drop_conv_nth not_le)
qed

lemma window_hit_lines:
  "window_hit k P (join_lines ls rest) j \<Longrightarrow> starts_with_cr P \<Longrightarrow> list_all (\<lambda>l. 13 \<notin> set l) ls \<Longrightarrow> line_hits k P ls rest"
proof (induction ls arbitrary: j)
  case Nil
  then show ?case by (auto simp: join_lines_def)
next
  case (Cons l ls)
  let ?xs = "l @ crlf @ join_lines ls rest"
  have xs: "join_lines (l # ls) rest = ?xs" by (simp add: join_lines_def)
  have j: "j < length ?xs" "?xs ! j = 13" using window_hit_cr [OF Cons.prems(1,2)] unfolding xs by auto
  have "\<not> j < length l" using j(2) Cons.prems(3) by (auto simp: nth_append) (metis nth_mem)
  moreover have "j \<noteq> length l + 1" using j(2) by (auto simp: nth_append crlf_def)
  ultimately consider "j = length l" | "length l + 2 \<le> j" by linarith
  then show ?case
  proof cases
    case 1
    with Cons.prems(1) show ?thesis unfolding xs by (simp add: window_hit_def)
  next
    case 2
    then have "window_hit k P (join_lines ls rest) (j - (length l + 2))"
      using Cons.prems(1) unfolding xs by (auto simp: window_hit_def)
    with Cons show ?thesis by auto
  qed
qed

lemma line_hits_line:
  "line_hits k P ls rest \<Longrightarrow>
   (\<exists>before l later. ls = before @ l # later \<and> P (take k (crlf @ join_lines later rest))) \<or> (\<exists>i. window_hit k P rest i)"
proof (induction ls)
  case (Cons l ls)
  then consider "P (take k (crlf @ join_lines ls rest))" | "line_hits k P ls rest" by auto
  then show ?case
  proof cases
    case 2
    with Cons.IH show ?thesis by (metis append_Cons)
  qed (metis append_Nil)
qed auto

lemma no_cr_no_hit: "13 \<notin> set xs \<Longrightarrow> starts_with_cr P \<Longrightarrow> \<not> window_hit k P xs j"
  using window_hit_cr [of k P xs j] by (auto simp: in_set_conv_nth)

lemma starts_with_cr_needle:
  "starts_with_cr (\<lambda>w. w = crlf @ n)" "starts_with_cr (\<lambda>w. eq_ignore_ascii_case w (crlf @ n))"
proof -
  have cr: "to_ascii_lowercase c = 13 \<Longrightarrow> c = 13" for c
    by (auto simp: to_ascii_lowercase_def word_unat_eq_iff word_le_nat_alt unat_word_ariths split: if_splits)
  show "starts_with_cr (\<lambda>w. w = crlf @ n)" by (simp add: starts_with_cr_def crlf_def)
  show "starts_with_cr (\<lambda>w. eq_ignore_ascii_case w (crlf @ n))"
    using cr by (auto simp: starts_with_cr_def crlf_def eq_ignore_ascii_case_def to_ascii_lowercase_def [of 13])
qed

text \<open>A JSON object: it starts with a brace and holds no carriage return.\<close>

definition plain_object :: "bytes \<Rightarrow> bool" where
  "plain_object body \<longleftrightarrow> take 1 body = [0x7B] \<and> 13 \<notin> set body"

lemmas [eval] = plain_object_def

lemma plain_object_Cons: "plain_object body \<Longrightarrow> \<exists>rest. body = 0x7B # rest \<and> 13 \<notin> set rest"
  by (cases body) (auto simp: plain_object_def)

fun line_end_hits :: "nat \<Rightarrow> (bytes \<Rightarrow> bool) \<Rightarrow> bytes list \<Rightarrow> bytes \<Rightarrow> bool" where
  "line_end_hits k P [] rest \<longleftrightarrow> False"
| "line_end_hits k P (l # ls) rest \<longleftrightarrow> P (take k (crlf @ join_lines ls rest)) \<or> line_end_hits k P ls rest"

lemma line_hits_plain:
  "13 \<notin> set rest \<Longrightarrow> starts_with_cr P \<Longrightarrow> line_hits k P ls rest = line_end_hits k P ls rest"
  by (induction ls) (simp_all add: no_cr_no_hit)

lemma no_encoding_in_lines:
  assumes "plain_object raw" and "list_all (\<lambda>l. 13 \<notin> set l) ls"
    and quiet: "\<not> line_end_hits 21 (\<lambda>w. eq_ignore_ascii_case w (crlf @ ascii ''Transfer-Encoding: '')) ls raw"
  shows "find_header_range (join_lines ls raw) (ascii ''Transfer-Encoding'') = None"
proof -
  have n: "crlf @ ascii ''Transfer-Encoding'' @ ascii '': '' = crlf @ ascii ''Transfer-Encoding: ''"
    by (simp add: ascii_def)
  have "windows_position 21 (\<lambda>w. eq_ignore_ascii_case w (crlf @ ascii ''Transfer-Encoding: '')) (join_lines ls raw) = None"
  proof (rule ccontr)
    assume "windows_position 21 (\<lambda>w. eq_ignore_ascii_case w (crlf @ ascii ''Transfer-Encoding: '')) (join_lines ls raw) \<noteq> None"
    then obtain j where "window_hit 21 (\<lambda>w. eq_ignore_ascii_case w (crlf @ ascii ''Transfer-Encoding: '')) (join_lines ls raw) j"
      using win.search_hit by blast
    from window_hit_lines [OF this starts_with_cr_needle(2) assms(2)] quiet show False
      using assms(1) by (simp add: plain_object_def line_hits_plain starts_with_cr_needle(2))
  qed
  then show ?thesis by (simp add: find_header_range_def n)
qed

section \<open>Responses without chunking\<close>

text \<open>A response that names no transfer encoding is read where it stands.\<close>

lemma plain_response:
  assumes te: "find_header_range (head @ raw) (ascii ''Transfer-Encoding'') = None"
    and body: "find_response_body_range (head @ raw) = Some (rng (length head) (length head + length raw))"
    and ok: "slice_ok (head @ raw)"
  shows "in_response pcs (head @ raw) field = map_option (shift_member (length head)) (in_body raw field)"
    and "compute_id_snippet_range pcs (head @ raw) field False =
           map_option (shift (length head)) (find_json_bare_snippet_range raw field)"
proof -
  have raw: "slice (head @ raw) (rng (length head) (length head + length raw)) = raw" by (simp add: slice_def)
  have got: "(extract_response_body pcs (head @ raw) :: unit error + bytes) = Inr raw"
    using te body raw by (simp add: extract_response_body_def extract_header_def Let_def)
  have add: "checked_add (length head) n = Some (length head + n)" if "n \<le> length raw" for n
    using that by (intro checked_add_slice [OF ok]) simp
  show "in_response pcs (head @ raw) field = map_option (shift_member (length head)) (in_body raw field)"
  proof (cases "in_body raw field")
    case (Some m)
    note b = in_body_brackets [OF Some]
    then have le: "sp_start (member_rng m) \<le> length raw" "sp_end (member_rng m) \<le> length raw"
        "sp_start (value_rng m) \<le> length raw" "sp_end (value_rng m) \<le> length raw"
      by (auto simp: in_slice_def)
    show ?thesis
      using Some b(4) le add by (simp add: in_response_def body got raw Let_def ok_def get_range_def
        require_contiguous_def shift_member_def shift_def)
  qed (simp add: in_response_def body got raw Let_def ok_def)
  show "compute_id_snippet_range pcs (head @ raw) field False =
      map_option (shift (length head)) (find_json_bare_snippet_range raw field)"
  proof (cases "find_json_bare_snippet_range raw field")
    case (Some r)
    then have "in_slice raw r" by (auto elim!: bare_Some simp: bare_slices)
    then show ?thesis
      using Some add by (simp add: compute_id_snippet_range_def body got raw Let_def ok_def
        get_range_def require_contiguous_def shift_def in_slice_def)
  qed (simp add: compute_id_snippet_range_def body got raw Let_def ok_def)
qed

end
