(* ===== verification/Fixture_Exchange.thy ===== *)
theory Fixture_Exchange
  imports Head_Lines Session_Parts Form_Url
begin

text \<open>
  \<open>find\<close>, \<open>declared_length\<close>, \<open>exchange\<close> and \<open>answer\<close> of \<open>libid-tlsn/examples/ceremony_fixtures.rs\<close>: the
  scripted platform that reads one request from an in-memory pipe. What \<open>hyper\<close> puts on the
  wire, and how the pipe cuts it into reads, is an argument. Lemmas: the server stops at the
  end of the request however it is cut, and an answer's body is what \<open>libid-transcript\<close> reads.
\<close>

section \<open>The declared length\<close>

definition find_bytes :: "bytes \<Rightarrow> bytes \<Rightarrow> nat option" where
  "find_bytes haystack needle = windows_position (length needle) (\<lambda>w. w = needle) haystack"

text \<open>\<open>str::parse::<usize>\<close>: an optional plus sign and at least one decimal digit, within \<open>usize\<close>.\<close>

fun radix_10 :: "bytes \<Rightarrow> nat \<Rightarrow> nat option" where
  "radix_10 [] acc = Some acc"
| "radix_10 (c # cs) acc =
     (if is_ascii_digit c
      then let n = acc * 10 + (unat c - 0x30) in if n \<le> usize_max then radix_10 cs n else None
      else None)"

definition parse_usize :: "bytes \<Rightarrow> nat option" where
  "parse_usize s =
     (case s of
        [] \<Rightarrow> None
      | [c] \<Rightarrow> if c = 0x2B \<or> c = 0x2D then None else radix_10 s 0
      | c # cs \<Rightarrow> if c = 0x2B then radix_10 cs 0 else radix_10 s 0)"

text \<open>\<open>None\<close> is the panic of an \<open>unwrap\<close>. The slices are in bounds behind a match.\<close>

definition declared_length :: "bytes \<Rightarrow> nat option" where
  "declared_length head =
     (let lower = map to_ascii_lowercase head; name = crlf @ ascii ''content-length:'' in
      case find_bytes lower name of
        None \<Rightarrow> Some 0
      | Some pos \<Rightarrow>
          let rest = drop (pos + 17) lower;
              end_at = (case find_bytes rest crlf of Some e \<Rightarrow> e | None \<Rightarrow> length rest);
              value = take end_at rest in
          if from_utf8_ok value then parse_usize (trim value) else None)"

section \<open>The server\<close>

text \<open>
  The reads in order; the end of the list, like an empty read, is the end of the stream. The
  sum that is compared overflows only for a declared length no transcript has.
\<close>

fun serve :: "bytes list \<Rightarrow> bytes \<Rightarrow> bytes option" where
  "serve [] sent = Some sent"
| "serve (buf # bufs) sent =
     (if buf = [] then Some sent
      else let sent = sent @ buf in
        case find_bytes sent head_marker of
          None \<Rightarrow> serve bufs sent
        | Some pos \<Rightarrow>
            (case Option.bind (declared_length (take pos sent)) (checked_add (pos + 4)) of
               None \<Rightarrow> None
             | Some stop \<Rightarrow> if length sent \<ge> stop then Some sent else serve bufs sent))"

text \<open>The rewrite of the request-target, which panics where the session driver reports an error.\<close>

definition fixture_origin_form :: "('u, 'p) uri_ops \<Rightarrow> ('u, 'rest) http_request \<Rightarrow> ('u, 'rest) http_request option" where
  "fixture_origin_form ops request =
     (case uri_path_and_query ops (req_uri request) of
        Some path \<Rightarrow>
          (case uri_from_path ops path of Inl _ \<Rightarrow> None | Inr target \<Rightarrow> Some (request\<lparr>req_uri := target\<rparr>))
      | None \<Rightarrow> Some (request\<lparr>req_uri := uri_default ops\<rparr>))"

text \<open>It is the rewrite the prover applies before sending.\<close>

lemma fixture_origin_form_matches: "fixture_origin_form ops request = ok (origin_form ops request)"
  by (simp add: fixture_origin_form_def origin_form_def ok_def mpc_err_def split: option.splits sum.splits)

text \<open>
  \<open>client\<close> is \<open>hyper\<close>'s: the reads the server gets for a request, and whether the answer had
  status 200 and every call succeeded.
\<close>

definition fixture_exchange ::
  "('u, 'p) uri_ops \<Rightarrow> (('u, 'rest) http_request \<Rightarrow> bytes list) \<Rightarrow> (('u, 'rest) http_request \<Rightarrow> bytes \<Rightarrow> bool) \<Rightarrow>
   ('u, 'rest) http_request \<Rightarrow> bytes \<Rightarrow> bytes option" where
  "fixture_exchange ops client accepts request response =
     (case fixture_origin_form ops request of
        None \<Rightarrow> None
      | Some request' \<Rightarrow> if accepts request' response then serve (client request') [] else None)"

section \<open>The answer\<close>

definition answer :: "bytes \<Rightarrow> bytes \<Rightarrow> bytes" where
  "answer content_type body =
     ascii ''HTTP/1.1 200 OK'' @ crlf @ ascii ''content-type: '' @ content_type @ crlf @
     ascii ''content-length: '' @ ascii (decimal (length body)) @ crlf @ ascii ''connection: close'' @ crlf @ crlf @ body"

lemmas [eval] = find_bytes_def parse_usize_def declared_length_def answer_def

section \<open>Where the head ends\<close>

text \<open>A request: a head that does not hold the boundary, the boundary, and a body as long as declared.\<close>

definition framed_request :: "bytes \<Rightarrow> bytes \<Rightarrow> bool" where
  "framed_request head body \<longleftrightarrow>
     (\<forall>j < length head. \<not> occurs_at head_marker (head @ head_marker @ body) j) \<and>
     declared_length head = Some (length body) \<and> slice_ok (head @ head_marker @ body)"

lemma occurs_in_prefix: "occurs_at n p j \<Longrightarrow> occurs_at n (p @ q) j"
  by (auto simp: occurs_at_def)

lemma length_head_marker [simp]: "length head_marker = 4"
  by (simp add: head_marker_def)

lemma find_in_prefix:
  assumes f: "framed_request head body" and p: "p @ q = head @ head_marker @ body"
  shows "find_bytes p head_marker = (if length p < length head + 4 then None else Some (length head))"
proof -
  have none: "\<not> occurs_at head_marker p j" if "j < length head" for j
    using f occurs_in_prefix [of head_marker p j q] that by (auto simp: framed_request_def p)
  show ?thesis
  proof (cases "length p < length head + 4")
    case True
    have "\<not> occurs_at head_marker p j" for j
      using none [of j] True by (cases "j < length head") (auto simp: occurs_at_def)
    then have "find_bytes p head_marker = None"
      by (simp add: find_bytes_def win.search_None_iff del: length_head_marker)
    with True show ?thesis by simp
  next
    case False
    then have "take (length head + 4) p = head @ head_marker"
      using arg_cong [OF p, of "take (length head + 4)"] by simp
    then have "take 4 (drop (length head) p) = head_marker"
      by (metis append_eq_conv_conj take_drop add.commute)
    then have "occurs_at head_marker p (length head)" using False by (simp add: occurs_at_def)
    then have "find_bytes p head_marker = Some (length head)"
      using none by (simp add: find_bytes_def needle_search_Some del: length_head_marker)
    with False show ?thesis by simp
  qed
qed

lemma stop_at_length:
  assumes "framed_request head body" and "p @ q = head @ head_marker @ body" and "length head + 4 \<le> length p"
  shows "Option.bind (declared_length (take (length head) p)) (checked_add (length head + 4)) =
    Some (length (head @ head_marker @ body))"
proof -
  have "take (length head) p = head" using arg_cong [OF assms(2), of "take (length head)"] assms(3) by simp
  moreover have "length head + 4 + length body \<le> usize_max"
    using assms(1) isize_lt_usize by (simp add: framed_request_def)
  ultimately show ?thesis using assms(1) by (simp add: framed_request_def checked_add_ok)
qed

text \<open>One more read of a request that is not complete yet.\<close>

lemma serve_read:
  assumes "framed_request head body" and "(sent @ buf) @ q = head @ head_marker @ body" and "buf \<noteq> []"
  shows "serve (buf # bufs) sent = (if q = [] then Some (sent @ buf) else serve bufs (sent @ buf))"
proof (cases "length (sent @ buf) < length head + 4")
  case True
  then have "q \<noteq> []" using arg_cong [OF assms(2), of length] by auto
  with True assms(3) find_in_prefix [OF assms(1,2)] show ?thesis by simp
next
  case False
  have "length (sent @ buf) + length q = length (head @ head_marker @ body)"
    using arg_cong [OF assms(2), of length] by simp
  with False assms(3) find_in_prefix [OF assms(1,2)] stop_at_length [OF assms(1,2)] show ?thesis
    by (cases q) simp_all
qed

lemma serve_complete:
  "framed_request head body \<Longrightarrow> sent @ concat bufs = head @ head_marker @ body \<Longrightarrow> [] \<notin> set bufs \<Longrightarrow>
   serve (bufs @ later) sent = (if bufs = [] then serve later sent else Some (head @ head_marker @ body))"
proof (induction bufs arbitrary: sent)
  case (Cons buf bufs)
  then have eq: "(sent @ buf) @ concat bufs = head @ head_marker @ body" "buf \<noteq> []" by auto
  have "concat bufs = [] \<longleftrightarrow> bufs = []" using Cons.prems(3) by (cases bufs) auto
  with Cons eq serve_read [OF Cons.prems(1) eq] show ?case by (auto simp del: serve.simps)
qed simp

lemma serve_waits:
  "framed_request head body \<Longrightarrow> (sent @ concat bufs) @ q = head @ head_marker @ body \<Longrightarrow> q \<noteq> [] \<Longrightarrow> [] \<notin> set bufs \<Longrightarrow>
   serve (bufs @ later) sent = serve later (sent @ concat bufs)"
proof (induction bufs arbitrary: sent)
  case (Cons buf bufs)
  then have eq: "(sent @ buf) @ (concat bufs @ q) = head @ head_marker @ body" "buf \<noteq> []" by auto
  with Cons serve_read [OF Cons.prems(1) eq] show ?case by (auto simp del: serve.simps)
qed simp

section \<open>The answers of the server, line by line\<close>

lemma decimal_no_cr: "13 \<notin> set (ascii (decimal n))"
proof (induction n rule: decimal.induct)
  case (1 n)
  have "of_char (char_of (48 + m) :: char) \<noteq> (13 :: byte)" if "m < 10" for m :: nat
  proof -
    have "(of_char (char_of (48 + m) :: char) :: byte) = of_nat (of_char (char_of (48 + m) :: char))"
      by (rule of_nat_of_char [symmetric])
    then have "unat (of_char (char_of (48 + m) :: char) :: byte) = (48 + m) mod 256 mod 256"
      by (simp only: of_char_of unat_of_nat) simp
    then show ?thesis using that by auto
  qed
  with 1 show ?case by (cases "n < 10") (auto simp: decimal.simps [of n] ascii_def)
qed

definition answer_lines :: "bytes \<Rightarrow> bytes \<Rightarrow> bytes list" where
  "answer_lines content_type body = [ascii ''HTTP/1.1 200 OK'', ascii ''content-type: '' @ content_type,
     ascii ''content-length: '' @ ascii (decimal (length body)), ascii ''connection: close'']"

lemma answer_joined:
  "answer content_type body = join_lines (answer_lines content_type body) (crlf @ body)"
  "answer content_type body = join_lines (answer_lines content_type body @ [[]]) body"
  by (simp_all add: answer_def join_lines_def answer_lines_def)

lemma answer_lines_no_cr: "13 \<notin> set content_type \<Longrightarrow> list_all (\<lambda>l. 13 \<notin> set l) (answer_lines content_type body)"
  using decimal_no_cr by (simp add: answer_lines_def ascii_def)

definition answer_head :: "bytes \<Rightarrow> bytes \<Rightarrow> bytes" where
  "answer_head content_type body =
     ascii ''HTTP/1.1 200 OK'' @ crlf @ ascii ''content-type: '' @ content_type @ crlf @
     ascii ''content-length: '' @ ascii (decimal (length body)) @ crlf @ ascii ''connection: close''"

lemma answer_cut: "answer content_type body = answer_head content_type body @ head_marker @ body"
  by (simp add: answer_def answer_head_def head_marker_def)

lemma take_drop_prefix: "j + k \<le> length xs \<Longrightarrow> take k (drop j (xs @ ys)) = take k (drop j xs)"
  by simp

lemma answer_first_marker:
  assumes "13 \<notin> set content_type" and "j < length (answer_head content_type body)"
  shows "\<not> occurs_at head_marker (answer content_type body) j"
proof
  let ?h = "answer_head content_type body"
  assume "occurs_at head_marker (answer content_type body) j"
  then have "take 4 (drop j (answer content_type body)) = head_marker" by (simp add: occurs_at_def)
  moreover have "answer content_type body = (?h @ [13, 10, 13]) @ 10 # body"
    by (simp add: answer_cut head_marker_def crlf_def)
  moreover have "take 4 (drop j ((?h @ [13, 10, 13]) @ 10 # body)) = take 4 (drop j (?h @ [13, 10, 13]))"
    by (rule take_drop_prefix) (use assms(2) in simp)
  ultimately have "occurs_at head_marker (?h @ [13, 10, 13]) j" using assms(2) by (simp add: occurs_at_def)
  moreover have "?h @ [13, 10, 13] = join_lines (answer_lines content_type body) [13]"
    by (simp add: join_lines_def answer_lines_def answer_head_def crlf_def)
  ultimately have hit: "window_hit 4 (\<lambda>w. w = crlf @ crlf) (join_lines (answer_lines content_type body) [13]) j"
    by (simp add: occurs_at_def window_hit_def head_marker_def [symmetric])
  have "\<not> window_hit 4 (\<lambda>w. w = crlf @ crlf) [13] i" for i by (simp add: window_hit_def)
  with window_hit_lines [OF hit starts_with_cr_needle(1) answer_lines_no_cr [OF assms(1)]] show False
    unfolding answer_lines_def line_hits.simps by (auto simp: join_lines_def ascii_def crlf_def)
qed

lemma answer_body_range:
  assumes "13 \<notin> set content_type" and "slice_ok (answer content_type body)"
  shows "find_response_body_range (answer content_type body) =
    Some (rng (length (answer_head content_type body) + 4) (length (answer content_type body)))"
proof -
  have "occurs_at head_marker (answer content_type body) (length (answer_head content_type body))"
    by (simp add: answer_cut occurs_at_def)
  then have "windows_position (length head_marker) (\<lambda>w. w = head_marker) (answer content_type body) =
      Some (length (answer_head content_type body))"
    using answer_first_marker [OF assms(1)] unfolding needle_search_Some by blast
  moreover have "checked_add (length (answer_head content_type body)) 4 = Some (length (answer_head content_type body) + 4)"
    using assms(2) isize_lt_usize by (intro checked_add_ok) (simp add: answer_cut)
  ultimately show ?thesis by (simp add: find_response_body_range_def)
qed

lemma transfer_encoding_line:
  "eq_ignore_ascii_case (take (length (crlf @ ascii ''Transfer-Encoding'' @ s)) (crlf @ l)) (crlf @ ascii ''Transfer-Encoding'' @ s) \<Longrightarrow>
   \<exists>c t. l = c # t \<and> to_ascii_lowercase c = 0x74"
  by (cases l) (auto simp: eq_ignore_ascii_case_def crlf_def ascii_def to_ascii_lowercase_def)

lemma answer_not_chunked:
  assumes "13 \<notin> set content_type" and "plain_object body"
  shows "extract_header (answer content_type body) (ascii ''Transfer-Encoding'') = None"
proof -
  let ?n = "crlf @ ascii ''Transfer-Encoding'' @ ascii '': ''"
  have body: "\<exists>t. body = 0x7B # t" using assms(2) by (cases body) (auto simp: plain_object_def)
  have "\<not> window_hit (length ?n) (\<lambda>w. eq_ignore_ascii_case w ?n) (answer content_type body) j" for j
  proof
    assume hit: "window_hit (length ?n) (\<lambda>w. eq_ignore_ascii_case w ?n) (answer content_type body) j"
    have "list_all (\<lambda>l. 13 \<notin> set l) (answer_lines content_type body @ [[]])"
      using answer_lines_no_cr [OF assms(1)] by simp
    from window_hit_lines [OF hit [unfolded answer_joined(2)] starts_with_cr_needle(2) this]
    have "line_hits (length ?n) (\<lambda>w. eq_ignore_ascii_case w ?n) (answer_lines content_type body @ [[]]) body" .
    from line_hits_line [OF this] no_cr_no_hit [of body, OF _ starts_with_cr_needle(2)] assms(2)
    obtain before l later where l: "answer_lines content_type body @ [[]] = before @ l # later"
        and te: "eq_ignore_ascii_case (take (length ?n) (crlf @ join_lines later body)) ?n"
      unfolding plain_object_def by blast
    from transfer_encoding_line [OF te] obtain c t where "join_lines later body = c # t" "to_ascii_lowercase c = 0x74" by blast
    then show False using l body
      by (auto simp: answer_lines_def join_lines_def ascii_def crlf_def to_ascii_lowercase_def Cons_eq_append_conv)
  qed
  then have "windows_position (length ?n) (\<lambda>w. eq_ignore_ascii_case w ?n) (answer content_type body) = None"
    unfolding win.search_None_iff [OF TrueI] by blast
  then show ?thesis by (simp add: extract_header_def find_header_range_def Let_def)
qed

section \<open>Properties\<close>

text \<open>C27. The scripted platform reads the whole request and nothing less, however the pipe cuts it: for
  every cut of a framed request into reads it stops exactly with the last one, at every
  earlier read it waits for more, and what follows on the pipe is not read.\<close>
theorem server_reads_one_request:
  assumes "framed_request head body" and "concat bufs = head @ head_marker @ body" and "[] \<notin> set bufs"
    and "bufs = before @ buf # rest"
  shows "serve (bufs @ later) [] = Some (head @ head_marker @ body) \<and>
    serve (before @ later) [] = serve later (concat before)"
proof -
  have "bufs \<noteq> []" using assms(4) by simp
  then have "serve (bufs @ later) [] = Some (head @ head_marker @ body)"
    using serve_complete [OF assms(1), of "[]" bufs later] assms(2,3) by simp
  moreover have "serve (before @ later) [] = serve later ([] @ concat before)"
    by (rule serve_waits [OF assms(1), where q = "buf @ concat rest"]) (use assms in auto)
  ultimately show ?thesis by simp
qed

theorem server_reads_one_request_witness:
  "serve [ascii ''GET'' @ crlf @ ascii ''Content-Len'', ascii ''gth: 3'' @ crlf, crlf @ ascii ''ab'', ascii ''c'', ascii ''more''] [] =
     Some (ascii ''GET'' @ crlf @ ascii ''Content-Length: 3'' @ crlf @ crlf @ ascii ''abc'')"
proof -
  let ?head = "ascii ''GET'' @ crlf @ ascii ''Content-Length: 3''"
  let ?bufs = "[ascii ''GET'' @ crlf @ ascii ''Content-Len'', ascii ''gth: 3'' @ crlf, crlf @ ascii ''ab'', ascii ''c'']"
  have "windows_position (length head_marker) (\<lambda>w. w = head_marker) (?head @ head_marker @ ascii ''abc'') = Some (length ?head)"
    by (simp add: eval head_marker_def windows_position.simps)
  then have "\<not> occurs_at head_marker (?head @ head_marker @ ascii ''abc'') j" if "j < length ?head" for j
    using that unfolding needle_search_Some by blast
  moreover have "declared_length ?head = Some (length (ascii ''abc''))"
    by (simp add: eval windows_position.simps trim_start.simps trim_end.simps trim_def leading_ws_def trailing_ws_def whitespace_chars_def)
  ultimately have "framed_request ?head (ascii ''abc'')" by (simp add: framed_request_def isize_max_def)
  from server_reads_one_request [OF this, of ?bufs "[]" _ _ "[ascii ''more'']"] show ?thesis
    by (simp add: head_marker_def ascii_def crlf_def del: serve.simps)
qed

text \<open>What the platform answers is what the transcript functions read: for every JSON object without
  a carriage return, the response's body range holds the object, and the body extracted from
  the response is the object, never decoded as chunks.\<close>
theorem answer_body_is_read:
  assumes "13 \<notin> set content_type" and "plain_object body" and "slice_ok (answer content_type body)"
  shows "extract_response_body pcs (answer content_type body) = Inr body \<and>
    map_option (slice (answer content_type body)) (find_response_body_range (answer content_type body)) = Some body"
proof -
  have "slice (answer content_type body) (rng (length (answer_head content_type body) + 4) (length (answer content_type body))) = body"
    by (simp add: slice_suffix) (simp add: answer_cut head_marker_def crlf_def)
  then show ?thesis
    using answer_body_range [OF assms(1,3)] answer_not_chunked [OF assms(1,2)]
    by (simp add: extract_response_body_def Let_def)
qed

theorem answer_body_is_read_witness:
  "extract_response_body hex_chunk_size (answer (ascii ''application/json'') [0x7B, 0x7D]) = (Inr [0x7B, 0x7D] :: unit error + bytes)"
proof -
  have "decimal (Suc (Suc 0)) = ''2''" by (simp add: decimal.simps char_of_def bit_iff_odd)
  then have "slice_ok (answer (ascii ''application/json'') [0x7B, 0x7D])" by (simp add: answer_def isize_max_def)
  then show ?thesis
    by (intro conjunct1 [OF answer_body_is_read]) (simp_all add: plain_object_def ascii_def)
qed

end
