(* ===== verification/Test_Text.thy ===== *)
theory Test_Text
  imports Prelude
begin

text \<open>
  What the theories over the crates' own \<open>#[cfg(test)]\<close> modules share. A test is a definition
  of type \<open>bool\<close>: the conjunction of its assertions, where an \<open>unwrap\<close> of nothing and a slice
  past the end make it false, as the panic makes the test fail.
\<close>

section \<open>Literals\<close>

text \<open>
  The JSON of the tests, with a backquote for every double quote of the source literal: no
  literal of the tests holds a backquote.
\<close>

definition json_text :: "string \<Rightarrow> bytes" where
  "json_text s = map (\<lambda>b. if b = 0x60 then 0x22 else b) (ascii s)"

definition lf :: bytes where
  "lf = [0x0A]"

section \<open>Assertions\<close>

text \<open>\<open>assert!(matches!(x.unwrap(), ...))\<close> and an assertion on the value of an unwrapped result.\<close>

definition unwrapped :: "'a option \<Rightarrow> ('a \<Rightarrow> bool) \<Rightarrow> bool" where
  "unwrapped r P = (case r of None \<Rightarrow> False | Some x \<Rightarrow> P x)"

definition unwrapped_ok :: "'e + 'a \<Rightarrow> ('a \<Rightarrow> bool) \<Rightarrow> bool" where
  "unwrapped_ok r P = (case r of Inl _ \<Rightarrow> False | Inr x \<Rightarrow> P x)"

text \<open>\<open>assert_eq!(&xs[range], text)\<close>.\<close>

definition reads :: "'a list \<Rightarrow> span \<Rightarrow> 'a list \<Rightarrow> bool" where
  "reads xs r ys \<longleftrightarrow> get_range xs r = Some ys"

text \<open>An assertion on \<open>xs[i]\<close>.\<close>

definition at_index :: "'a list \<Rightarrow> nat \<Rightarrow> ('a \<Rightarrow> bool) \<Rightarrow> bool" where
  "at_index xs i P \<longleftrightarrow> i < length xs \<and> P (xs ! i)"

text \<open>\<open>xs.starts_with(ys)\<close> and \<open>xs.ends_with(ys)\<close>.\<close>

definition starts_with :: "'a list \<Rightarrow> 'a list \<Rightarrow> bool" where
  "starts_with xs ys \<longleftrightarrow> take (length ys) xs = ys"

definition ends_with :: "'a list \<Rightarrow> 'a list \<Rightarrow> bool" where
  "ends_with xs ys \<longleftrightarrow> length ys \<le> length xs \<and> drop (length xs - length ys) xs = ys"

text \<open>\<open>xs.windows(n).any(|w| w == ys)\<close>, for the \<open>n\<close> that is the length of \<open>ys\<close>.\<close>

definition windows_any :: "'a list \<Rightarrow> 'a list \<Rightarrow> bool" where
  "windows_any ys xs \<longleftrightarrow> windows_position (length ys) (\<lambda>w. w = ys) xs \<noteq> None"

text \<open>\<open>xs.windows(n).filter(|w| w == ys).count()\<close>.\<close>

fun windows_count :: "'a list \<Rightarrow> 'a list \<Rightarrow> nat" where
  "windows_count ys [] = (if ys = [] then 1 else 0)"
| "windows_count ys (x # xs) = (if take (length ys) (x # xs) = ys then 1 else 0) + windows_count ys xs"

lemmas [eval] = json_text_def lf_def unwrapped_def unwrapped_ok_def reads_def windows_any_def at_index_def starts_with_def
  ends_with_def

lemma unwrapped_iff: "unwrapped r P \<longleftrightarrow> (\<exists>x. r = Some x \<and> P x)"
  by (simp add: unwrapped_def split: option.split)

lemma unwrapped_ok_iff: "unwrapped_ok r P \<longleftrightarrow> (\<exists>x. r = Inr x \<and> P x)"
  by (simp add: unwrapped_ok_def split: sum.split)

lemma windows_any_iff: "windows_any ys xs \<longleftrightarrow> (\<exists>i. occurs_at ys xs i)"
  by (simp add: windows_any_def needle_search)

end
