(* ===== verification/Ranges_Tests.thy ===== *)
theory Ranges_Tests
  imports One_Chunk Head_Lines Test_Text
begin

text \<open>
  The tests of \<open>libid-transcript/src/ranges.rs\<close>, over the model, in the order of the module.
  Where a response is chunked the chunk-size reader stays an argument, with its documented
  behaviour as the hypothesis. What the tests of a split member sample is a theorem for
  every member and every split.
\<close>

section \<open>Chunked bodies\<close>

definition chunked_head :: bytes where
  "chunked_head = ascii ''HTTP/1.1 200 OK'' @ crlf @ ascii ''Transfer-Encoding: chunked'' @ crlf @ crlf"

definition malformed_chunk_recv :: bytes where
  "malformed_chunk_recv = chunked_head @ ascii ''5'' @ crlf @ ascii ''hello'' @ crlf @
     ascii ''zz'' @ crlf @ ascii ''world'' @ crlf @ ascii ''0'' @ crlf @ crlf"

definition a_malformed_chunk_size_is_an_error_not_a_short_body :: "chunk_size_parser \<Rightarrow> bool" where
  "a_malformed_chunk_size_is_an_error_not_a_short_body pcs \<longleftrightarrow>
     isl (extract_response_body pcs malformed_chunk_recv :: unit error + bytes)"

definition a_truncated_chunk_is_an_error_too :: "chunk_size_parser \<Rightarrow> bool" where
  "a_truncated_chunk_is_an_error_too pcs \<longleftrightarrow>
     isl (extract_response_body pcs (chunked_head @ ascii ''14'' @ crlf @ ascii ''hello'') :: unit error + bytes)"

definition extract_response_body_decodes_chunked :: "chunk_size_parser \<Rightarrow> bool" where
  "extract_response_body_decodes_chunked pcs \<longleftrightarrow>
     (let recv = chunked_head @ ascii ''7'' @ crlf @ json_text ''{`a`:1,'' @ crlf @
                 ascii ''8'' @ crlf @ json_text ''`b`:`x`}'' @ crlf @ ascii ''0'' @ crlf @ crlf in
      (extract_response_body pcs recv :: unit error + bytes) = Inr (json_text ''{`a`:1,`b`:`x`}''))"

section \<open>Members of a body\<close>

definition find_json_snippet_range_simple :: bool where
  "find_json_snippet_range_simple \<longleftrightarrow>
     (let body = json_text ''{`login`:`octocat`,`id`:123}'' in
      unwrapped (find_json_snippet_range body (ascii ''login'')) (\<lambda>r. reads body r (json_text ''`login`:`octocat`'')))"

definition find_json_snippet_range_nested :: bool where
  "find_json_snippet_range_nested \<longleftrightarrow>
     (let body = json_text ''{`user`:{`login`:`octocat`},`body`:`hello`}'' in
      unwrapped (find_json_snippet_range body (ascii ''login'')) (\<lambda>r. reads body r (json_text ''`login`:`octocat`'')))"

definition a_second_member_is_left_for_the_layout_to_commit :: bool where
  "a_second_member_is_left_for_the_layout_to_commit \<longleftrightarrow>
     (let body = json_text ''{`login`:`octocat`,`user`:{`login`:`impostor`}}'' in
      unwrapped (find_json_snippet_range body (ascii ''login'')) (\<lambda>r. reads body r (json_text ''`login`:`octocat`''))) \<and>
     (let bare = json_text ''{`id`:1,`user`:{`id`:2}}'' in
      unwrapped (find_json_bare_snippet_range bare (ascii ''id'')) (\<lambda>r. reads bare r (json_text ''`id`:1,'')))"

definition a_spaced_member_is_found_with_its_whitespace_inside :: bool where
  "a_spaced_member_is_found_with_its_whitespace_inside \<longleftrightarrow>
     (let body = ascii ''{'' @ lf @ json_text ''  `login` : `octocat`,'' @ lf @ json_text ''  `id`: 583231'' @ lf @ ascii ''}'' in
      unwrapped (find_json_snippet_range body (ascii ''login'')) (\<lambda>r. reads body r (json_text ''`login` : `octocat`'')) \<and>
      unwrapped (find_json_bare_snippet_range body (ascii ''id''))
        (\<lambda>r. reads body r (json_text ''`id`: 583231'' @ lf @ ascii ''}'')))"

definition a_key_that_is_only_a_value_is_passed_over :: bool where
  "a_key_that_is_only_a_value_is_passed_over \<longleftrightarrow>
     (let body = json_text ''{`name`:`login`,`login`:`octocat`}'' in
      unwrapped (find_json_snippet_range body (ascii ''login'')) (\<lambda>r. reads body r (json_text ''`login`:`octocat`'')))"

definition whitespace_inside_a_number_is_not_a_number :: bool where
  "whitespace_inside_a_number_is_not_a_number \<longleftrightarrow>
     find_json_bare_snippet_range (json_text ''{`id`:123 4}'') (ascii ''id'') = None"

definition ok_head :: bytes where
  "ok_head = ascii ''HTTP/1.1 200 OK'' @ crlf @ crlf"

text \<open>The body of the loop over the whitespace, and the loop.\<close>

definition whitespace_is_kept :: "chunk_size_parser \<Rightarrow> bytes \<Rightarrow> bool" where
  "whitespace_is_kept pcs ws \<longleftrightarrow>
     (let member = json_text ''`login`'' @ ws @ ascii '':'' @ ws @ json_text ''`octocat`'';
          ident = json_text ''`id`'' @ ws @ ascii '':'' @ ws @ ascii ''123'' @ ws @ ascii '','';
          recv = ok_head @ ascii ''{'' @ ident @ member @ ascii ''}'' in
      unwrapped (compute_field_snippet_range pcs recv (ascii ''login'')) (\<lambda>r. reads recv r member) \<and>
      unwrapped (compute_id_snippet_range pcs recv (ascii ''id'') False) (\<lambda>r. reads recv r ident))"

definition json_whitespace_runs :: "bytes list" where
  "json_whitespace_runs = [[0x20], [0x09], [0x0A], [0x0D], [0x20, 0x09, 0x0D, 0x0A]]"

definition every_json_whitespace_byte_is_kept_inside_the_member :: "chunk_size_parser \<Rightarrow> bool" where
  "every_json_whitespace_byte_is_kept_inside_the_member pcs \<longleftrightarrow>
     list_all (whitespace_is_kept pcs) json_whitespace_runs"

definition a_byte_json_does_not_call_whitespace_is_not_skipped :: bool where
  "a_byte_json_does_not_call_whitespace_is_not_skipped \<longleftrightarrow>
     list_all (\<lambda>ws. let body = json_text ''{`login`:'' @ ws @ json_text ''`octocat`,`id`:'' @ ws @ json_text ''123}'' in
        find_json_snippet_range body (ascii ''login'') = None \<and>
        find_json_bare_snippet_range body (ascii ''id'') = None) [[0x0B], [0x0C]]"

definition a_number_of_another_shape_is_not_a_number :: bool where
  "a_number_of_another_shape_is_not_a_number \<longleftrightarrow>
     list_all (\<lambda>value. find_json_bare_snippet_range (json_text ''{`id`: '' @ value @ ascii ''}'') (ascii ''id'') = None)
       [ascii ''1e3'', ascii ''1.5'']"

definition a_quoted_value_is_not_a_bare_number :: bool where
  "a_quoted_value_is_not_a_bare_number \<longleftrightarrow>
     find_json_bare_snippet_range (json_text ''{`login`:`octocat`,`id`:`7`,`x`:1}'') (ascii ''id'') = None"

definition a_leading_zero_is_refused_but_zero_itself_is_not :: bool where
  "a_leading_zero_is_refused_but_zero_itself_is_not \<longleftrightarrow>
     find_json_bare_snippet_range (json_text ''{`id`:0123,`x`:1}'') (ascii ''id'') = None \<and>
     (let zero = json_text ''{`id`:0,`x`:1}'' in
      unwrapped (find_json_bare_snippet_range zero (ascii ''id'')) (\<lambda>r. reads zero r (json_text ''`id`:0,'')))"

definition a_terminator_the_profile_does_not_fix_is_refused :: bool where
  "a_terminator_the_profile_does_not_fix_is_refused \<longleftrightarrow>
     find_json_bare_snippet_range (json_text ''{`a`:[1,`id`:7]}'') (ascii ''id'') = None \<and>
     find_json_bare_snippet_range (json_text ''{`id`:7'') (ascii ''id'') = None"

definition a_lookalike_key_does_not_match :: bool where
  "a_lookalike_key_does_not_match \<longleftrightarrow>
     (let body = json_text ''{`node_id`:`MDQ=`,`id`:123}'' in
      unwrapped (find_json_bare_snippet_range body (ascii ''id'')) (\<lambda>r. reads body r (json_text ''`id`:123}'')))"

definition find_json_snippet_range_email :: bool where
  "find_json_snippet_range_email \<longleftrightarrow>
     (let body = json_text ''{`email`:`alice@example.com`,`verified`:true}'' in
      unwrapped (find_json_snippet_range body (ascii ''email''))
        (\<lambda>r. reads body r (json_text ''`email`:`alice@example.com`'')))"

section \<open>Members of a response\<close>

definition json_head :: bytes where
  "json_head = ascii ''HTTP/1.1 200 OK'' @ crlf @ ascii ''Content-Type: application/json'' @ crlf @ crlf"

definition compute_field_snippet_range_from_http :: "chunk_size_parser \<Rightarrow> bool" where
  "compute_field_snippet_range_from_http pcs \<longleftrightarrow>
     (let recv = json_head @ json_text ''{`body`:`hello world`,`user`:{`login`:`alice`}}'' in
      unwrapped (compute_field_snippet_range pcs recv (ascii ''login'')) (\<lambda>r. reads recv r (json_text ''`login`:`alice`'')) \<and>
      unwrapped (compute_field_snippet_range pcs recv (ascii ''body'')) (\<lambda>r. reads recv r (json_text ''`body`:`hello world`'')))"

text \<open>\<open>format!("{:x}\r\n", n)\<close> is \<open>hex_header n\<close>.\<close>

definition straddling :: "bytes \<Rightarrow> bytes \<Rightarrow> bytes" where
  "straddling head tail = chunked_head @
     concat (map (\<lambda>part. hex_header (length part) @ part @ crlf) [head, tail]) @ ascii ''0'' @ crlf @ crlf"

definition assert_brackets :: "bytes \<Rightarrow> json_member \<Rightarrow> bytes \<Rightarrow> bytes \<Rightarrow> bool" where
  "assert_brackets recv found field val \<longleftrightarrow>
     sp_start (member_rng found) \<le> sp_start (value_rng found) \<and>
     sp_end (value_rng found) \<le> sp_end (member_rng found) \<and>
     reads recv (value_rng found) val \<and>
     reads recv (rng (sp_start (member_rng found)) (sp_start (value_rng found)))
       (json_text ''`'' @ field @ json_text ''`:`'') \<and>
     reads recv (rng (sp_end (value_rng found)) (sp_end (member_rng found))) (json_text ''`'')"

definition the_member_brackets_its_value_with_the_two_delimiters :: "chunk_size_parser \<Rightarrow> bool" where
  "the_member_brackets_its_value_with_the_two_delimiters pcs \<longleftrightarrow>
     (let recv = ok_head @ json_text ''{`access_token`:`ghu_ABC`,`x`:1}'' in
      unwrapped (in_response pcs recv (ascii ''access_token''))
        (\<lambda>found. assert_brackets recv found (ascii ''access_token'') (ascii ''ghu_ABC'')))"

definition a_value_carrying_structural_bytes_still_ends_at_its_quote :: "chunk_size_parser \<Rightarrow> bool" where
  "a_value_carrying_structural_bytes_still_ends_at_its_quote pcs \<longleftrightarrow>
     (let recv = ok_head @ json_text ''{`access_token`:`a:b,c}d`,`x`:1}'' in
      unwrapped (in_response pcs recv (ascii ''access_token''))
        (\<lambda>found. assert_brackets recv found (ascii ''access_token'') (ascii ''a:b,c}d'')))"

definition an_empty_value_is_found_with_an_empty_range :: "chunk_size_parser \<Rightarrow> bool" where
  "an_empty_value_is_found_with_an_empty_range pcs \<longleftrightarrow>
     (let recv = ok_head @ json_text ''{`access_token`:``}'' in
      unwrapped (in_response pcs recv (ascii ''access_token''))
        (\<lambda>found. span_is_empty (value_rng found) \<and> reads recv (member_rng found) (json_text ''`access_token`:``'')))"

definition the_member_range_is_the_snippet_range :: "chunk_size_parser \<Rightarrow> bool" where
  "the_member_range_is_the_snippet_range pcs \<longleftrightarrow>
     (let recv = ok_head @ json_text ''{`login`:`octocat`,`id`:1}'' in
      unwrapped (in_response pcs recv (ascii ''login'')) (\<lambda>found.
        unwrapped (compute_field_snippet_range pcs recv (ascii ''login'')) (\<lambda>r. member_rng found = r)))"

definition a_member_split_by_chunk_framing_is_refused :: "chunk_size_parser \<Rightarrow> bool" where
  "a_member_split_by_chunk_framing_is_refused pcs \<longleftrightarrow>
     compute_field_snippet_range pcs
       (straddling (json_text ''{`login`:`oct'') (json_text ''ocat`,`id`:1}'')) (ascii ''login'') = None"

definition a_bare_id_split_by_chunk_framing_is_refused :: "chunk_size_parser \<Rightarrow> bool" where
  "a_bare_id_split_by_chunk_framing_is_refused pcs \<longleftrightarrow>
     compute_id_snippet_range pcs
       (straddling (json_text ''{`login`:`octocat`,`id`:12'') (json_text ''34,`x`:1}'')) (ascii ''id'') False = None"

definition whitespace_split_by_chunk_framing_is_not_a_contiguous_member :: "chunk_size_parser \<Rightarrow> bool" where
  "whitespace_split_by_chunk_framing_is_not_a_contiguous_member pcs \<longleftrightarrow>
     compute_field_snippet_range pcs
       (straddling (json_text ''{`login` '') (json_text '': `alice`}'')) (ascii ''login'') = None \<and>
     compute_id_snippet_range pcs
       (straddling (json_text ''{`id`: '') (json_text ''123}'')) (ascii ''id'') False = None"

definition a_chunked_member_inside_one_chunk_still_resolves :: "chunk_size_parser \<Rightarrow> bool" where
  "a_chunked_member_inside_one_chunk_still_resolves pcs \<longleftrightarrow>
     (let recv = straddling (json_text ''{`login`:`octocat`,'') (json_text ''`id`:1}'') in
      unwrapped (compute_field_snippet_range pcs recv (ascii ''login'')) (\<lambda>r. reads recv r (json_text ''`login`:`octocat`'')))"

definition compute_field_snippet_range_missing_field :: "chunk_size_parser \<Rightarrow> bool" where
  "compute_field_snippet_range_missing_field pcs \<longleftrightarrow>
     compute_field_snippet_range pcs (json_head @ json_text ''{`foo`:`bar`}'') (ascii ''missing'') = None"

section \<open>Bare-number ids\<close>

definition find_json_bare_snippet_range_comma_terminated :: bool where
  "find_json_bare_snippet_range_comma_terminated \<longleftrightarrow>
     (let body = json_text ''{`login`:`octocat`,`id`:123,`node_id`:`MDQ=`}'' in
      unwrapped (find_json_bare_snippet_range body (ascii ''id'')) (\<lambda>r. reads body r (json_text ''`id`:123,'')))"

definition find_json_bare_snippet_range_brace_terminated :: bool where
  "find_json_bare_snippet_range_brace_terminated \<longleftrightarrow>
     (let body = json_text ''{`login`:`octocat`,`id`:123}'' in
      unwrapped (find_json_bare_snippet_range body (ascii ''id'')) (\<lambda>r. reads body r (json_text ''`id`:123}'')))"

definition compute_id_snippet_range_bare_comma :: "chunk_size_parser \<Rightarrow> bool" where
  "compute_id_snippet_range_bare_comma pcs \<longleftrightarrow>
     (let recv = json_head @ json_text ''{`login`:`octocat`,`id`:123,`node_id`:`x`}'' in
      unwrapped (compute_id_snippet_range pcs recv (ascii ''id'') False) (\<lambda>r. reads recv r (json_text ''`id`:123,'')))"

definition compute_id_snippet_range_bare_brace_terminated :: "chunk_size_parser \<Rightarrow> bool" where
  "compute_id_snippet_range_bare_brace_terminated pcs \<longleftrightarrow>
     (let recv = json_head @ json_text ''{`login`:`octocat`,`id`:123}'' in
      unwrapped (compute_id_snippet_range pcs recv (ascii ''id'') False) (\<lambda>r. reads recv r (json_text ''`id`:123}'')))"

definition compute_id_snippet_range_quoted_delegates :: "chunk_size_parser \<Rightarrow> bool" where
  "compute_id_snippet_range_quoted_delegates pcs \<longleftrightarrow>
     (let recv = json_head @ json_text ''{`data`:{`id`:`123`,`username`:`alice`}}'' in
      unwrapped (compute_id_snippet_range pcs recv (ascii ''id'') True) (\<lambda>r. reads recv r (json_text ''`id`:`123`'')))"

lemmas [eval] = chunked_head_def ok_head_def json_head_def assert_brackets_def

section \<open>The tests over one body\<close>

lemma find_json_snippet_range_tests:
  find_json_snippet_range_simple find_json_snippet_range_nested
  a_key_that_is_only_a_value_is_passed_over find_json_snippet_range_email
  a_second_member_is_left_for_the_layout_to_commit
  a_spaced_member_is_found_with_its_whitespace_inside
  by (simp_all add: find_json_snippet_range_simple_def find_json_snippet_range_nested_def
      a_key_that_is_only_a_value_is_passed_over_def find_json_snippet_range_email_def
      a_second_member_is_left_for_the_layout_to_commit_def
      a_spaced_member_is_found_with_its_whitespace_inside_def eval)

lemma find_json_bare_snippet_range_tests:
  whitespace_inside_a_number_is_not_a_number a_byte_json_does_not_call_whitespace_is_not_skipped
  a_number_of_another_shape_is_not_a_number a_quoted_value_is_not_a_bare_number
  a_leading_zero_is_refused_but_zero_itself_is_not a_terminator_the_profile_does_not_fix_is_refused
  a_lookalike_key_does_not_match find_json_bare_snippet_range_comma_terminated
  find_json_bare_snippet_range_brace_terminated
  by (simp_all add: whitespace_inside_a_number_is_not_a_number_def
      a_byte_json_does_not_call_whitespace_is_not_skipped_def a_number_of_another_shape_is_not_a_number_def
      a_quoted_value_is_not_a_bare_number_def a_leading_zero_is_refused_but_zero_itself_is_not_def
      a_terminator_the_profile_does_not_fix_is_refused_def a_lookalike_key_does_not_match_def
      find_json_bare_snippet_range_comma_terminated_def find_json_bare_snippet_range_brace_terminated_def eval)


section \<open>The heads of the responses\<close>

lemma ok_head_body:
  "length (ok_head @ raw) \<le> isize_max \<Longrightarrow>
   find_response_body_range (ok_head @ raw) = Some (rng (length ok_head) (length ok_head + length raw))"
  by (simp add: eval)

lemma json_head_body:
  "length (json_head @ raw) \<le> isize_max \<Longrightarrow>
   find_response_body_range (json_head @ raw) = Some (rng (length json_head) (length json_head + length raw))"
  by (simp add: eval)

lemma ok_head_lines: "ok_head @ raw = join_lines [ascii ''HTTP/1.1 200 OK'', []] raw"
  by (simp add: ok_head_def join_lines_def)

lemma json_head_lines:
  "json_head @ raw = join_lines [ascii ''HTTP/1.1 200 OK'', ascii ''Content-Type: application/json'', []] raw"
  by (simp add: json_head_def join_lines_def)

lemma ok_head_no_encoding:
  "plain_object raw \<Longrightarrow> find_header_range (ok_head @ raw) (ascii ''Transfer-Encoding'') = None"
  unfolding ok_head_lines
  by (rule no_encoding_in_lines, assumption)
     (auto simp: eval join_lines_def simp del: plain_object_def dest!: plain_object_Cons)

lemma json_head_no_encoding:
  "plain_object raw \<Longrightarrow> find_header_range (json_head @ raw) (ascii ''Transfer-Encoding'') = None"
  unfolding json_head_lines
  by (rule no_encoding_in_lines, assumption)
     (auto simp: eval join_lines_def simp del: plain_object_def dest!: plain_object_Cons)

lemmas ok_head_response = plain_response [OF _ ok_head_body, of raw for raw]
lemmas ok_head_plain = plain_response [OF ok_head_no_encoding ok_head_body, of raw for raw]
lemmas json_head_plain = plain_response [OF json_head_no_encoding json_head_body, of raw for raw]

section \<open>The tests over an unchunked response\<close>

lemma the_member_brackets_its_value_with_the_two_delimiters_holds:
  "the_member_brackets_its_value_with_the_two_delimiters pcs"
  unfolding the_member_brackets_its_value_with_the_two_delimiters_def Let_def
  by (subst ok_head_plain) (simp_all add: eval shift_member_def)

lemma a_value_carrying_structural_bytes_still_ends_at_its_quote_holds:
  "a_value_carrying_structural_bytes_still_ends_at_its_quote pcs"
  unfolding a_value_carrying_structural_bytes_still_ends_at_its_quote_def Let_def
  by (subst ok_head_plain) (simp_all add: eval shift_member_def)

lemma an_empty_value_is_found_with_an_empty_range_holds:
  "an_empty_value_is_found_with_an_empty_range pcs"
  unfolding an_empty_value_is_found_with_an_empty_range_def Let_def
  by (subst ok_head_plain) (simp_all add: eval shift_member_def)

lemma the_member_range_is_the_snippet_range_holds: "the_member_range_is_the_snippet_range pcs"
proof -
  let ?raw = "json_text ''{`login`:`octocat`,`id`:1}''"
  have te: "plain_object ?raw" "slice_ok (ok_head @ ?raw)"
    by (simp_all add: eval)
  show ?thesis
    unfolding the_member_range_is_the_snippet_range_def Let_def compute_field_snippet_range_def
      ok_head_plain(1) [OF te(1,2,2)]
    by (simp add: eval shift_member_def)
qed

lemma compute_field_snippet_range_missing_field_holds: "compute_field_snippet_range_missing_field pcs"
  unfolding compute_field_snippet_range_missing_field_def compute_field_snippet_range_def
  by (subst json_head_plain) (simp_all add: eval shift_member_def)

lemma compute_field_snippet_range_from_http_holds: "compute_field_snippet_range_from_http pcs"
proof -
  let ?raw = "json_text ''{`body`:`hello world`,`user`:{`login`:`alice`}}''"
  have te: "plain_object ?raw" "slice_ok (json_head @ ?raw)"
    by (simp_all add: eval)
  show ?thesis
    unfolding compute_field_snippet_range_from_http_def Let_def compute_field_snippet_range_def
      json_head_plain(1) [OF te(1,2,2)]
    by (simp add: eval shift_member_def)
qed

lemma compute_id_snippet_range_bare_comma_holds: "compute_id_snippet_range_bare_comma pcs"
  unfolding compute_id_snippet_range_bare_comma_def Let_def
  by (subst json_head_plain) (simp_all add: eval)

lemma compute_id_snippet_range_bare_brace_terminated_holds: "compute_id_snippet_range_bare_brace_terminated pcs"
  unfolding compute_id_snippet_range_bare_brace_terminated_def Let_def
  by (subst json_head_plain) (simp_all add: eval)

lemma compute_id_snippet_range_quoted_delegates_holds: "compute_id_snippet_range_quoted_delegates pcs"
  unfolding compute_id_snippet_range_quoted_delegates_def Let_def compute_id_snippet_range_def if_True
    compute_field_snippet_range_def
  by (subst json_head_plain) (simp_all add: eval shift_member_def)

text \<open>One lemma per whitespace of the list.\<close>

lemma whitespace_is_kept_if:
  assumes raw: "raw = ascii ''{'' @ (json_text ''`id`'' @ ws @ ascii '':'' @ ws @ ascii ''123'' @ ws @ ascii '','') @
           (json_text ''`login`'' @ ws @ ascii '':'' @ ws @ json_text ''`octocat`'') @ ascii ''}''"
    and te: "find_header_range (ok_head @ raw) (ascii ''Transfer-Encoding'') = None" "slice_ok (ok_head @ raw)"
    and m: "unwrapped (in_body raw (ascii ''login'')) (\<lambda>m. slice raw (member_rng m) =
      json_text ''`login`'' @ ws @ ascii '':'' @ ws @ json_text ''`octocat`'')"
    and r: "unwrapped (find_json_bare_snippet_range raw (ascii ''id'')) (\<lambda>r. slice raw r =
      json_text ''`id`'' @ ws @ ascii '':'' @ ws @ ascii ''123'' @ ws @ ascii '','')"
  shows "whitespace_is_kept pcs ws"
proof -
  from m obtain found where found: "in_body raw (ascii ''login'') = Some found" "slice raw (member_rng found) =
      json_text ''`login`'' @ ws @ ascii '':'' @ ws @ json_text ''`octocat`''" by (auto simp: unwrapped_iff)
  from r obtain s where s: "find_json_bare_snippet_range raw (ascii ''id'') = Some s" "slice raw s =
      json_text ''`id`'' @ ws @ ascii '':'' @ ws @ ascii ''123'' @ ws @ ascii '',''" by (auto simp: unwrapped_iff)
  have "in_slice raw s" using s(1) by (auto elim!: bare_Some simp: bare_slices)
  then have moved: "get_range (ok_head @ raw) (shift (length ok_head) (member_rng found)) = Some (slice raw (member_rng found))"
      "get_range (ok_head @ raw) (shift (length ok_head) s) = Some (slice raw s)"
    using in_body_brackets(4) [OF found(1)] by (auto simp: in_slice_def shift_def get_range_def slice_def)
  show ?thesis
    unfolding whitespace_is_kept_def Let_def raw [symmetric] compute_field_snippet_range_def
      ok_head_response [OF te(1,2,2)] found(1) s(1)
    by (simp only: option.map option.case unwrapped_def reads_def shift_member_def json_member.simps moved)
       (simp only: found(2) s(2))
qed

lemma whitespace_tests: "every_json_whitespace_byte_is_kept_inside_the_member pcs"
proof -
  have "whitespace_is_kept pcs [0x20]"
    by (rule whitespace_is_kept_if [OF refl]) (simp_all add: eval)
  moreover have "whitespace_is_kept pcs [0x09]"
    by (rule whitespace_is_kept_if [OF refl]) (simp_all add: eval)
  moreover have "whitespace_is_kept pcs [0x0A]"
    by (rule whitespace_is_kept_if [OF refl]) (simp_all add: eval)
  moreover have "whitespace_is_kept pcs [0x0D]"
    by (rule whitespace_is_kept_if [OF refl]) (simp_all add: eval)
  moreover have "whitespace_is_kept pcs [0x20, 0x09, 0x0D, 0x0A]"
    by (rule whitespace_is_kept_if [OF refl]) (simp_all add: eval)
  ultimately show ?thesis
    by (simp add: every_json_whitespace_byte_is_kept_inside_the_member_def json_whitespace_runs_def)
qed

section \<open>Chunked responses\<close>

lemma chunked_head_body:
  assumes "length (chunked_head @ raw) \<le> isize_max"
  shows "find_response_body_range (chunked_head @ raw)
           = Some (rng (length chunked_head) (length chunked_head + length raw))"
    and "extract_header (chunked_head @ raw) (ascii ''Transfer-Encoding'') = Some (ascii ''chunked'')"
    and "contains (ascii ''chunked'') (ascii ''chunked'')"
  using assms by (simp_all add: eval)

lemma chunked_head_extract:
  assumes "length (chunked_head @ raw) \<le> isize_max"
  shows "(extract_response_body pcs (chunked_head @ raw) :: 'j error + bytes) = decode_chunked_body pcs raw"
proof -
  have "slice (chunked_head @ raw) (rng (length chunked_head) (length chunked_head + length raw)) = raw"
    by (simp add: slice_def)
  then show ?thesis
    by (simp only: extract_response_body_def chunked_head_body [OF assms] option.case Let_def if_True)
qed

text \<open>
  What the tests rely on of \<open>httparse\<close>: a header of lower-case hexadecimal digits is read
  as its number, and a header that starts with a letter that is no such digit is refused.
\<close>

definition reads_hex :: "chunk_size_parser \<Rightarrow> bool" where
  "reads_hex pcs \<longleftrightarrow> reads_headers pcs hex_header \<and>
     (\<forall>c rest. 0x67 \<le> c \<and> c \<le> 0x7A \<longrightarrow> pcs (c # rest) = Inl ())"

lemma hex_chunk_size_reads_hex: "reads_hex hex_chunk_size"
proof -
  have "hex_chunk_size (c # rest) = Inl ()" if "0x67 \<le> c" for c rest
  proof -
    have "\<not> is_ascii_hexdigit c"
      using that by (auto simp: is_ascii_hexdigit_def is_ascii_digit_def word_le_nat_alt)
    then show ?thesis by (simp add: hex_chunk_size_def)
  qed
  then show ?thesis by (simp add: reads_hex_def hex_chunk_size_reads)
qed

section \<open>The tests over a chunked response\<close>

lemma hex_header_small: "n < 16 \<Longrightarrow> hex_header n = hex_digit n # crlf"
  by (simp add: hex_header_def hex_of.simps [of n])

lemma straddling_frames:
  "straddling head tail = chunked_head @ frame_chunks hex_header [head, tail] @ crlf"
  by (simp add: straddling_def frame_chunks_def chunk_frame_def hex_header_small hex_digit_def)
     (simp add: ascii_def)

lemma straddling_decodes:
  assumes "reads_hex pcs" and "head \<noteq> []" and "tail \<noteq> []" and "slice_ok (straddling head tail)"
  shows "(extract_response_body pcs (straddling head tail) :: 'j error + bytes) = Inr (head @ tail)"
proof -
  have ok: "length (chunked_head @ frame_chunks hex_header [head, tail] @ crlf) \<le> isize_max"
    using assms(4) by (simp add: straddling_frames)
  then have "slice_ok (frame_chunks hex_header [head, tail] @ crlf)" by simp
  then show ?thesis
    unfolding straddling_frames chunked_head_extract [OF ok]
    using chunked_roundtrip [of pcs hex_header "[head, tail]" crlf] assms(1-3) by (simp add: reads_hex_def)
qed

text \<open>
  What is found of a straddling response is a text of the one part or of the other, so a
  member or an id whose text is in neither is refused, wherever the boundary falls in it.
\<close>

lemma straddling_found:
  assumes pcs: "reads_hex pcs" and ne: "head \<noteq> []" "tail \<noteq> []" "slice_ok (straddling head tail)" "13 \<notin> set (head @ tail)"
    and found: "compute_field_snippet_range pcs (straddling head tail) field = Some r \<or>
      compute_id_snippet_range pcs (straddling head tail) field quoted = Some r"
  shows "windows_any (slice (straddling head tail) r) head \<or> windows_any (slice (straddling head tail) r) tail"
proof -
  let ?raw = "frame_chunks hex_header [head, tail] @ crlf"
  have ok: "length (chunked_head @ ?raw) \<le> isize_max" using ne(3) by (simp add: straddling_frames)
  have body: "find_response_body_range (straddling head tail) =
      Some (rng (length chunked_head) (length chunked_head + length ?raw))"
    unfolding straddling_frames by (rule chunked_head_body(1) [OF ok])
  have raw: "drop (sp_start (rng (length chunked_head) (length chunked_head + length ?raw))) (straddling head tail) = ?raw"
    by (simp add: straddling_frames)
  have "quote \<notin> set crlf" by (simp add: crlf_def)
  obtain q where q: "compute_id_snippet_range pcs (straddling head tail) field q = Some r"
    using found by (force simp: compute_id_snippet_range_def)
  from found_lies_in_one_chunk_parts [OF q body raw quote_in_no_hex_header \<open>quote \<notin> set crlf\<close>]
  obtain body d where b: "(extract_response_body pcs (straddling head tail) :: unit error + bytes) = Inr body"
    and scan: "decoded_scan body field q = Some d" "slice (straddling head tail) r = slice body d"
      "(\<exists>i. occurs_at crlf (slice body d) i) \<or> (\<exists>xs c ys j. [head, tail] = xs @ c # ys \<and> occurs_at (slice body d) c j)"
    by blast
  moreover have "(extract_response_body pcs (straddling head tail) :: unit error + bytes) = Inr (head @ tail)"
    by (rule straddling_decodes [OF pcs ne(1-3)])
  ultimately have "body = head @ tail" by simp
  with scan have d: "decoded_scan (head @ tail) field q = Some d" "slice (straddling head tail) r = slice (head @ tail) d"
    and one: "(\<exists>i. occurs_at crlf (slice (head @ tail) d) i) \<or>
      (\<exists>xs c ys j. [head, tail] = xs @ c # ys \<and> occurs_at (slice (head @ tail) d) c j)" by simp_all
  have "set (slice (head @ tail) d) \<subseteq> set (head @ tail)"
    by (metis slice_def set_take_subset set_drop_subset order_trans)
  then have "13 \<notin> set (slice (head @ tail) d)" using ne(4) by blast
  then have "\<nexists>i. occurs_at crlf (slice (head @ tail) d) i"
    using occurs_member [of crlf _ _ 13] by (auto simp: crlf_def)
  with one d(2) have "\<exists>c \<in> set [head, tail]. \<exists>j. occurs_at (slice (straddling head tail) r) c j" by (metis in_set_conv_decomp)
  then show ?thesis by (simp add: windows_any_iff)
qed

lemma straddled_member_is_refused:
  assumes pcs: "reads_hex pcs" and ne: "head \<noteq> []" "tail \<noteq> []" "slice_ok (straddling head tail)" "13 \<notin> set (head @ tail)"
    and d: "in_body (head @ tail) field = Some d" "slice (head @ tail) (member_rng d) = T"
      "\<not> windows_any T head" "\<not> windows_any T tail"
  shows "compute_field_snippet_range pcs (straddling head tail) field = None"
proof (rule ccontr)
  assume "compute_field_snippet_range pcs (straddling head tail) field \<noteq> None"
  then obtain m where m: "in_response pcs (straddling head tail) field = Some m"
      "compute_field_snippet_range pcs (straddling head tail) field = Some (member_rng m)"
    by (auto simp: compute_field_snippet_range_def)
  have "slice (straddling head tail) (member_rng m) = T"
    using in_response_decoded [OF m(1)] straddling_decodes [OF pcs ne(1-3)] d(1,2)
    by (metis option.inject sum.inject(2))
  then show False using straddling_found [OF pcs ne disjI1 [OF m(2)]] d(3,4) by simp
qed

lemma straddled_id_is_refused:
  assumes pcs: "reads_hex pcs" and ne: "head \<noteq> []" "tail \<noteq> []" "slice_ok (straddling head tail)" "13 \<notin> set (head @ tail)"
    and d: "find_json_bare_snippet_range (head @ tail) field = Some d" "slice (head @ tail) d = T"
      "\<not> windows_any T head" "\<not> windows_any T tail"
  shows "compute_id_snippet_range pcs (straddling head tail) field False = None"
proof (rule ccontr)
  assume "compute_id_snippet_range pcs (straddling head tail) field False \<noteq> None"
  then obtain r where r: "compute_id_snippet_range pcs (straddling head tail) field False = Some r" by blast
  have "slice (straddling head tail) r = T"
    using bare_number.relocate_contiguous [OF compute_id_relocates [OF r]] straddling_decodes [OF pcs ne(1-3)] d(1,2)
    by (metis option.inject sum.inject(2))
  then show False using straddling_found [OF pcs ne disjI2 [OF r]] d(3,4) by simp
qed

lemma a_member_split_by_chunk_framing_is_refused_holds:
  "reads_hex pcs \<Longrightarrow> a_member_split_by_chunk_framing_is_refused pcs"
  unfolding a_member_split_by_chunk_framing_is_refused_def
  by (rule straddled_member_is_refused [where d = "\<lparr>member_rng = rng 1 18, value_rng = rng 10 17\<rparr>" and
      T = "json_text ''`login`:`octocat`''"])
     (simp_all add: straddling_def eval)

lemma a_bare_id_split_by_chunk_framing_is_refused_holds:
  "reads_hex pcs \<Longrightarrow> a_bare_id_split_by_chunk_framing_is_refused pcs"
  unfolding a_bare_id_split_by_chunk_framing_is_refused_def
  by (rule straddled_id_is_refused [where d = "rng 19 29" and T = "json_text ''`id`:1234,''"])
     (simp_all add: straddling_def eval)

lemma whitespace_split_by_chunk_framing_is_not_a_contiguous_member_holds:
  assumes "reads_hex pcs"
  shows "whitespace_split_by_chunk_framing_is_not_a_contiguous_member pcs"
  unfolding whitespace_split_by_chunk_framing_is_not_a_contiguous_member_def
proof
  show "compute_field_snippet_range pcs (straddling (json_text ''{`login` '') (json_text '': `alice`}'')) (ascii ''login'') = None"
    by (rule straddled_member_is_refused [where d = "\<lparr>member_rng = rng 1 18, value_rng = rng 12 17\<rparr>" and
        T = "json_text ''`login` : `alice`''"])
       (simp_all add: assms straddling_def eval)
  show "compute_id_snippet_range pcs (straddling (json_text ''{`id`: '') (json_text ''123}'')) (ascii ''id'') False = None"
    by (rule straddled_id_is_refused [where d = "rng 1 11" and T = "json_text ''`id`: 123}''"])
       (simp_all add: assms straddling_def eval)
qed

lemma a_chunked_member_inside_one_chunk_still_resolves_holds:
  assumes "reads_hex pcs"
  shows "a_chunked_member_inside_one_chunk_still_resolves pcs"
proof -
  let ?recv = "straddling (json_text ''{`login`:`octocat`,'') (json_text ''`id`:1}'')"
  have "(extract_response_body pcs ?recv :: unit error + bytes) =
      Inr (json_text ''{`login`:`octocat`,'' @ json_text ''`id`:1}'')"
    by (rule straddling_decodes [OF assms]) (simp_all add: straddling_def eval)
  then show ?thesis
    unfolding a_chunked_member_inside_one_chunk_still_resolves_def Let_def compute_field_snippet_range_def in_response_def
    by (simp only:) (simp add: straddling_def eval)
qed

lemma extract_response_body_decodes_chunked_holds:
  assumes "reads_hex pcs"
  shows "extract_response_body_decodes_chunked pcs"
proof -
  let ?a = "json_text ''{`a`:1,''" and ?b = "json_text ''`b`:`x`}''"
  have recv: "chunked_head @ ascii ''7'' @ crlf @ ?a @ crlf @ ascii ''8'' @ crlf @ ?b @ crlf @ ascii ''0'' @ crlf @ crlf
      = straddling ?a ?b"
    by (simp add: straddling_def hex_header_small json_text_def hex_digit_def) (simp add: eval)
  have "(extract_response_body pcs (straddling ?a ?b) :: unit error + bytes) = Inr (?a @ ?b)"
    by (rule straddling_decodes [OF assms]) (simp_all add: straddling_def eval)
  then show ?thesis
    unfolding extract_response_body_decodes_chunked_def Let_def recv by (simp add: json_text_def ascii_def)
qed

lemma truncated_chunk:
  assumes "reads_hex pcs" and "length c < n" and "n < 2 ^ 63"
  shows "(decode_chunked_body pcs (hex_header n @ c) :: 'j error + bytes)
           = Inl (bad ''chunk is shorter than its declared size'')"
proof -
  have p: "pcs (hex_header n @ c) = Inr (Complete (length (hex_header n), of_nat n))"
    using assms by (simp add: reads_hex_def reads_headers_def)
  have u: "unat (of_nat n :: 64 word) = n" using assms(3) by (simp add: unat_of_nat)
  then have nz: "(of_nat n :: 64 word) \<noteq> 0" using assms(2) by auto
  have "length (hex_header n) \<le> 18"
    using hex_of_length [of n 15] assms(3) by (simp add: hex_header_def)
  then have "usize_try_from n = Some n" "checked_add (length (hex_header n)) n = Some (length (hex_header n) + n)"
    using assms(3) by (simp_all add: usize_try_from_def checked_add_def usize_max_def)
  moreover have "get_range (hex_header n @ c) (rng (length (hex_header n)) (length (hex_header n) + n)) = None"
    using assms(2) by (simp add: get_range_def in_slice_def)
  ultimately show ?thesis
    unfolding decode_chunked_body_def by (subst decode_chunks.simps) (simp add: p u nz)
qed

lemma a_truncated_chunk_is_an_error_too_holds:
  assumes "reads_hex pcs"
  shows "a_truncated_chunk_is_an_error_too pcs"
proof -
  have h: "ascii ''14'' @ crlf @ ascii ''hello'' = hex_header 20 @ ascii ''hello''" by (simp add: eval)
  have "length (chunked_head @ hex_header 20 @ ascii ''hello'') \<le> isize_max" by (simp add: eval)
  then show ?thesis
    using truncated_chunk [OF assms, of "ascii ''hello''" 20, where 'j = unit]
    by (simp add: a_truncated_chunk_is_an_error_too_def h chunked_head_extract)
qed

lemma a_malformed_chunk_size_is_an_error_not_a_short_body_holds:
  assumes "reads_hex pcs"
  shows "a_malformed_chunk_size_is_an_error_not_a_short_body pcs"
proof -
  let ?rest = "ascii ''zz'' @ crlf @ ascii ''world'' @ crlf @ ascii ''0'' @ crlf @ crlf"
  let ?raw = "hex_header 5 @ ascii ''hello'' @ crlf @ ?rest"
  have h: "malformed_chunk_recv = chunked_head @ ?raw"
    by (simp add: malformed_chunk_recv_def hex_header_small hex_digit_def) (simp add: ascii_def)
  have ok: "length (chunked_head @ ?raw) \<le> isize_max" by (simp add: eval)
  have "pcs (hex_header 5 @ more) = Inr (Complete (length (hex_header 5), of_nat 5))" for more
    using assms by (simp add: reads_hex_def reads_headers_def)
  moreover have "length (hex_header 5) = 3" by (simp add: hex_header_small)
  ultimately have first: "pcs ?raw = Inr (Complete (3, 5))" by simp
  have second: "pcs ?rest = Inl ()"
    using assms by (simp add: reads_hex_def ascii_def)
  have bad_rest: "isl (decode_chunks pcs ?rest out :: unit error + bytes)" for out
    by (subst decode_chunks.simps) (simp add: second)
  have step: "isl (decode_chunked_body pcs raw :: unit error + bytes)"
    if "pcs raw = Inr (Complete (3, 5))" "get_range raw (rng 3 8) = Some (ascii ''hello'')"
      "get_range raw (rng 8 10) = Some crlf" "drop 10 raw = ?rest" for raw
    unfolding decode_chunked_body_def using that bad_rest
    by (subst decode_chunks.simps) (simp add: usize_try_from_def checked_add_def usize_max_def)
  have "isl (decode_chunked_body pcs ?raw :: unit error + bytes)"
    by (rule step [OF first])
       (simp_all add: hex_header_small get_range_def in_slice_def slice_def crlf_def ascii_def)
  then show ?thesis
    by (simp add: a_malformed_chunk_size_is_an_error_not_a_short_body_def h chunked_head_extract [OF ok])
qed

section \<open>The module\<close>

text \<open>Every test of the module, in its order.\<close>

definition ranges_tests :: "chunk_size_parser \<Rightarrow> bool list" where
  "ranges_tests pcs =
     [a_malformed_chunk_size_is_an_error_not_a_short_body pcs, a_truncated_chunk_is_an_error_too pcs,
      extract_response_body_decodes_chunked pcs, find_json_snippet_range_simple, find_json_snippet_range_nested,
      a_second_member_is_left_for_the_layout_to_commit, a_spaced_member_is_found_with_its_whitespace_inside,
      a_key_that_is_only_a_value_is_passed_over, whitespace_inside_a_number_is_not_a_number,
      every_json_whitespace_byte_is_kept_inside_the_member pcs,
      a_byte_json_does_not_call_whitespace_is_not_skipped, a_number_of_another_shape_is_not_a_number,
      whitespace_split_by_chunk_framing_is_not_a_contiguous_member pcs, a_quoted_value_is_not_a_bare_number,
      a_leading_zero_is_refused_but_zero_itself_is_not, a_terminator_the_profile_does_not_fix_is_refused,
      a_lookalike_key_does_not_match, find_json_snippet_range_email, compute_field_snippet_range_from_http pcs,
      the_member_brackets_its_value_with_the_two_delimiters pcs,
      a_value_carrying_structural_bytes_still_ends_at_its_quote pcs,
      an_empty_value_is_found_with_an_empty_range pcs, the_member_range_is_the_snippet_range pcs,
      a_member_split_by_chunk_framing_is_refused pcs, a_bare_id_split_by_chunk_framing_is_refused pcs,
      a_chunked_member_inside_one_chunk_still_resolves pcs, compute_field_snippet_range_missing_field pcs,
      find_json_bare_snippet_range_comma_terminated, find_json_bare_snippet_range_brace_terminated,
      compute_id_snippet_range_bare_comma pcs, compute_id_snippet_range_bare_brace_terminated pcs,
      compute_id_snippet_range_quoted_delegates pcs]"

lemmas chunked_response_tests =
  a_malformed_chunk_size_is_an_error_not_a_short_body_holds a_truncated_chunk_is_an_error_too_holds
  extract_response_body_decodes_chunked_holds a_member_split_by_chunk_framing_is_refused_holds
  a_bare_id_split_by_chunk_framing_is_refused_holds
  whitespace_split_by_chunk_framing_is_not_a_contiguous_member_holds
  a_chunked_member_inside_one_chunk_still_resolves_holds

lemmas unchunked_response_tests =
  the_member_brackets_its_value_with_the_two_delimiters_holds
  a_value_carrying_structural_bytes_still_ends_at_its_quote_holds
  an_empty_value_is_found_with_an_empty_range_holds the_member_range_is_the_snippet_range_holds
  compute_field_snippet_range_missing_field_holds compute_field_snippet_range_from_http_holds
  compute_id_snippet_range_bare_comma_holds compute_id_snippet_range_bare_brace_terminated_holds
  compute_id_snippet_range_quoted_delegates_holds whitespace_tests

text \<open>The scans and the decoder behave on every input of the crate's own 32 tests as the tests
  demand, for every chunk-size reader that reads hexadecimal headers and refuses a header of
  other letters.\<close>
theorem ranges_tests_pass:
  assumes "reads_hex pcs"
  shows "list_all (\<lambda>passes. passes) (ranges_tests pcs)"
  using chunked_response_tests [OF assms]
  by (simp add: ranges_tests_def find_json_snippet_range_tests find_json_bare_snippet_range_tests
      unchunked_response_tests)

theorem ranges_tests_pass_witness: "list_all (\<lambda>passes. passes) (ranges_tests hex_chunk_size)"
  by (rule ranges_tests_pass [OF hex_chunk_size_reads_hex])

end
