(* ===== verification/Layouts_Tests.thy ===== *)
theory Layouts_Tests
  imports Layouts Ranges_Tests
begin

text \<open>
  The tests of \<open>libid-transcript/src/ceremony.rs\<close>, over the model, in the order of the module.
  The launch profiles come from the generated crate \<open>libid-profiles\<close>: they are an argument,
  and \<open>launch_profiles_ok\<close> is what the tests read of them.
\<close>

section \<open>The launch profiles\<close>

record launch_profile =
  prof_token :: "token_session option"
  prof_identity :: "identity_session option"

record launch_profiles =
  profile_x :: launch_profile
  profile_github :: launch_profile

definition x_token_session :: token_session where
  "x_token_session = \<lparr>secret_field = None\<rparr>"

definition x_identity_session :: identity_session where
  "x_identity_session = \<lparr>id_field = ascii ''id'', handle_field = ascii ''username'', id_shape_of = JsonString\<rparr>"

definition github_token_session :: token_session where
  "github_token_session = \<lparr>secret_field = Some (ascii ''client_secret'')\<rparr>"

definition github_identity_session :: identity_session where
  "github_identity_session = \<lparr>id_field = ascii ''id'', handle_field = ascii ''login'', id_shape_of = OtherShape\<rparr>"

definition launch_profiles_ok :: "launch_profiles \<Rightarrow> bool" where
  "launch_profiles_ok p \<longleftrightarrow>
     prof_token (profile_x p) = Some x_token_session \<and> prof_identity (profile_x p) = Some x_identity_session \<and>
     prof_token (profile_github p) = Some github_token_session \<and>
     prof_identity (profile_github p) = Some github_identity_session"

text \<open>A profile behind \<open>expect\<close>: without it, the test fails.\<close>

definition x_token :: "launch_profiles \<Rightarrow> (token_session \<Rightarrow> bool) \<Rightarrow> bool" where
  "x_token p = unwrapped (prof_token (profile_x p))"

definition x_identity :: "launch_profiles \<Rightarrow> (identity_session \<Rightarrow> bool) \<Rightarrow> bool" where
  "x_identity p = unwrapped (prof_identity (profile_x p))"

definition github_token :: "launch_profiles \<Rightarrow> (token_session \<Rightarrow> bool) \<Rightarrow> bool" where
  "github_token p = unwrapped (prof_token (profile_github p))"

definition github_identity :: "launch_profiles \<Rightarrow> (identity_session \<Rightarrow> bool) \<Rightarrow> bool" where
  "github_identity p = unwrapped (prof_identity (profile_github p))"

definition x_token_req :: bytes where
  "x_token_req = ascii ''POST /2/oauth2/token HTTP/1.1'' @ crlf @ ascii ''host: api.x.com'' @ crlf @ crlf @
     ascii ''grant_type=authorization_code&client_id=abc&code_verifier=xyz''"

section \<open>Token responses\<close>

definition spaced_delimiter_is_revealed :: "chunk_size_parser \<Rightarrow> bytes \<Rightarrow> bool" where
  "spaced_delimiter_is_revealed pcs ws \<longleftrightarrow>
     (let prefix = json_text ''`access_token`'' @ ws @ ascii '':'' @ ws @ json_text ''`'';
          recv = ok_head @ ascii ''{'' @ prefix @ json_text ''SECRET`}'' in
      unwrapped_ok (token_response pcs recv) (\<lambda>l.
        tiles l (length recv) \<and>
        at_index (reveal l) 0 (\<lambda>a. reads recv a prefix \<and>
          at_index (reveal l) 1 (\<lambda>b. reads recv (rng (sp_end a) (sp_start b)) (ascii ''SECRET'') \<and>
            reads recv b (json_text ''`'')))))"

definition a_spaced_access_token_delimiter_is_revealed_and_the_bearer_alone_committed :: "chunk_size_parser \<Rightarrow> bool" where
  "a_spaced_access_token_delimiter_is_revealed_and_the_bearer_alone_committed pcs \<longleftrightarrow>
     list_all (spaced_delimiter_is_revealed pcs) [[0x20], [0x09], [0x0D], [0x0A], [0x20, 0x09, 0x0D, 0x0A]]"

definition a_bearer_split_by_chunk_framing_is_refused :: "chunk_size_parser \<Rightarrow> bool" where
  "a_bearer_split_by_chunk_framing_is_refused pcs \<longleftrightarrow>
     isl (token_response pcs
       (straddling (json_text ''{`access_token`:`ghu_AA'') (json_text ''BB`,`token_type`:`bearer`}'')))"

definition an_empty_bearer_is_refused :: "chunk_size_parser \<Rightarrow> bool" where
  "an_empty_bearer_is_refused pcs \<longleftrightarrow> isl (token_response pcs (ok_head @ json_text ''{`access_token`:``}''))"

definition a_bearer_carrying_structural_bytes_is_committed_whole :: "chunk_size_parser \<Rightarrow> bool" where
  "a_bearer_carrying_structural_bytes_is_committed_whole pcs \<longleftrightarrow>
     (let recv = ok_head @ json_text ''{`access_token`:`gh:u,A}BC`,`token_type`:`bearer`}'' in
      unwrapped_ok (token_response pcs recv) (\<lambda>l.
        tiles l (length recv) \<and>
        list_ex (\<lambda>c. reads recv c (ascii ''gh:u,A}BC'')) (commit l) \<and>
        list_all (\<lambda>r. \<not> windows_any (ascii ''gh:'') (slice recv r)) (reveal l)))"

definition a_header_cannot_answer_for_the_body :: "chunk_size_parser \<Rightarrow> bool" where
  "a_header_cannot_answer_for_the_body pcs \<longleftrightarrow>
     (let recv = ascii ''HTTP/1.1 200 OK'' @ crlf @ json_text ''x-echo: `access_token`:`decoy`'' @ crlf @ crlf @
                 json_text ''{`access_token`:`real`}'' in
      unwrapped_ok (token_response pcs recv) (\<lambda>l.
        concat (map (slice recv) (reveal l)) = json_text ''`access_token`:``'' \<and>
        unwrapped (find (\<lambda>r. span_len r = 4) (commit l)) (\<lambda>c. reads recv c (ascii ''real''))))"

definition the_token_response_reveals_only_the_two_anchors :: "chunk_size_parser \<Rightarrow> bool" where
  "the_token_response_reveals_only_the_two_anchors pcs \<longleftrightarrow>
     (let recv = ok_head @ json_text ''{`token_type`:`bearer`,`access_token`:`SECRETBEARER`}'' in
      unwrapped_ok (token_response pcs recv) (\<lambda>l.
        tiles l (length recv) \<and>
        at_index (reveal l) 0 (\<lambda>r. reads recv r (json_text ''`access_token`:`'')) \<and>
        at_index (reveal l) 1 (\<lambda>r. reads recv r (json_text ''`'')) \<and>
        list_ex (\<lambda>c. reads recv c (ascii ''SECRETBEARER'')) (commit l)))"

section \<open>Token requests\<close>

definition the_x_token_request_is_revealed_whole :: "launch_profiles \<Rightarrow> bool" where
  "the_x_token_request_is_revealed_whole p \<longleftrightarrow>
     x_token p (\<lambda>session. unwrapped_ok (token_request x_token_req session) (\<lambda>l.
       reveal l = [rng 0 (length x_token_req)] \<and> commit l = [] \<and> tiles l (length x_token_req)))"

definition github_exchange_req :: bytes where
  "github_exchange_req = ascii ''POST /login/oauth/access_token HTTP/1.1'' @ crlf @ ascii ''host: github.com'' @ crlf @ crlf @
     ascii ''client_id=Iv1.x&code=abc&code_verifier=xyz&client_secret=deadbeef''"

definition the_github_exchange_commits_only_its_secret :: "launch_profiles \<Rightarrow> bool" where
  "the_github_exchange_commits_only_its_secret p \<longleftrightarrow>
     github_token p (\<lambda>session. unwrapped_ok (token_request github_exchange_req session) (\<lambda>l.
       length (reveal l) = 1 \<and> length (commit l) = 1 \<and>
       at_index (commit l) 0 (\<lambda>c. sp_end c = length github_exchange_req) \<and>
       tiles l (length github_exchange_req) \<and>
       at_index (reveal l) 0 (\<lambda>r. \<not> windows_any (ascii ''deadbeef'') (slice github_exchange_req r))))"

definition a_missing_secret_is_an_error_not_a_silent_reveal :: "launch_profiles \<Rightarrow> bool" where
  "a_missing_secret_is_an_error_not_a_silent_reveal p \<longleftrightarrow>
     github_token p (\<lambda>session. token_request x_token_req session = Inl MissingCredential)"

section \<open>Identity requests\<close>

definition the_identity_request_commits_only_the_bearer :: bool where
  "the_identity_request_commits_only_the_bearer \<longleftrightarrow>
     (let sent = ascii ''GET /2/users/me HTTP/1.1'' @ crlf @ ascii ''host: api.x.com'' @ crlf @
                 ascii ''authorization: Bearer TOKENVALUE'' @ crlf @ ascii ''connection: close'' @ crlf @ crlf in
      unwrapped_ok (identity_request sent) (\<lambda>l.
        tiles l (length sent) \<and> length (commit l) = 1 \<and>
        at_index (commit l) 0 (\<lambda>c. reads sent c (ascii ''TOKENVALUE'') \<and>
          ends_with (take (sp_start c) sent) (crlf @ ascii ''authorization: Bearer '') \<and>
          starts_with (drop (sp_end c) sent) crlf)))"

definition a_request_without_the_credential_header_is_an_error :: bool where
  "a_request_without_the_credential_header_is_an_error \<longleftrightarrow>
     identity_request (ascii ''GET /2/users/me HTTP/1.1'' @ crlf @ ascii ''host: api.x.com'' @ crlf @ crlf) =
       Inl (MissingHeader (ascii ''authorization''))"

section \<open>Identity responses\<close>

definition type_head :: bytes where
  "type_head = ascii ''HTTP/1.1 200 OK'' @ crlf @ ascii ''content-type: application/json'' @ crlf @ crlf"

definition the_identity_response_reveals_both_members_whole :: "launch_profiles \<Rightarrow> chunk_size_parser \<Rightarrow> bool" where
  "the_identity_response_reveals_both_members_whole p pcs \<longleftrightarrow>
     (let recv = type_head @ json_text ''{`data`:{`id`:`2244994945`,`name`:`Al`,`username`:`alice`}}'' in
      x_identity p (\<lambda>session. unwrapped_ok (identity_response pcs recv session) (\<lambda>l.
        tiles l (length recv) \<and> length (reveal l) = 2 \<and>
        at_index (reveal l) 0 (\<lambda>r. reads recv r (json_text ''`id`:`2244994945`'')) \<and>
        at_index (reveal l) 1 (\<lambda>r. reads recv r (json_text ''`username`:`alice`'')))))"

definition the_github_identity_response_reveals_the_id_with_its_terminator ::
  "launch_profiles \<Rightarrow> chunk_size_parser \<Rightarrow> bool" where
  "the_github_identity_response_reveals_the_id_with_its_terminator p pcs \<longleftrightarrow>
     (let recv = type_head @ json_text ''{`login`:`octocat`,`id`:583231,`node_id`:`MDQ=`}'' in
      github_identity p (\<lambda>session. unwrapped_ok (identity_response pcs recv session) (\<lambda>l.
        tiles l (length recv) \<and> length (reveal l) = 2 \<and>
        at_index (reveal l) 0 (\<lambda>r. reads recv r (json_text ''`login`:`octocat`'')) \<and>
        at_index (reveal l) 1 (\<lambda>r. reads recv r (json_text ''`id`:583231,'')))))"

definition a_github_id_closed_by_a_brace_is_revealed_the_same_way ::
  "launch_profiles \<Rightarrow> chunk_size_parser \<Rightarrow> bool" where
  "a_github_id_closed_by_a_brace_is_revealed_the_same_way p pcs \<longleftrightarrow>
     (let recv = ok_head @ json_text ''{`login`:`octocat`,`id`:583231}'' in
      github_identity p (\<lambda>session. unwrapped_ok (identity_response pcs recv session) (\<lambda>l.
        tiles l (length recv) \<and>
        at_index (reveal l) 1 (\<lambda>r. reads recv r (json_text ''`id`:583231}'')))))"

definition the_two_profiles_do_not_read_each_other_s_responses ::
  "launch_profiles \<Rightarrow> chunk_size_parser \<Rightarrow> bool" where
  "the_two_profiles_do_not_read_each_other_s_responses p pcs \<longleftrightarrow>
     (let github = ok_head @ json_text ''{`login`:`octocat`,`id`:583231}'';
          x = ok_head @ json_text ''{`id`:`7`,`username`:`alice`}'' in
      x_identity p (\<lambda>session. identity_response pcs github session = Inl (MissingField (ascii ''id''))) \<and>
      github_identity p (\<lambda>session. identity_response pcs x session = Inl (MissingField (ascii ''id''))))"

definition a_response_that_names_the_handle_first_still_reveals_in_offset_order ::
  "launch_profiles \<Rightarrow> chunk_size_parser \<Rightarrow> bool" where
  "a_response_that_names_the_handle_first_still_reveals_in_offset_order p pcs \<longleftrightarrow>
     (let recv = ok_head @ json_text ''{`username`:`alice`,`id`:`7`}'' in
      x_identity p (\<lambda>session. unwrapped_ok (identity_response pcs recv session) (\<lambda>l.
        tiles l (length recv) \<and> length (reveal l) = 2 \<and>
        at_index (reveal l) 0 (\<lambda>r. reads recv r (json_text ''`username`:`alice`'')) \<and>
        at_index (reveal l) 1 (\<lambda>r. reads recv r (json_text ''`id`:`7`'')))))"

definition the_display_name_beside_a_member_stays_committed ::
  "launch_profiles \<Rightarrow> chunk_size_parser \<Rightarrow> bool" where
  "the_display_name_beside_a_member_stays_committed p pcs \<longleftrightarrow>
     (let recv = ok_head @ json_text ''{`id`:`7`,`name`:`Al`,`username`:`alice`}'' in
      x_identity p (\<lambda>session. unwrapped_ok (identity_response pcs recv session) (\<lambda>l.
        tiles l (length recv) \<and> commit l \<noteq> [] \<and>
        list_all (\<lambda>r. \<not> windows_any (ascii ''Al'') (slice recv r)) (reveal l))))"

definition a_response_naming_a_member_twice_reveals_only_one ::
  "launch_profiles \<Rightarrow> chunk_size_parser \<Rightarrow> bool" where
  "a_response_naming_a_member_twice_reveals_only_one p pcs \<longleftrightarrow>
     (let recv = ok_head @ json_text ''{`id`:`7`,`username`:`victim`,`username`:`alice`}'' in
      x_identity p (\<lambda>session. unwrapped_ok (identity_response pcs recv session) (\<lambda>l.
        tiles l (length recv) \<and>
        sum_list (map (\<lambda>r. windows_count (json_text ''`username`:'') (slice recv r)) (reveal l)) = 1)))"

definition a_missing_member_is_an_error :: "launch_profiles \<Rightarrow> chunk_size_parser \<Rightarrow> bool" where
  "a_missing_member_is_an_error p pcs \<longleftrightarrow>
     x_identity p (\<lambda>session.
       case identity_response pcs (ok_head @ json_text ''{`data`:{`id`:`7`}}'') session of
         Inl (MissingField _) \<Rightarrow> True | _ \<Rightarrow> False)"

definition pretty_body :: bytes where
  "pretty_body = ascii ''{'' @ lf @ json_text ''  `login`: `octocat`,'' @ lf @ json_text ''  `id`: 583231,'' @ lf @
     json_text ''  `node_id`: `x`'' @ lf @ ascii ''}''"

definition pretty_head :: bytes where
  "pretty_head = ascii ''HTTP/1.1 200 OK'' @ crlf @ ascii ''content-type: application/json; charset=utf-8'' @ crlf @
     ascii ''content-length: '' @ ascii (decimal (length pretty_body)) @ crlf @ crlf"

definition github_pretty_prints_and_the_layout_carries_the_whitespace ::
  "launch_profiles \<Rightarrow> chunk_size_parser \<Rightarrow> bool" where
  "github_pretty_prints_and_the_layout_carries_the_whitespace p pcs \<longleftrightarrow>
     (let recv = pretty_head @ pretty_body in
      github_identity p (\<lambda>session. unwrapped_ok (identity_response pcs recv session) (\<lambda>l.
        let revealed = map (slice recv) (reveal l) in
        json_text ''`login`: `octocat`'' \<in> set revealed \<and> json_text ''`id`: 583231,'' \<in> set revealed)))"

lemmas [eval] = type_head_def x_token_session_def x_identity_session_def github_token_session_def
  github_identity_session_def

lemma launch_profiles_okD:
  assumes "launch_profiles_ok p"
  shows "x_token p P = P x_token_session" "x_identity p Q = Q x_identity_session"
    and "github_token p P = P github_token_session" "github_identity p Q = Q github_identity_session"
  using assms
  by (simp_all add: launch_profiles_ok_def x_token_def x_identity_def github_token_def github_identity_def
      unwrapped_def)

section \<open>The tests over a request\<close>

lemma the_x_token_request_is_revealed_whole_holds:
  "launch_profiles_ok p \<Longrightarrow> the_x_token_request_is_revealed_whole p"
  unfolding the_x_token_request_is_revealed_whole_def
  by (simp only: launch_profiles_okD) (simp add: x_token_req_def eval)

lemma the_github_exchange_commits_only_its_secret_holds:
  "launch_profiles_ok p \<Longrightarrow> the_github_exchange_commits_only_its_secret p"
  unfolding the_github_exchange_commits_only_its_secret_def
  by (simp only: launch_profiles_okD) (simp add: github_exchange_req_def eval)

lemma a_missing_secret_is_an_error_not_a_silent_reveal_holds:
  "launch_profiles_ok p \<Longrightarrow> a_missing_secret_is_an_error_not_a_silent_reveal p"
  unfolding a_missing_secret_is_an_error_not_a_silent_reveal_def
  by (simp only: launch_profiles_okD) (simp add: x_token_req_def eval)

lemma identity_request_tests:
  the_identity_request_commits_only_the_bearer a_request_without_the_credential_header_is_an_error
  by (simp_all add: the_identity_request_commits_only_the_bearer_def
      a_request_without_the_credential_header_is_an_error_def eval)

section \<open>The tests over a response\<close>

lemma type_head_body:
  "length (type_head @ raw) \<le> isize_max \<Longrightarrow>
   find_response_body_range (type_head @ raw) = Some (rng (length type_head) (length type_head + length raw))"
  by (simp add: eval)

lemma type_head_no_encoding:
  "plain_object raw \<Longrightarrow> find_header_range (type_head @ raw) (ascii ''Transfer-Encoding'') = None"
proof -
  have "type_head @ raw = join_lines [ascii ''HTTP/1.1 200 OK'', ascii ''content-type: application/json'', []] raw"
    by (simp add: type_head_def join_lines_def)
  then show "plain_object raw \<Longrightarrow> ?thesis"
    by (simp only:) (rule no_encoding_in_lines, assumption,
      auto simp: eval join_lines_def simp del: plain_object_def dest!: plain_object_Cons)
qed

lemmas type_head_plain = plain_response [OF type_head_no_encoding type_head_body, of raw for raw]

lemma x_identity_response:
  "identity_response pcs recv x_identity_session =
     (case in_response pcs recv (ascii ''id'') of
        None \<Rightarrow> Inl (MissingField (ascii ''id''))
      | Some i \<Rightarrow> (case in_response pcs recv (ascii ''username'') of
          None \<Rightarrow> Inl (MissingField (ascii ''username''))
        | Some h \<Rightarrow> Inr (revealing [member_rng i, member_rng h] (length recv))))"
  by (simp add: identity_response_def x_identity_session_def compute_id_snippet_range_def
      compute_field_snippet_range_def split: option.split)

lemma github_identity_response:
  "identity_response pcs recv github_identity_session =
     (case compute_id_snippet_range pcs recv (ascii ''id'') False of
        None \<Rightarrow> Inl (MissingField (ascii ''id''))
      | Some i \<Rightarrow> (case in_response pcs recv (ascii ''login'') of
          None \<Rightarrow> Inl (MissingField (ascii ''login''))
        | Some h \<Rightarrow> Inr (revealing [i, member_rng h] (length recv))))"
  by (simp add: identity_response_def github_identity_session_def compute_field_snippet_range_def
      split: option.split)

lemma an_empty_bearer_is_refused_holds: "an_empty_bearer_is_refused pcs"
proof -
  let ?raw = "json_text ''{`access_token`:``}''"
  have te: "plain_object ?raw" "slice_ok (ok_head @ ?raw)"
    by (simp_all add: eval)
  show ?thesis
    unfolding an_empty_bearer_is_refused_def token_response_def ok_head_plain(1) [OF te(1,2,2)]
    by (simp add: eval shift_member_def)
qed

lemma a_bearer_carrying_structural_bytes_is_committed_whole_holds:
  "a_bearer_carrying_structural_bytes_is_committed_whole pcs"
proof -
  let ?raw = "json_text ''{`access_token`:`gh:u,A}BC`,`token_type`:`bearer`}''"
  have te: "plain_object ?raw" "slice_ok (ok_head @ ?raw)"
    by (simp_all add: eval)
  show ?thesis
    unfolding a_bearer_carrying_structural_bytes_is_committed_whole_def Let_def token_response_def
      ok_head_plain(1) [OF te(1,2,2)]
    by (simp add: eval shift_member_def)
qed

lemma the_token_response_reveals_only_the_two_anchors_holds:
  "the_token_response_reveals_only_the_two_anchors pcs"
proof -
  let ?raw = "json_text ''{`token_type`:`bearer`,`access_token`:`SECRETBEARER`}''"
  have te: "plain_object ?raw" "slice_ok (ok_head @ ?raw)"
    by (simp_all add: eval)
  show ?thesis
    unfolding the_token_response_reveals_only_the_two_anchors_def Let_def token_response_def
      ok_head_plain(1) [OF te(1,2,2)]
    by (simp add: eval shift_member_def)
qed

lemma a_header_cannot_answer_for_the_body_holds: "a_header_cannot_answer_for_the_body pcs"
proof -
  let ?head = "ascii ''HTTP/1.1 200 OK'' @ crlf @ json_text ''x-echo: `access_token`:`decoy`'' @ crlf @ crlf"
  let ?raw = "json_text ''{`access_token`:`real`}''"
  have recv: "ascii ''HTTP/1.1 200 OK'' @ crlf @ json_text ''x-echo: `access_token`:`decoy`'' @ crlf @ crlf @ ?raw
      = ?head @ ?raw" by simp
  have te: "find_header_range (?head @ ?raw) (ascii ''Transfer-Encoding'') = None"
      "find_response_body_range (?head @ ?raw) = Some (rng (length ?head) (length ?head + length ?raw))"
      "slice_ok (?head @ ?raw)"
    by (simp_all add: eval)
  show ?thesis
    unfolding a_header_cannot_answer_for_the_body_def Let_def token_response_def recv plain_response(1) [OF te]
    by (simp add: eval shift_member_def)
qed

lemma the_identity_response_reveals_both_members_whole_holds:
  assumes "launch_profiles_ok p"
  shows "the_identity_response_reveals_both_members_whole p pcs"
proof -
  let ?raw = "json_text ''{`data`:{`id`:`2244994945`,`name`:`Al`,`username`:`alice`}}''"
  have te: "plain_object ?raw" "slice_ok (type_head @ ?raw)"
    by (simp_all add: eval)
  show ?thesis
    unfolding the_identity_response_reveals_both_members_whole_def Let_def launch_profiles_okD [OF assms]
      x_identity_response type_head_plain(1) [OF te(1,2,2)]
    by (simp add: eval shift_member_def)
qed

lemma the_github_identity_response_reveals_the_id_with_its_terminator_holds:
  assumes "launch_profiles_ok p"
  shows "the_github_identity_response_reveals_the_id_with_its_terminator p pcs"
proof -
  let ?raw = "json_text ''{`login`:`octocat`,`id`:583231,`node_id`:`MDQ=`}''"
  have te: "plain_object ?raw" "slice_ok (type_head @ ?raw)"
    by (simp_all add: eval)
  show ?thesis
    unfolding the_github_identity_response_reveals_the_id_with_its_terminator_def Let_def
      launch_profiles_okD [OF assms] github_identity_response type_head_plain [OF te(1,2,2)]
    by (simp add: eval shift_member_def)
qed

lemma a_github_id_closed_by_a_brace_is_revealed_the_same_way_holds:
  assumes "launch_profiles_ok p"
  shows "a_github_id_closed_by_a_brace_is_revealed_the_same_way p pcs"
proof -
  let ?raw = "json_text ''{`login`:`octocat`,`id`:583231}''"
  have te: "plain_object ?raw" "slice_ok (ok_head @ ?raw)"
    by (simp_all add: eval)
  show ?thesis
    unfolding a_github_id_closed_by_a_brace_is_revealed_the_same_way_def Let_def
      launch_profiles_okD [OF assms] github_identity_response ok_head_plain [OF te(1,2,2)]
    by (simp add: eval shift_member_def)
qed

lemma the_two_profiles_do_not_read_each_other_s_responses_holds:
  assumes "launch_profiles_ok p"
  shows "the_two_profiles_do_not_read_each_other_s_responses p pcs"
proof -
  let ?github = "json_text ''{`login`:`octocat`,`id`:583231}''" and ?x = "json_text ''{`id`:`7`,`username`:`alice`}''"
  have te: "plain_object ?github" "slice_ok (ok_head @ ?github)" "plain_object ?x" "slice_ok (ok_head @ ?x)"
    by (simp_all add: eval)
  show ?thesis
    unfolding the_two_profiles_do_not_read_each_other_s_responses_def Let_def launch_profiles_okD [OF assms]
      x_identity_response github_identity_response ok_head_plain [OF te(1,2,2)] ok_head_plain [OF te(3,4,4)]
    by (simp add: eval shift_member_def)
qed

lemma a_response_that_names_the_handle_first_still_reveals_in_offset_order_holds:
  assumes "launch_profiles_ok p"
  shows "a_response_that_names_the_handle_first_still_reveals_in_offset_order p pcs"
proof -
  let ?raw = "json_text ''{`username`:`alice`,`id`:`7`}''"
  have te: "plain_object ?raw" "slice_ok (ok_head @ ?raw)" by (simp_all add: eval)
  show ?thesis
    unfolding a_response_that_names_the_handle_first_still_reveals_in_offset_order_def Let_def
      launch_profiles_okD [OF assms] x_identity_response ok_head_plain(1) [OF te(1,2,2)]
    by (simp add: eval shift_member_def)
qed

lemma the_display_name_beside_a_member_stays_committed_holds:
  assumes "launch_profiles_ok p"
  shows "the_display_name_beside_a_member_stays_committed p pcs"
proof -
  let ?raw = "json_text ''{`id`:`7`,`name`:`Al`,`username`:`alice`}''"
  have te: "plain_object ?raw" "slice_ok (ok_head @ ?raw)" by (simp_all add: eval)
  show ?thesis
    unfolding the_display_name_beside_a_member_stays_committed_def Let_def
      launch_profiles_okD [OF assms] x_identity_response ok_head_plain(1) [OF te(1,2,2)]
    by (simp add: eval shift_member_def)
qed

lemma a_response_naming_a_member_twice_reveals_only_one_holds:
  assumes "launch_profiles_ok p"
  shows "a_response_naming_a_member_twice_reveals_only_one p pcs"
proof -
  let ?raw = "json_text ''{`id`:`7`,`username`:`victim`,`username`:`alice`}''"
  have te: "plain_object ?raw" "slice_ok (ok_head @ ?raw)" by (simp_all add: eval)
  show ?thesis
    unfolding a_response_naming_a_member_twice_reveals_only_one_def Let_def
      launch_profiles_okD [OF assms] x_identity_response ok_head_plain(1) [OF te(1,2,2)]
    by (simp add: eval shift_member_def)
qed

lemma a_missing_member_is_an_error_holds:
  assumes "launch_profiles_ok p"
  shows "a_missing_member_is_an_error p pcs"
proof -
  let ?raw = "json_text ''{`data`:{`id`:`7`}}''"
  have te: "plain_object ?raw" "slice_ok (ok_head @ ?raw)" by (simp_all add: eval)
  show ?thesis
    unfolding a_missing_member_is_an_error_def
      launch_profiles_okD [OF assms] x_identity_response ok_head_plain(1) [OF te(1,2,2)]
    by (simp add: eval shift_member_def)
qed

lemma pretty_head_text:
  "pretty_head = ascii ''HTTP/1.1 200 OK'' @ crlf @ ascii ''content-type: application/json; charset=utf-8'' @ crlf @
     ascii ''content-length: 58'' @ crlf @ crlf"
  by (simp add: pretty_head_def pretty_body_def eval decimal.simps char_of_def bit_iff_odd)

lemma github_pretty_prints_and_the_layout_carries_the_whitespace_holds:
  assumes "launch_profiles_ok p"
  shows "github_pretty_prints_and_the_layout_carries_the_whitespace p pcs"
proof -
  have plain: "plain_object pretty_body" "slice_ok (pretty_head @ pretty_body)"
    by (simp_all add: pretty_body_def pretty_head_text eval)
  have "pretty_head @ pretty_body = join_lines [ascii ''HTTP/1.1 200 OK'',
      ascii ''content-type: application/json; charset=utf-8'', ascii ''content-length: 58'', []] pretty_body"
    by (simp add: pretty_head_text join_lines_def)
  then have "find_header_range (pretty_head @ pretty_body) (ascii ''Transfer-Encoding'') = None"
    by (simp only:) (rule no_encoding_in_lines [OF plain(1)], simp_all add: pretty_body_def eval join_lines_def)
  moreover have "find_response_body_range (pretty_head @ pretty_body)
      = Some (rng (length pretty_head) (length pretty_head + length pretty_body))"
    by (simp add: pretty_head_text pretty_body_def eval)
  ultimately show ?thesis
    unfolding github_pretty_prints_and_the_layout_carries_the_whitespace_def
    by (simp only: Let_def launch_profiles_okD [OF assms] github_identity_response plain_response [OF _ _ plain(2)])
       (simp add: pretty_head_text pretty_body_def eval shift_member_def)
qed

lemma a_bearer_split_by_chunk_framing_is_refused_holds:
  assumes "reads_hex pcs"
  shows "a_bearer_split_by_chunk_framing_is_refused pcs"
proof -
  have "compute_field_snippet_range pcs
      (straddling (json_text ''{`access_token`:`ghu_AA'') (json_text ''BB`,`token_type`:`bearer`}'')) access_token_field = None"
    by (rule straddled_member_is_refused [OF assms, where d = "\<lparr>member_rng = rng 1 26, value_rng = rng 17 25\<rparr>" and
        T = "json_text ''`access_token`:`ghu_AABB`''"])
       (simp_all add: straddling_def eval)
  then show ?thesis
    by (simp add: a_bearer_split_by_chunk_framing_is_refused_def token_response_def compute_field_snippet_range_def)
qed

section \<open>A spaced delimiter, whatever the whitespace\<close>

lemma first_of_an_object:
  assumes "json_ws ws1" and "json_ws ws2" and "quote \<notin> set val"
  shows "first_member (0x7B # member_text field ws1 ws2 val @ post) field [0x7B] ws1 ws2 val post"
proof -
  have "\<not> occurs_at (quoted_key field) (0x7B # member_text field ws1 ws2 val @ post) 0"
    by (simp add: occurs_at_def quoted_key_def)
  then have "\<not> member_start field True (0x7B # member_text field ws1 ws2 val @ post) 0"
    by (simp add: member_start_def member_at_def Let_def)
  with assms show ?thesis by (simp add: first_member_def)
qed

text \<open>
  A token response whose first member is the access token: the delimiter is revealed as it
  was served, whitespace included, and the bearer between the two reveals is committed.
\<close>

lemma token_response_of_object:
  assumes ws: "json_ws ws1" "json_ws ws2" and val: "quote \<notin> set val" "val \<noteq> []"
    and raw: "raw = 0x7B # member_text access_token_field ws1 ws2 val @ post"
    and te: "find_header_range (ok_head @ raw) (ascii ''Transfer-Encoding'') = None" "slice_ok (ok_head @ raw)"
    and k: "k = length ok_head + 1" "h = length (member_head access_token_field ws1 ws2)"
  shows "token_response pcs (ok_head @ raw) =
    Inr (revealing [rng k (k + h), rng (k + h + length val) (k + h + length val + 1)] (length (ok_head @ raw)))"
proof -
  have "in_body raw access_token_field = Some (located 1 access_token_field ws1 ws2 val)"
    using in_body_complete [OF _ first_of_an_object [OF ws val(1), of access_token_field post]] te(2)
    by (simp add: raw)
  then have "in_response pcs (ok_head @ raw) access_token_field =
      Some (shift_member (length ok_head) (located 1 access_token_field ws1 ws2 val))"
    by (simp add: ok_head_response(1) [OF te(1,2,2)])
  then show ?thesis
    using val(2) by (simp add: token_response_def located_def shift_member_def shift_def Let_def span_is_empty_def k
        add.assoc)
qed

lemma spaced_delimiter_is_revealed_if:
  assumes ws: "json_ws ws"
    and te: "find_header_range (ok_head @ ascii ''{'' @ (json_text ''`access_token`'' @ ws @ ascii '':'' @ ws @ json_text ''`'') @
        json_text ''SECRET`}'') (ascii ''Transfer-Encoding'') = None"
    and len: "length ws < 2 ^ 32"
  shows "spaced_delimiter_is_revealed pcs ws"
proof -
  let ?prefix = "json_text ''`access_token`'' @ ws @ ascii '':'' @ ws @ json_text ''`''"
  let ?raw = "ascii ''{'' @ ?prefix @ json_text ''SECRET`}''"
  have prefix: "?prefix = member_head access_token_field ws ws"
    by (simp add: member_head_def quoted_key_def access_token_field_def json_text_def ascii_def)
  have raw: "?raw = 0x7B # member_text access_token_field ws ws (ascii ''SECRET'') @ [0x7D]"
    unfolding prefix by (simp add: member_text_head json_text_def ascii_def)
  have ok: "slice_ok (ok_head @ ?raw)" using len by (simp add: eval)
  let ?k = "length ok_head + 1" and ?h = "length ?prefix"
  let ?n = "length (ok_head @ ?raw)"
  have secret: "length (ascii ''SECRET'') = 6" "quote \<notin> set (ascii ''SECRET'')" "ascii ''SECRET'' \<noteq> []"
    by (simp_all add: ascii_def)
  have l: "token_response pcs (ok_head @ ?raw) = Inr (revealing [rng ?k (?k + ?h), rng (?k + ?h + 6) (?k + ?h + 6 + 1)] ?n)"
    by (rule token_response_of_object [OF ws ws secret(2,3) raw te ok refl arg_cong [OF prefix, of length], unfolded secret(1)])
  have n: "?n = ?k + ?h + 8" by (simp add: json_text_def)
  have tile: "tiles (revealing [rng ?k (?k + ?h), rng (?k + ?h + 6) (?k + ?h + 6 + 1)] ?n) ?n"
    unfolding n by (simp add: eval)
  have rev: "reveal (revealing [rng ?k (?k + ?h), rng (?k + ?h + 6) (?k + ?h + 6 + 1)] ?n) =
      [rng ?k (?k + ?h), rng (?k + ?h + 6) (?k + ?h + 6 + 1)]"
    by (simp add: revealing_def Let_def)
  have mid: "get_range xs (rng a b) = Some mid"
    if "xs = pre @ mid @ post" "a = length pre" "b = a + length mid" for xs pre mid post :: bytes and a b
    using that by (simp add: get_range_def in_slice_def slice_def)
  have cut: "get_range (ok_head @ ?raw) (rng ?k (?k + ?h)) = Some ?prefix"
    by (rule mid [where pre = "ok_head @ ascii ''{''" and post = "json_text ''SECRET`}''"]) simp_all
  have cut_bearer: "get_range (ok_head @ ?raw) (rng (?k + ?h) (?k + ?h + 6)) = Some (ascii ''SECRET'')"
    by (rule mid [where pre = "ok_head @ ascii ''{'' @ ?prefix" and post = "json_text ''`}''"])
       (simp_all, simp_all add: json_text_def ascii_def)
  have cut_quote: "get_range (ok_head @ ?raw) (rng (?k + ?h + 6) (?k + ?h + 6 + 1)) = Some (json_text ''`'')"
    by (rule mid [where pre = "ok_head @ ascii ''{'' @ ?prefix @ ascii ''SECRET''" and post = "ascii ''}''"])
       (simp_all, simp_all add: json_text_def ascii_def)
  show ?thesis
    unfolding spaced_delimiter_is_revealed_def Let_def l unwrapped_ok_def sum.case rev at_index_def reads_def
    using tile cut cut_bearer cut_quote by simp
qed

lemma a_spaced_access_token_delimiter_holds:
  "a_spaced_access_token_delimiter_is_revealed_and_the_bearer_alone_committed pcs"
proof -
  have "spaced_delimiter_is_revealed pcs [0x20]"
    by (rule spaced_delimiter_is_revealed_if) (simp_all add: json_ws_def eval)
  moreover have "spaced_delimiter_is_revealed pcs [0x09]"
    by (rule spaced_delimiter_is_revealed_if) (simp_all add: json_ws_def eval)
  moreover have "spaced_delimiter_is_revealed pcs [0x0D]"
    by (rule spaced_delimiter_is_revealed_if) (simp_all add: json_ws_def eval)
  moreover have "spaced_delimiter_is_revealed pcs [0x0A]"
    by (rule spaced_delimiter_is_revealed_if) (simp_all add: json_ws_def eval)
  moreover have "spaced_delimiter_is_revealed pcs [0x20, 0x09, 0x0D, 0x0A]"
    by (rule spaced_delimiter_is_revealed_if) (simp_all add: json_ws_def eval)
  ultimately show ?thesis
    by (simp add: a_spaced_access_token_delimiter_is_revealed_and_the_bearer_alone_committed_def)
qed

section \<open>The module\<close>

text \<open>
  Every test of the module \<open>tests\<close>, in its order, and the second test of \<open>tables\<close>. The first
  test of \<open>tables\<close> compares constants of two generated crates and reads no code of this one.
\<close>

definition layouts_tests :: "launch_profiles \<Rightarrow> chunk_size_parser \<Rightarrow> bool list" where
  "layouts_tests p pcs =
     [a_spaced_access_token_delimiter_is_revealed_and_the_bearer_alone_committed pcs,
      a_bearer_split_by_chunk_framing_is_refused pcs, an_empty_bearer_is_refused pcs,
      a_bearer_carrying_structural_bytes_is_committed_whole pcs, a_header_cannot_answer_for_the_body pcs,
      the_x_token_request_is_revealed_whole p, the_github_exchange_commits_only_its_secret p,
      a_missing_secret_is_an_error_not_a_silent_reveal p, the_token_response_reveals_only_the_two_anchors pcs,
      the_identity_request_commits_only_the_bearer, a_request_without_the_credential_header_is_an_error,
      the_identity_response_reveals_both_members_whole p pcs,
      the_github_identity_response_reveals_the_id_with_its_terminator p pcs,
      a_github_id_closed_by_a_brace_is_revealed_the_same_way p pcs,
      the_two_profiles_do_not_read_each_other_s_responses p pcs,
      a_response_that_names_the_handle_first_still_reveals_in_offset_order p pcs,
      the_display_name_beside_a_member_stays_committed p pcs,
      a_response_naming_a_member_twice_reveals_only_one p pcs, a_missing_member_is_an_error p pcs,
      github_pretty_prints_and_the_layout_carries_the_whitespace p pcs]"

lemmas token_layout_tests =
  a_spaced_access_token_delimiter_holds an_empty_bearer_is_refused_holds
  a_bearer_carrying_structural_bytes_is_committed_whole_holds a_header_cannot_answer_for_the_body_holds
  the_token_response_reveals_only_the_two_anchors_holds identity_request_tests

lemmas profile_layout_tests =
  the_x_token_request_is_revealed_whole_holds the_github_exchange_commits_only_its_secret_holds
  a_missing_secret_is_an_error_not_a_silent_reveal_holds the_identity_response_reveals_both_members_whole_holds
  the_github_identity_response_reveals_the_id_with_its_terminator_holds
  a_github_id_closed_by_a_brace_is_revealed_the_same_way_holds
  the_two_profiles_do_not_read_each_other_s_responses_holds
  a_response_that_names_the_handle_first_still_reveals_in_offset_order_holds
  the_display_name_beside_a_member_stays_committed_holds
  a_response_naming_a_member_twice_reveals_only_one_holds a_missing_member_is_an_error_holds
  github_pretty_prints_and_the_layout_carries_the_whitespace_holds

text \<open>The four layout constructors pass the crate's own tests, for every chunk-size reader that
  reads hexadecimal headers and every profile table with the launch platforms' fields.\<close>
theorem layouts_tests_pass:
  assumes "launch_profiles_ok p" and "reads_hex pcs"
  shows "list_all (\<lambda>passes. passes) (layouts_tests p pcs)"
  using profile_layout_tests [OF assms(1)] a_bearer_split_by_chunk_framing_is_refused_holds [OF assms(2)]
  by (simp add: layouts_tests_def token_layout_tests)

definition sample_profiles :: launch_profiles where
  "sample_profiles =
     \<lparr>profile_x = \<lparr>prof_token = Some x_token_session, prof_identity = Some x_identity_session\<rparr>,
      profile_github = \<lparr>prof_token = Some github_token_session, prof_identity = Some github_identity_session\<rparr>\<rparr>"

lemma sample_profiles_ok: "launch_profiles_ok sample_profiles"
  by (simp add: launch_profiles_ok_def sample_profiles_def)

theorem layouts_tests_pass_witness:
  "list_all (\<lambda>passes. passes) (layouts_tests sample_profiles hex_chunk_size)"
  by (rule layouts_tests_pass [OF sample_profiles_ok hex_chunk_size_reads_hex])

text \<open>A token answer whose body starts with the access token always gets a layout, however the
  delimiter is spaced and whatever the bearer and the rest of the body are: the delimiter is
  revealed as it was served, the closing quote is revealed, and nothing else.\<close>
theorem token_answer_gets_layout:
  assumes "json_ws ws1" and "json_ws ws2" and "quote \<notin> set bearer" and "bearer \<noteq> []"
    and "raw = 0x7B # member_text access_token_field ws1 ws2 bearer @ post"
    and "find_header_range (ok_head @ raw) (ascii ''Transfer-Encoding'') = None"
    and "length (ok_head @ raw) \<le> isize_max"
  shows "\<exists>a b. token_response pcs (ok_head @ raw) = Inr (revealing [a, b] (length (ok_head @ raw))) \<and>
    slice (ok_head @ raw) a = member_head access_token_field ws1 ws2 \<and>
    slice (ok_head @ raw) (rng (sp_end a) (sp_start b)) = bearer \<and> slice (ok_head @ raw) b = [quote]"
proof -
  let ?k = "length ok_head + 1" and ?h = "length (member_head access_token_field ws1 ws2)"
  let ?xs = "ok_head @ raw" and ?n = "length bearer"
  have xs: "?xs = (ok_head @ [0x7B]) @ member_head access_token_field ws1 ws2 @ bearer @ [quote] @ post"
    by (simp add: assms(5) member_text_head)
  have mid: "slice xs (rng a b) = ys" if "xs = pre @ ys @ rest" "a = length pre" "b = a + length ys"
    for xs pre ys rest :: bytes and a b
    using that by (simp add: slice_append)
  have "slice ?xs (rng ?k (?k + ?h)) = member_head access_token_field ws1 ws2"
    by (rule mid [OF xs]) simp_all
  moreover have "slice ?xs (rng (?k + ?h) (?k + ?h + ?n)) = bearer"
    by (rule mid [where pre = "(ok_head @ [0x7B]) @ member_head access_token_field ws1 ws2" and rest = "[quote] @ post"])
       (simp_all add: xs)
  moreover have "slice ?xs (rng (?k + ?h + ?n) (?k + ?h + ?n + 1)) = [quote]"
    by (rule mid [where pre = "(ok_head @ [0x7B]) @ member_head access_token_field ws1 ws2 @ bearer" and rest = post])
       (simp_all add: xs)
  ultimately show ?thesis
    using token_response_of_object [OF assms(1-7) refl refl, of pcs]
    by (intro exI [of _ "rng ?k (?k + ?h)"] exI [of _ "rng (?k + ?h + ?n) (?k + ?h + ?n + 1)"]) simp
qed

theorem token_answer_gets_layout_witness:
  "\<exists>a b. token_response hex_chunk_size (ok_head @ json_text ''{`access_token` : `gho_1`,`x`:2}'') =
      Inr (revealing [a, b] 51) \<and>
    slice (ok_head @ json_text ''{`access_token` : `gho_1`,`x`:2}'') (rng (sp_end a) (sp_start b)) = ascii ''gho_1''"
proof -
  let ?raw = "json_text ''{`access_token` : `gho_1`,`x`:2}''"
  have raw: "?raw = 0x7B # member_text access_token_field [0x20] [0x20] (ascii ''gho_1'') @ json_text '',`x`:2}''"
    by (simp add: eval)
  have ws: "json_ws [0x20]" by (simp add: json_ws_def is_json_whitespace_def)
  have bearer: "quote \<notin> set (ascii ''gho_1'')" "ascii ''gho_1'' \<noteq> []" by (simp_all add: ascii_def)
  have plain: "plain_object ?raw" "length (ok_head @ ?raw) \<le> isize_max" "length (ok_head @ ?raw) = 51"
    by (simp_all add: eval)
  show ?thesis
    using token_answer_gets_layout [OF ws ws bearer raw ok_head_no_encoding [OF plain(1)] plain(2)]
    unfolding plain(3) by blast
qed

end
