(* ===== verification/Wire.thy ===== *)
theory Wire
  imports Chunked Big_Endian
begin

text \<open>
  \<open>libid-transcript/src/wire.rs\<close>: length-prefixed JSON messages over a byte stream. The
  stream (\<open>tokio\<close>'s \<open>AsyncRead\<close> and \<open>AsyncWrite\<close>) and the codec (\<open>serde_json\<close>) are
  arguments; \<open>byte_stream\<close> is what the stream documents. Lemmas: a message is one frame,
  frames are self-delimiting, and what \<open>read_msg\<close> does on every input.
\<close>

section \<open>The stream\<close>

record 's stream_ops =
  write_all :: "bytes \<Rightarrow> 's \<Rightarrow> (io_error + unit) \<times> 's"
  flush :: "'s \<Rightarrow> (io_error + unit) \<times> 's"
  read_exact :: "nat \<Rightarrow> 's \<Rightarrow> (io_error + bytes) \<times> 's"

text \<open>
  What the code relies on of a stream, with \<open>pending\<close> the bytes in flight before its end: a
  successful write appends, flushing keeps, and an exact read takes the bytes from the
  front or reports the end of the stream.
\<close>

definition byte_stream :: "'s stream_ops \<Rightarrow> ('s \<Rightarrow> bytes) \<Rightarrow> bool" where
  "byte_stream io pending \<longleftrightarrow>
     (\<forall>bs s s'. write_all io bs s = (Inr (), s') \<longrightarrow> pending s' = pending s @ bs) \<and>
     (\<forall>s r s'. flush io s = (r, s') \<longrightarrow> pending s' = pending s) \<and>
     (\<forall>n s. n \<le> length (pending s) \<longrightarrow>
        (\<exists>s'. read_exact io n s = (Inr (take n (pending s)), s') \<and> pending s' = drop n (pending s))) \<and>
     (\<forall>n s. length (pending s) < n \<longrightarrow> fst (read_exact io n s) = Inl UnexpectedEof)"

text \<open>\<open>?\<close> on an I/O result, with the conversion \<open>From<io::Error>\<close>.\<close>

fun try_io :: "(io_error + 'a) \<times> 's \<Rightarrow> ('a \<Rightarrow> 's \<Rightarrow> ('j error + 'b) \<times> 's) \<Rightarrow> ('j error + 'b) \<times> 's" where
  "try_io (Inl e, s) _ = (Inl (Io e), s)"
| "try_io (Inr x, s) f = f x s"

section \<open>Messages\<close>

definition max_msg_size :: nat where
  "max_msg_size = 10 * 1024 * 1024"

record attestation_wire =
  wire_attested_data :: bytes
  wire_notary_signature :: bytes

definition write_msg ::
  "'s stream_ops \<Rightarrow> ('t \<Rightarrow> 'j + bytes) \<Rightarrow> 't \<Rightarrow> 's \<Rightarrow> ('j error + unit) \<times> 's" where
  "write_msg io to_vec msg w =
     (case to_vec msg of
        Inl e \<Rightarrow> (Inl (Json e), w)
      | Inr json \<Rightarrow>
          if length json < 2 ^ 32
          then try_io (write_all io (be_bytes 4 (length json)) w) (\<lambda>_ w1.
               try_io (write_all io json w1) (\<lambda>_ w2.
               try_io (flush io w2) (\<lambda>_ w3. (Inr (), w3))))
          else (Inl (WireProtocol (''message too large to encode: '' @ decimal (length json) @ '' bytes'')), w))"

definition read_msg ::
  "'s stream_ops \<Rightarrow> (bytes \<Rightarrow> 'j + 't) \<Rightarrow> 's \<Rightarrow> ('j error + 't) \<times> 's" where
  "read_msg io from_slice r =
     try_io (read_exact io 4 r) (\<lambda>len_buf r1.
       let len = of_be len_buf in
       if len > max_msg_size
       then (Inl (WireProtocol (''message too large: '' @ decimal len @ '' bytes'')), r1)
       else try_io (read_exact io len r1) (\<lambda>buf r2. (map_err Json (from_slice buf), r2)))"

section \<open>Frames\<close>

definition msg_frame :: "bytes \<Rightarrow> bytes" where
  "msg_frame json = be_bytes 4 (length json) @ json"

definition take_frame :: "bytes \<Rightarrow> (bytes \<times> bytes) option" where
  "take_frame bs = do {
     (n, rest) \<leftarrow> dec_be 4 bs;
     if n > max_msg_size then None else take_exact n rest
   }"

interpretation msg_frame: self_delimiting msg_frame take_frame "\<lambda>json. length json \<le> max_msg_size"
proof unfold_locales
  fix json rest :: bytes
  assume len: "length json \<le> max_msg_size"
  then have "length json < 256 ^ 4" by (simp add: max_msg_size_def)
  then show "take_frame (msg_frame json @ rest) = Some (json, rest)"
    using len by (simp add: take_frame_def msg_frame_def be_count.dec_enc)
qed

text \<open>What reading a message does to the bytes in flight.\<close>

definition read_pending :: "(bytes \<Rightarrow> 'j + 't) \<Rightarrow> bytes \<Rightarrow> ('j error + 't) \<times> bytes option" where
  "read_pending from_slice bs =
     (if length bs < 4 then (Inl (Io UnexpectedEof), None)
      else let n = of_be (take 4 bs) in
        if n > max_msg_size
        then (Inl (WireProtocol (''message too large: '' @ decimal n @ '' bytes'')), Some (drop 4 bs))
        else if length bs < 4 + n then (Inl (Io UnexpectedEof), None)
        else (map_err Json (from_slice (take n (drop 4 bs))), Some (drop (4 + n) bs)))"

lemma read_pending_frame:
  "length json \<le> max_msg_size \<Longrightarrow>
   read_pending from_slice (msg_frame json @ rest) = (map_err Json (from_slice json), Some rest)"
proof -
  assume "length json \<le> max_msg_size"
  then have "length json < 256 ^ 4" by (simp add: max_msg_size_def)
  then have "of_be (be_bytes 4 (length json)) = length json" by (simp add: of_be_be_bytes)
  with \<open>length json \<le> max_msg_size\<close> show ?thesis
    by (simp add: read_pending_def msg_frame_def)
qed

lemma byte_streamD:
  assumes "byte_stream io pending"
  shows "write_all io bs s = (Inr (), s') \<Longrightarrow> pending s' = pending s @ bs"
    and "flush io s = (r, s') \<Longrightarrow> pending s' = pending s"
    and "n \<le> length (pending s) \<Longrightarrow>
      \<exists>s'. read_exact io n s = (Inr (take n (pending s)), s') \<and> pending s' = drop n (pending s)"
    and "length (pending s) < n \<Longrightarrow> \<exists>s'. read_exact io n s = (Inl UnexpectedEof, s')"
  using assms unfolding byte_stream_def by (blast, blast, blast, metis prod.collapse)

lemma try_io_Inr: "try_io r f = (Inr y, s') \<longleftrightarrow> (\<exists>x s. r = (Inr x, s) \<and> f x s = (Inr y, s'))"
  by (cases "(r, f)" rule: try_io.cases) auto

lemma write_msg_frames:
  assumes "byte_stream io pending" and "write_msg io to_vec msg w = (Inr (), w')"
  obtains json where "to_vec msg = Inr json" and "length json < 2 ^ 32" and "pending w' = pending w @ msg_frame json"
  using assms(2) byte_streamD(1,2) [OF assms(1)]
  by (auto simp: write_msg_def try_io_Inr msg_frame_def split: sum.splits if_splits)

lemma read_msg_pending:
  assumes io: "byte_stream io pending"
  shows "fst (read_msg io from_slice s) = fst (read_pending from_slice (pending s))"
    and "snd (read_pending from_slice (pending s)) = Some rest \<Longrightarrow> pending (snd (read_msg io from_slice s)) = rest"
proof -
  have both: "fst (read_msg io from_slice s) = fst (read_pending from_slice (pending s)) \<and>
    (\<forall>rest. snd (read_pending from_slice (pending s)) = Some rest \<longrightarrow> pending (snd (read_msg io from_slice s)) = rest)"
  proof (cases "length (pending s) < 4")
    case True
    with byte_streamD(4) [OF io, of s 4] show ?thesis by (auto simp: read_msg_def read_pending_def)
  next
    case False
    then obtain s1 where s1: "read_exact io 4 s = (Inr (take 4 (pending s)), s1)" "pending s1 = drop 4 (pending s)"
      using byte_streamD(3) [OF io, of 4 s] by auto
    let ?n = "of_be (take 4 (pending s))"
    consider "?n > max_msg_size" | "?n \<le> max_msg_size" "length (pending s) < 4 + ?n"
      | "?n \<le> max_msg_size" "4 + ?n \<le> length (pending s)" by linarith
    then show ?thesis
    proof cases
      case 1
      with False s1 show ?thesis by (simp add: read_msg_def read_pending_def Let_def)
    next
      case 2
      then have "length (pending s1) < ?n" using s1(2) False by simp
      then obtain s2 where "read_exact io ?n s1 = (Inl UnexpectedEof, s2)"
        using byte_streamD(4) [OF io] by blast
      with 2 False s1 show ?thesis by (simp add: read_msg_def read_pending_def Let_def)
    next
      case 3
      then obtain s2 where "read_exact io ?n s1 = (Inr (take ?n (drop 4 (pending s))), s2)"
          "pending s2 = drop ?n (drop 4 (pending s))"
        using byte_streamD(3) [OF io, of ?n s1] s1(2) 3(2) False by (metis diff_add_inverse diff_le_mono length_drop)
      with 3 False s1 show ?thesis by (simp add: read_msg_def read_pending_def Let_def add.commute)
    qed
  qed
  then show "fst (read_msg io from_slice s) = fst (read_pending from_slice (pending s))"
    "snd (read_pending from_slice (pending s)) = Some rest \<Longrightarrow> pending (snd (read_msg io from_slice s)) = rest"
    by auto
qed

lemma list_all2_second: "list_all2 (\<lambda>x y. P y \<and> Q x y) xs ys \<Longrightarrow> \<forall>y \<in> set ys. P y"
  by (induction rule: list_all2_induct) auto

text \<open>Writing several messages, and reading several, one after the other.\<close>

fun write_msgs :: "'s stream_ops \<Rightarrow> ('t \<Rightarrow> 'j + bytes) \<Rightarrow> 't list \<Rightarrow> 's \<Rightarrow> ('j error + unit) \<times> 's" where
  "write_msgs io to_vec [] w = (Inr (), w)"
| "write_msgs io to_vec (m # ms) w =
     (case write_msg io to_vec m w of (Inl e, w') \<Rightarrow> (Inl e, w') | (Inr _, w') \<Rightarrow> write_msgs io to_vec ms w')"

fun read_msgs :: "'s stream_ops \<Rightarrow> (bytes \<Rightarrow> 'j + 't) \<Rightarrow> nat \<Rightarrow> 's \<Rightarrow> ('j error + 't list) \<times> 's" where
  "read_msgs io from_slice 0 r = (Inr [], r)"
| "read_msgs io from_slice (Suc n) r =
     (case read_msg io from_slice r of
        (Inl e, r') \<Rightarrow> (Inl e, r')
      | (Inr m, r') \<Rightarrow> (case read_msgs io from_slice n r' of
           (Inl e, r'') \<Rightarrow> (Inl e, r'')
         | (Inr ms, r'') \<Rightarrow> (Inr (m # ms), r'')))"

lemma write_msgs_frames:
  "byte_stream io pending \<Longrightarrow> write_msgs io to_vec ms w = (Inr (), w') \<Longrightarrow>
   \<exists>jsons. map to_vec ms = map Inr jsons \<and> pending w' = pending w @ concat (map msg_frame jsons)"
proof (induction ms arbitrary: w)
  case Nil
  then show ?case by (intro exI [of _ "[]"]) simp
next
  case (Cons m ms)
  from Cons.prems(2) obtain w1 where w1: "write_msg io to_vec m w = (Inr (), w1)"
      "write_msgs io to_vec ms w1 = (Inr (), w')"
    by (auto split: prod.splits sum.splits)
  from write_msg_frames [OF Cons.prems(1) w1(1)] obtain json
    where json: "to_vec m = Inr json" "pending w1 = pending w @ msg_frame json" by metis
  from Cons.IH [OF Cons.prems(1) w1(2)] obtain jsons where "map to_vec ms = map Inr jsons"
      "pending w' = pending w1 @ concat (map msg_frame jsons)" by blast
  with json show ?case by (intro exI [of _ "json # jsons"]) simp
qed

lemma read_msgs_frames:
  "byte_stream io pending \<Longrightarrow> pending r = concat (map msg_frame jsons) @ rest \<Longrightarrow>
   \<forall>json \<in> set jsons. length json \<le> max_msg_size \<Longrightarrow> map from_slice jsons = map Inr ms \<Longrightarrow>
   \<exists>r'. read_msgs io from_slice (length ms) r = (Inr ms, r') \<and> pending r' = rest"
proof (induction jsons arbitrary: ms r)
  case (Cons json jsons)
  from Cons.prems(4) obtain m ms' where ms: "ms = m # ms'" "from_slice json = Inr m"
      "map from_slice jsons = map Inr ms'" by (cases ms) auto
  obtain r1 where r1: "read_msg io from_slice r = (Inr m, r1)" "pending r1 = concat (map msg_frame jsons) @ rest"
    using read_msg_pending [OF Cons.prems(1), of from_slice r] Cons.prems(2,3) ms(2)
    by (cases "read_msg io from_slice r") (auto simp: read_pending_frame)
  from Cons.IH [OF Cons.prems(1) r1(2) _ ms(3)] Cons.prems(3) obtain r'
    where "read_msgs io from_slice (length ms') r1 = (Inr ms', r')" "pending r' = rest" by auto
  with r1 ms(1) show ?case by auto
qed simp

lemmas [eval] = max_msg_size_def write_msg_def read_msg_def msg_frame_def take_frame_def read_pending_def

section \<open>A stream in memory\<close>

text \<open>A stream that holds what was written and not yet read, as the duplex pipe of the module's tests.\<close>

definition memory_pipe :: "bytes stream_ops" where
  "memory_pipe = \<lparr>
     write_all = (\<lambda>bs s. (Inr (), s @ bs)),
     flush = (\<lambda>s. (Inr (), s)),
     read_exact = (\<lambda>n s. if n \<le> length s then (Inr (take n s), drop n s) else (Inl UnexpectedEof, s))\<rparr>"

lemma memory_pipe_is_stream: "byte_stream memory_pipe (\<lambda>s. s)"
  by (auto simp: byte_stream_def memory_pipe_def)

section \<open>Properties\<close>

lemma wire_roundtrip_iff_within_bound_parts:
  assumes "byte_stream io pending" and "pending w = []"
    and "to_vec msg = Inr json" and "from_slice json = (Inr msg :: 'j + 't)"
    and "write_msg io to_vec msg w = (Inr () :: 'j error + unit, w')"
  shows "fst (read_msg io from_slice w') = Inr msg \<longleftrightarrow> length json \<le> max_msg_size"
    and "max_msg_size < length json \<Longrightarrow>
      fst (read_msg io from_slice w') = Inl (WireProtocol (''message too large: '' @ decimal (length json) @ '' bytes'')) \<and>
      pending (snd (read_msg io from_slice w')) = json"
proof -
  have p: "pending w' = msg_frame json" and len: "length json < 2 ^ 32"
    using write_msg_frames [OF assms(1,5)] assms(2,3) by auto
  have big: "read_pending from_slice (pending w') =
      (Inl (WireProtocol (''message too large: '' @ decimal (length json) @ '' bytes'')), Some json)"
    if "max_msg_size < length json"
    using that len by (simp add: p read_pending_def msg_frame_def of_be_be_bytes)
  have small: "read_pending from_slice (pending w') = (Inr msg, Some [])" if "length json \<le> max_msg_size"
    using read_pending_frame [OF that, of from_slice "[]"] assms(4) by (simp add: p)
  note r = read_msg_pending [OF assms(1), of from_slice w']
  show "fst (read_msg io from_slice w') = Inr msg \<longleftrightarrow> length json \<le> max_msg_size"
    using r(1) big small by (cases "length json \<le> max_msg_size") auto
  show "max_msg_size < length json \<Longrightarrow>
      fst (read_msg io from_slice w') = Inl (WireProtocol (''message too large: '' @ decimal (length json) @ '' bytes'')) \<and>
      pending (snd (read_msg io from_slice w')) = json"
    using r big by simp
qed

text \<open>C38. A message written to a drained stream comes back exactly when its JSON is within
  \<open>MAX_MSG_SIZE\<close>; a longer one, which \<open>write_msg\<close> still sends, is refused by the reader before
  its payload is read.\<close>
theorem wire_roundtrip_iff_within_bound:
  assumes "byte_stream io pending" and "pending w = []"
    and "to_vec msg = Inr json" and "from_slice json = (Inr msg :: 'j + 't)"
    and "write_msg io to_vec msg w = (Inr () :: 'j error + unit, w')"
  shows "if length json \<le> max_msg_size then fst (read_msg io from_slice w') = Inr msg
    else fst (read_msg io from_slice w') = Inl (WireProtocol (''message too large: '' @ decimal (length json) @ '' bytes'')) \<and>
         pending (snd (read_msg io from_slice w')) = json"
  using wire_roundtrip_iff_within_bound_parts [of io pending w to_vec msg json from_slice, OF assms] by (cases "length json \<le> max_msg_size") simp_all


theorem wire_roundtrip_iff_within_bound_witness:
  "fst (read_msg memory_pipe (Inr :: bytes \<Rightarrow> unit + bytes)
     (snd (write_msg memory_pipe (Inr :: bytes \<Rightarrow> unit + bytes) [0x5B, 0x5D] []))) = Inr [0x5B, 0x5D]"
proof -
  have w: "write_msg memory_pipe (Inr :: bytes \<Rightarrow> unit + bytes) [0x5B, 0x5D] [] =
      (Inr () :: unit error + unit, [0, 0, 0, 2, 0x5B, 0x5D])"
    by (simp add: memory_pipe_def eval)
  show ?thesis
    using wire_roundtrip_iff_within_bound
      [of memory_pipe "\<lambda>s. s" "[]" Inr "[0x5B, 0x5D]" "[0x5B, 0x5D]" Inr, OF memory_pipe_is_stream refl refl refl w]
    by (simp add: w max_msg_size_def)
qed

text \<open>C34. Framing survives any sequence: messages written one after the other are read back in
  order, each whole, and reading them consumes exactly what was written.\<close>
theorem wire_sequence_preserves_framing:
  assumes "byte_stream io pending" and "pending w = []"
    and "write_msgs io to_vec msgs w = (Inr () :: 'j error + unit, w')"
    and "\<And>m json. m \<in> set msgs \<Longrightarrow> to_vec m = Inr json \<Longrightarrow>
           length json \<le> max_msg_size \<and> from_slice json = (Inr m :: 'j + 't)"
  shows "\<exists>r. read_msgs io from_slice (length msgs) w' = (Inr msgs, r) \<and> pending r = []"
proof -
  obtain jsons where j: "map to_vec msgs = map Inr jsons" "pending w' = concat (map msg_frame jsons)"
    using write_msgs_frames [OF assms(1,3)] assms(2) by auto
  have "list_all2 (\<lambda>m json. to_vec m = Inr json) msgs jsons"
    using j(1) by (auto simp: list_all2_conv_all_nth list_eq_iff_nth_eq)
  then have l: "list_all2 (\<lambda>m json. length json \<le> max_msg_size \<and> from_slice json = Inr m) msgs jsons"
    by (rule list.rel_mono_strong) (use assms(4) in blast)
  have "map from_slice jsons = map Inr msgs"
    using l by (simp add: list_all2_conv_all_nth list_eq_iff_nth_eq)
  moreover have "\<forall>json \<in> set jsons. length json \<le> max_msg_size"
    by (rule list_all2_second [OF l])
  ultimately show ?thesis using read_msgs_frames [OF assms(1), of w' jsons "[]"] j(2) by simp
qed

theorem wire_sequence_preserves_framing_witness:
  "\<exists>r. read_msgs memory_pipe (Inr :: bytes \<Rightarrow> unit + bytes) 2 [0, 0, 0, 1, 0x31, 0, 0, 0, 1, 0x32] =
     (Inr [[0x31], [0x32]], r)"
proof -
  have w: "write_msgs memory_pipe (Inr :: bytes \<Rightarrow> unit + bytes) [[0x31], [0x32]] [] =
      (Inr () :: unit error + unit, [0, 0, 0, 1, 0x31, 0, 0, 0, 1, 0x32])"
    by (simp add: memory_pipe_def eval)
  show ?thesis
    using wire_sequence_preserves_framing [of memory_pipe "\<lambda>s. s", OF memory_pipe_is_stream refl w, of Inr]
    by (fastforce simp: max_msg_size_def numeral_2_eq_2 simp del: read_msgs.simps)
qed

text \<open>\<open>read_msg\<close> on every stream content: fewer than four bytes or a short payload is the end of
  file, a length over the bound is refused with the four bytes consumed and no payload read,
  and otherwise the decoder is given exactly the announced bytes.\<close>
theorem read_msg_outcomes:
  assumes "byte_stream io pending"
  shows "fst (read_msg io from_slice s) =
     (let bs = pending s; n = of_be (take 4 bs) in
      if length bs < 4 then Inl (Io UnexpectedEof)
      else if n > max_msg_size then Inl (WireProtocol (''message too large: '' @ decimal n @ '' bytes''))
      else if length bs < 4 + n then Inl (Io UnexpectedEof)
      else map_err Json (from_slice (take n (drop 4 bs))))"
  using read_msg_pending(1) [OF assms, of from_slice s] by (simp add: read_pending_def Let_def)

theorem read_msg_outcomes_witness:
  "fst (read_msg memory_pipe (Inr :: bytes \<Rightarrow> unit + bytes) [0, 0xB0, 0, 0]) =
     Inl (WireProtocol ''message too large: 11534336 bytes'')"
  using read_msg_outcomes [OF memory_pipe_is_stream, of "Inr :: bytes \<Rightarrow> unit + bytes" "[0, 0xB0, 0, 0]"]
  by (simp add: max_msg_size_def of_be_def decimal.simps char_of_def bit_iff_odd)

end
