(* ===== verification/Wire_Tests.thy ===== *)
theory Wire_Tests
  imports Wire Test_Text
begin

text \<open>
  The tests of \<open>libid-transcript/src/wire.rs\<close> on the model of \<open>Wire\<close>. The duplex pipe and the
  JSON codec of the tests are arguments: \<open>duplex\<close> is a stream that takes what fits its
  capacity, \<open>serde_codec\<close> a codec that writes a derived struct as a compact object and reads it
  back. Lemma: all of them pass.
\<close>

section \<open>The messages as JSON\<close>

record ping =
  ping_seq :: "32 word"
  ping_payload :: bytes
  ping_note :: bytes

fun joined :: "bytes list \<Rightarrow> bytes" where
  "joined [] = []"
| "joined [n] = n"
| "joined (n # m # ns) = n @ [0x2C] @ joined (m # ns)"

definition json_number :: "nat \<Rightarrow> bytes" where
  "json_number n = ascii (decimal n)"

definition json_bytes :: "bytes \<Rightarrow> bytes" where
  "json_bytes bs = [0x5B] @ joined (map (\<lambda>b. json_number (unat b)) bs) @ [0x5D]"

definition attestation_json :: "attestation_wire \<Rightarrow> bytes" where
  "attestation_json a =
     json_text ''{`attested_data`:'' @ json_bytes (wire_attested_data a) @
     json_text '',`notary_signature`:'' @ json_bytes (wire_notary_signature a) @ ascii ''}''"

text \<open>Of a note without a character JSON escapes, as those of the tests.\<close>

definition ping_json :: "ping \<Rightarrow> bytes" where
  "ping_json p =
     json_text ''{`seq`:'' @ json_number (unat (ping_seq p)) @ json_text '',`payload`:'' @ json_bytes (ping_payload p) @
     json_text '',`note`:`'' @ ping_note p @ json_text ''`}''"

section \<open>The pipe and the codec\<close>

definition duplex :: "'s stream_ops \<Rightarrow> ('s \<Rightarrow> bytes) \<Rightarrow> nat \<Rightarrow> bool" where
  "duplex io pending capacity \<longleftrightarrow> byte_stream io pending \<and>
     (\<forall>bs s. length (pending s) + length bs \<le> capacity \<longrightarrow> (\<exists>s'. write_all io bs s = (Inr (), s'))) \<and>
     (\<forall>s. \<exists>s'. flush io s = (Inr (), s'))"

definition serde_codec :: "('t \<Rightarrow> bytes) \<Rightarrow> ('t \<Rightarrow> 'j + bytes) \<Rightarrow> (bytes \<Rightarrow> 'j + 't) \<Rightarrow> 't list \<Rightarrow> bool" where
  "serde_codec json to_vec from_slice msgs \<longleftrightarrow>
     list_all (\<lambda>m. to_vec m = Inr (json m) \<and> from_slice (json m) = Inr m) msgs"

text \<open>An awaited and unwrapped call, with what follows it.\<close>

definition awaited :: "('e + 'a) \<times> 's \<Rightarrow> ('a \<Rightarrow> 's \<Rightarrow> bool) \<Rightarrow> bool" where
  "awaited r P = (case r of (Inl _, _) \<Rightarrow> False | (Inr x, s) \<Rightarrow> P x s)"

section \<open>The tests\<close>

definition round_trip_msg :: ping where
  "round_trip_msg = \<lparr>ping_seq = 7, ping_payload = [0, 1, 2, 255], ping_note = ascii ''hello notary''\<rparr>"

definition round_trip_test :: "'s stream_ops \<Rightarrow> 's \<Rightarrow> (ping \<Rightarrow> 'j + bytes) \<Rightarrow> (bytes \<Rightarrow> 'j + ping) \<Rightarrow> bool" where
  "round_trip_test io pipe to_vec from_slice \<longleftrightarrow>
     awaited (write_msg io to_vec round_trip_msg pipe) (\<lambda>_ pipe.
     awaited (read_msg io from_slice pipe) (\<lambda>got _. got = round_trip_msg))"

definition sent_record :: attestation_wire where
  "sent_record = \<lparr>wire_attested_data = [0xde, 0xad, 0xbe, 0xef], wire_notary_signature = replicate 65 7\<rparr>"

definition the_notary_record_survives_the_wire ::
  "'s stream_ops \<Rightarrow> 's \<Rightarrow> (attestation_wire \<Rightarrow> 'j + bytes) \<Rightarrow> (bytes \<Rightarrow> 'j + attestation_wire) \<Rightarrow> bool" where
  "the_notary_record_survives_the_wire io pipe to_vec from_slice \<longleftrightarrow>
     awaited (write_msg io to_vec sent_record pipe) (\<lambda>_ pipe.
     awaited (read_msg io from_slice pipe) (\<lambda>got _. got = sent_record))"

definition shaped_record :: attestation_wire where
  "shaped_record = \<lparr>wire_attested_data = [0xde, 0xad, 0xbe, 0xef], wire_notary_signature = [1, 2, 3]\<rparr>"

definition the_record_serialises_to_the_shape_its_readers_expect :: "(attestation_wire \<Rightarrow> 'j + bytes) \<Rightarrow> bool" where
  "the_record_serialises_to_the_shape_its_readers_expect to_vec \<longleftrightarrow>
     unwrapped_ok (to_vec shaped_record) (\<lambda>json.
       json = json_text ''{`attested_data`:[222,173,190,239],`notary_signature`:[1,2,3]}'')"

definition sequence_msg :: "nat \<Rightarrow> ping" where
  "sequence_msg n = \<lparr>ping_seq = of_nat n, ping_payload = replicate (n * 100) (of_nat n),
                     ping_note = ascii (''msg '' @ decimal n)\<rparr>"

definition round_trip_sequence_preserves_framing ::
  "'s stream_ops \<Rightarrow> 's \<Rightarrow> (ping \<Rightarrow> 'j + bytes) \<Rightarrow> (bytes \<Rightarrow> 'j + ping) \<Rightarrow> bool" where
  "round_trip_sequence_preserves_framing io pipe to_vec from_slice \<longleftrightarrow>
     awaited (write_msgs io to_vec (map sequence_msg [0..<3]) pipe) (\<lambda>_ pipe.
     awaited (read_msgs io from_slice 3 pipe) (\<lambda>got _. map ping_seq got = map of_nat [0..<3]))"

definition oversized_length_prefix_is_rejected :: "'s stream_ops \<Rightarrow> 's \<Rightarrow> (bytes \<Rightarrow> 'j + ping) \<Rightarrow> bool" where
  "oversized_length_prefix_is_rejected io pipe from_slice \<longleftrightarrow>
     awaited (write_all io (be_bytes 4 (11 * 1024 * 1024)) pipe) (\<lambda>_ pipe.
     case fst (read_msg io from_slice pipe) of Inl (WireProtocol _) \<Rightarrow> True | _ \<Rightarrow> False)"

definition garbage :: bytes where
  "garbage = [0xff, 0xfe, 0x00, 0x01]"

definition garbage_payload_is_a_json_error :: "'s stream_ops \<Rightarrow> 's \<Rightarrow> (bytes \<Rightarrow> 'j + ping) \<Rightarrow> bool" where
  "garbage_payload_is_a_json_error io pipe from_slice \<longleftrightarrow>
     awaited (write_all io (be_bytes 4 4) pipe) (\<lambda>_ pipe.
     awaited (write_all io garbage pipe) (\<lambda>_ pipe.
     case fst (read_msg io from_slice pipe) of Inl (Json _) \<Rightarrow> True | _ \<Rightarrow> False))"

text \<open>The module: the two pipes of the tests have 64 KiB and 1 KiB.\<close>

definition wire_tests ::
  "'s stream_ops \<Rightarrow> 's \<Rightarrow> 's stream_ops \<Rightarrow> 's \<Rightarrow> (ping \<Rightarrow> 'j + bytes) \<Rightarrow> (bytes \<Rightarrow> 'j + ping) \<Rightarrow>
   (attestation_wire \<Rightarrow> 'j + bytes) \<Rightarrow> (bytes \<Rightarrow> 'j + attestation_wire) \<Rightarrow> bool list" where
  "wire_tests io pipe small small_pipe ping_to ping_from wire_to wire_from =
     [round_trip_test io pipe ping_to ping_from,
      the_notary_record_survives_the_wire io pipe wire_to wire_from,
      the_record_serialises_to_the_shape_its_readers_expect wire_to,
      round_trip_sequence_preserves_framing io pipe ping_to ping_from,
      oversized_length_prefix_is_rejected small small_pipe ping_from,
      garbage_payload_is_a_json_error small small_pipe ping_from]"

section \<open>How long the JSON is\<close>

lemma decimal_length: "n < 10 ^ Suc k \<Longrightarrow> length (decimal n) \<le> Suc k"
proof (induction k arbitrary: n)
  case 0
  then show ?case by (simp add: decimal.simps [of n])
next
  case (Suc k)
  have "length (decimal (n div 10)) \<le> Suc k" using Suc.prems by (intro Suc.IH) (simp add: less_mult_imp_div_less mult.commute)
  then show ?case by (simp add: decimal.simps [of n])
qed

lemma joined_length: "list_all (\<lambda>n. length n \<le> k) ns \<Longrightarrow> length (joined ns) \<le> Suc k * length ns"
  by (induction ns rule: joined.induct) auto

lemma json_bytes_length: "length (json_bytes bs) \<le> 2 + 4 * length bs"
proof -
  have "length (json_number (unat b)) \<le> 3" for b :: byte
    using decimal_length [of "unat b" 2] unsigned_less [of b, where 'a = nat] by (simp add: json_number_def)
  then have "length (joined (map (\<lambda>b. json_number (unat b)) bs)) \<le> Suc 3 * length bs"
    using joined_length [of 3 "map (\<lambda>b. json_number (unat b)) bs"] by (simp add: list_all_iff)
  then show ?thesis by (simp add: json_bytes_def)
qed

lemma attestation_json_length:
  "length (attestation_json a) \<le> 64 + 4 * (length (wire_attested_data a) + length (wire_notary_signature a))"
  using json_bytes_length [of "wire_attested_data a"] json_bytes_length [of "wire_notary_signature a"]
  by (simp add: attestation_json_def json_text_def)

lemma ping_json_length: "length (ping_json p) \<le> 64 + 4 * length (ping_payload p) + length (ping_note p)"
proof -
  have "length (json_number (unat (ping_seq p))) \<le> 10"
    using decimal_length [of "unat (ping_seq p)" 9] unsigned_less [of "ping_seq p", where 'a = nat]
    by (simp add: json_number_def)
  then show ?thesis using json_bytes_length [of "ping_payload p"] by (simp add: ping_json_def json_text_def)
qed

section \<open>They pass\<close>

lemma duplexD:
  assumes "duplex io pending capacity"
  shows "byte_stream io pending"
    and "length (pending s) + length bs \<le> capacity \<Longrightarrow> \<exists>s'. write_all io bs s = (Inr (), s') \<and> pending s' = pending s @ bs"
    and "\<exists>s'. flush io s = (Inr (), s') \<and> pending s' = pending s"
  using assms unfolding duplex_def byte_stream_def by (blast, metis, metis)

lemma write_msg_fits:
  assumes d: "duplex io pending capacity" and to: "to_vec m = Inr json" and len: "length json < 2 ^ 32"
    and room: "length (pending s) + 4 + length json \<le> capacity"
  obtains s' where "write_msg io to_vec m s = (Inr (), s')" and "pending s' = pending s @ msg_frame json"
proof -
  obtain s1 where s1: "write_all io (be_bytes 4 (length json)) s = (Inr (), s1)"
      "pending s1 = pending s @ be_bytes 4 (length json)"
    using duplexD(2) [OF d, of s "be_bytes 4 (length json)"] room by auto
  obtain s2 where s2: "write_all io json s1 = (Inr (), s2)" "pending s2 = pending s1 @ json"
    using duplexD(2) [OF d, of s1 json] room s1(2) by auto
  obtain s3 where s3: "flush io s2 = (Inr (), s3)" "pending s3 = pending s2" using duplexD(3) [OF d] by blast
  show ?thesis
    by (rule that [of s3]) (use to len s1 s2 s3 in \<open>simp_all add: write_msg_def msg_frame_def\<close>)
qed

lemma write_msgs_fit:
  assumes d: "duplex io pending capacity"
  shows "list_all (\<lambda>m. to_vec m = Inr (json m) \<and> length (json m) < 2 ^ 32) ms \<Longrightarrow>
    length (pending s) + (\<Sum>m \<leftarrow> ms. 4 + length (json m)) \<le> capacity \<Longrightarrow>
    \<exists>s'. write_msgs io to_vec ms s = (Inr (), s') \<and> pending s' = pending s @ concat (map (msg_frame \<circ> json) ms)"
proof (induction ms arbitrary: s)
  case (Cons m ms)
  obtain s1 where s1: "write_msg io to_vec m s = (Inr (), s1)" "pending s1 = pending s @ msg_frame (json m)"
    by (rule write_msg_fits [OF d, of to_vec m "json m" s]) (use Cons.prems in auto)
  have "length (pending s1) + (\<Sum>m \<leftarrow> ms. 4 + length (json m)) \<le> capacity"
    using Cons.prems(2) s1(2) by (simp add: msg_frame_def)
  then show ?case using Cons.IH [of s1] Cons.prems(1) s1 by auto
qed simp

lemma messages_cross:
  assumes d: "duplex io pending capacity" and empty: "pending pipe = []"
    and c: "serde_codec json to_vec from_slice ms" and small: "list_all (\<lambda>m. length (json m) \<le> max_msg_size) ms"
    and room: "(\<Sum>m \<leftarrow> ms. 4 + length (json m)) \<le> capacity"
  shows "\<exists>s s'. write_msgs io to_vec ms pipe = (Inr (), s) \<and> read_msgs io from_slice (length ms) s = (Inr ms, s')"
proof -
  have l: "list_all (\<lambda>m. to_vec m = Inr (json m) \<and> length (json m) < 2 ^ 32) ms"
    using c small by (auto simp: serde_codec_def list_all_iff max_msg_size_def)
  obtain s where s: "write_msgs io to_vec ms pipe = (Inr (), s)" "pending s = concat (map msg_frame (map json ms))"
    using write_msgs_fit [OF d l, of pipe] room empty by auto
  have "map from_slice (map json ms) = map Inr ms" using c by (simp add: serde_codec_def list_all_iff)
  moreover have "\<forall>j \<in> set (map json ms). length j \<le> max_msg_size" using small by (simp add: list_all_iff)
  ultimately obtain s' where "read_msgs io from_slice (length ms) s = (Inr ms, s')"
    using read_msgs_frames [OF duplexD(1) [OF d], of s "map json ms" "[]" from_slice ms] s(2) by auto
  with s(1) show ?thesis by blast
qed

lemma message_crosses:
  assumes "duplex io pending capacity" and "pending pipe = []"
    and "serde_codec json to_vec from_slice [m]" and "length (json m) \<le> max_msg_size" and "4 + length (json m) \<le> capacity"
  shows "\<exists>s s'. write_msg io to_vec m pipe = (Inr (), s) \<and> read_msg io from_slice s = (Inr m, s')"
  using messages_cross [OF assms(1-3)] assms(4,5) by (auto split: sum.splits prod.splits)

definition serde_refuses :: "(bytes \<Rightarrow> 'j + 't) \<Rightarrow> bytes \<Rightarrow> bool" where
  "serde_refuses from_slice bs \<longleftrightarrow> (case from_slice bs of Inl _ \<Rightarrow> True | Inr _ \<Rightarrow> False)"

lemma wire_tests_all:
  assumes big: "duplex io pending (64 * 1024)" "pending pipe = []"
    and small: "duplex small held 1024" "held small_pipe = []"
    and ping: "serde_codec ping_json ping_to ping_from (round_trip_msg # map sequence_msg [0..<3])"
    and wire: "serde_codec attestation_json wire_to wire_from [sent_record, shaped_record]"
    and refuses: "serde_refuses ping_from garbage"
  shows "list_all (\<lambda>passes. passes) (wire_tests io pipe small small_pipe ping_to ping_from wire_to wire_from)"
proof -
  have "round_trip_test io pipe ping_to ping_from"
    using message_crosses [OF big, of ping_json ping_to ping_from round_trip_msg] ping ping_json_length [of round_trip_msg]
    by (auto simp: serde_codec_def round_trip_test_def awaited_def max_msg_size_def round_trip_msg_def)
  moreover have "the_notary_record_survives_the_wire io pipe wire_to wire_from"
    using message_crosses [OF big, of attestation_json wire_to wire_from sent_record] wire attestation_json_length [of sent_record]
    by (auto simp: serde_codec_def the_notary_record_survives_the_wire_def awaited_def max_msg_size_def sent_record_def)
  moreover have "the_record_serialises_to_the_shape_its_readers_expect wire_to"
    using wire by (simp add: serde_codec_def the_record_serialises_to_the_shape_its_readers_expect_def shaped_record_def
        attestation_json_def json_bytes_def json_number_def eval decimal.simps char_of_def bit_iff_odd)
  moreover have "round_trip_sequence_preserves_framing io pipe ping_to ping_from"
  proof -
    let ?ms = "map sequence_msg [0..<3]"
    have len: "length (ping_json (sequence_msg n)) \<le> 1000" if "n < 3" for n
      using ping_json_length [of "sequence_msg n"] that decimal_length [of n 0] by (simp add: sequence_msg_def)
    then have "list_all (\<lambda>m. length (ping_json m) \<le> max_msg_size) ?ms"
      by (force simp: list_all_iff max_msg_size_def)
    moreover have "(\<Sum>m \<leftarrow> ?ms. 4 + length (ping_json m)) \<le> 64 * 1024"
      using len [of 0] len [of 1] len [of 2] by (simp add: numeral_3_eq_3 numeral_2_eq_2)
    moreover have "serde_codec ping_json ping_to ping_from ?ms" using ping by (simp add: serde_codec_def)
    ultimately obtain s s' where "write_msgs io ping_to ?ms pipe = (Inr (), s)"
        "read_msgs io ping_from (length ?ms) s = (Inr ?ms, s')"
      using messages_cross [OF big, of ping_json ping_to ping_from ?ms] by blast
    then show ?thesis
      by (simp add: round_trip_sequence_preserves_framing_def awaited_def sequence_msg_def del: read_msgs.simps write_msgs.simps)
  qed
  moreover have "oversized_length_prefix_is_rejected small small_pipe ping_from"
  proof -
    obtain s where s: "write_all small (be_bytes 4 11534336) small_pipe = (Inr (), s)"
        "held s = be_bytes 4 11534336"
      using duplexD(2) [OF small(1), of small_pipe "be_bytes 4 11534336"] small(2) by auto
    have "fst (read_msg small ping_from s) = fst (read_pending ping_from (be_bytes 4 11534336))"
      using read_msg_pending(1) [OF duplexD(1) [OF small(1)], of ping_from s] s(2) by simp
    then show ?thesis
      by (simp add: oversized_length_prefix_is_rejected_def awaited_def s(1) read_pending_def of_be_be_bytes max_msg_size_def)
  qed
  moreover have "garbage_payload_is_a_json_error small small_pipe ping_from"
  proof -
    have "length garbage = 4" by (simp add: garbage_def)
    then have frame: "be_bytes 4 4 @ garbage = msg_frame garbage" by (simp only: msg_frame_def)
    obtain s where s: "write_all small (be_bytes 4 4) small_pipe = (Inr (), s)" "held s = be_bytes 4 4"
      using duplexD(2) [OF small(1), of small_pipe "be_bytes 4 4"] small(2) by auto
    obtain s1 where s1: "write_all small garbage s = (Inr (), s1)" "held s1 = msg_frame garbage"
      using duplexD(2) [OF small(1), of s garbage] s(2) frame by (auto simp: garbage_def)
    have "length garbage \<le> max_msg_size" by (simp add: garbage_def max_msg_size_def)
    then have "fst (read_msg small ping_from s1) = map_err Json (ping_from garbage)"
      using read_msg_pending(1) [OF duplexD(1) [OF small(1)], of ping_from s1] s1(2)
        read_pending_frame [of garbage ping_from "[]"] by simp
    then show ?thesis using refuses
      by (auto simp: garbage_payload_is_a_json_error_def awaited_def s(1) s1(1) serde_refuses_def split: sum.splits)
  qed
  ultimately show ?thesis by (simp add: wire_tests_def)
qed

section \<open>A pipe and a codec\<close>

lemma memory_pipe_duplex: "duplex memory_pipe (\<lambda>s. s) capacity"
  using memory_pipe_is_stream by (simp add: duplex_def memory_pipe_def)

text \<open>A reader of the given messages.\<close>

definition read_one_of :: "('t \<Rightarrow> bytes) \<Rightarrow> 't list \<Rightarrow> bytes \<Rightarrow> unit + 't" where
  "read_one_of json msgs bs = (case find (\<lambda>m. json m = bs) msgs of None \<Rightarrow> Inl () | Some m \<Rightarrow> Inr m)"

lemma read_one_of_codec:
  assumes "inj_on json (set msgs)"
  shows "serde_codec json (\<lambda>m. Inr (json m)) (read_one_of json msgs) msgs"
proof -
  have "find (\<lambda>x. json x = json m) msgs = Some m" if m: "m \<in> set msgs" for m
  proof (cases "find (\<lambda>x. json x = json m) msgs")
    case None
    then show ?thesis using m by (auto simp: find_None_iff)
  next
    case (Some y)
    then have "json y = json m" "y \<in> set msgs" by (auto simp: find_Some_iff)
    then show ?thesis using Some m assms by (auto dest: inj_onD)
  qed
  then show ?thesis by (simp add: serde_codec_def list_all_iff read_one_of_def)
qed

lemma test_pings_apart: "inj_on ping_json (set (round_trip_msg # map sequence_msg [0..<3]))"
proof -
  have "ping_json p ! 7 = json_number (unat (ping_seq p)) ! 0" if "json_number (unat (ping_seq p)) \<noteq> []" for p
    using that by (simp add: ping_json_def json_text_def ascii_def nth_append)
  moreover have "json_number n = [of_char (char_of (48 + n))]" if "n < 10" for n
    using that by (simp add: json_number_def decimal.simps [of n] ascii_def)
  moreover have "of_char (char_of (48 + n)) = (48 + of_nat n :: byte)" if "n < 10" for n
  proof -
    have "(of_char (char_of (48 + n)) :: byte) = of_nat (of_char (char_of (48 + n)))" by (rule of_nat_of_char [symmetric])
    then show ?thesis using that by simp
  qed
  ultimately have digit: "ping_json p ! 7 = 48 + of_nat (unat (ping_seq p))" if "unat (ping_seq p) < 10" for p
    using that by simp
  have "inj_on ((\<lambda>j. j ! 7) \<circ> ping_json) (set (round_trip_msg # map sequence_msg [0..<3]))"
    by (auto simp: inj_on_def digit round_trip_msg_def sequence_msg_def unat_of_nat numeral_3_eq_3 less_Suc_eq)
  then show ?thesis by (rule inj_on_imageI2)
qed

lemma test_records_apart: "inj_on attestation_json (set [sent_record, shaped_record])"
proof -
  have "replicate 65 (7 :: byte) = 7 # 7 # replicate 63 7" by (simp add: numeral_eq_Suc)
  then have "attestation_json sent_record \<noteq> attestation_json shaped_record"
    by (simp add: attestation_json_def sent_record_def shaped_record_def json_bytes_def json_number_def
        eval decimal.simps char_of_def bit_iff_odd)
  then show ?thesis by (auto simp: inj_on_def)
qed

lemma garbage_is_no_ping: "serde_refuses (read_one_of ping_json msgs) garbage"
proof -
  have "ping_json p \<noteq> garbage" for p
    by (simp add: ping_json_def garbage_def json_text_def ascii_def)
  then show ?thesis by (simp add: serde_refuses_def read_one_of_def find_None_iff [THEN iffD2])
qed

lemma wire_tests_instance:
  "list_all (\<lambda>passes. passes)
     (wire_tests memory_pipe [] memory_pipe []
        (\<lambda>m. Inr (ping_json m)) (read_one_of ping_json (round_trip_msg # map sequence_msg [0..<3]))
        (\<lambda>a. Inr (attestation_json a)) (read_one_of attestation_json [sent_record, shaped_record]))"
  by (rule wire_tests_all [OF memory_pipe_duplex refl memory_pipe_duplex refl read_one_of_codec [OF test_pings_apart]
        read_one_of_codec [OF test_records_apart] garbage_is_no_ping])

end
