(* ===== verification/Attestation_Tests.thy ===== *)
theory Attestation_Tests
  imports Attestation Test_Text
begin

text \<open>
  The tests of \<open>libid-ceremony/src/attestation.rs\<close> on the model of \<open>Attestation\<close>, for every
  writer that is big-endian and fixed-width and every hash. A literal the source spells in
  hex is the bytes it spells. Lemmas: all of them pass, whatever the hash, where it has the
  two published values and does not collide on the records the tests compare.
\<close>

section \<open>The records of the tests\<close>

definition sample_attested :: "(bytes \<Rightarrow> bytes) \<Rightarrow> attested_data" where
  "sample_attested keccak256 =
     \<lparr>authority_id = authority_id_of keccak256 (ascii ''api.x.com''), created_at = 1770000000,
      sent_transcript_length = 60, recv_transcript_length = 40,
      sent_block =
        \<lparr>blk_revealed = [\<lparr>rev_start = 0, rev_bytes = replicate 20 0x61\<rparr>, \<lparr>rev_start = 40, rev_bytes = replicate 20 0x62\<rparr>],
         blk_commitments = [\<lparr>com_start = 20, com_end = 40, com_commitment = replicate 32 7\<rparr>]\<rparr>,
      received_block =
        \<lparr>blk_revealed = [\<lparr>rev_start = 0, rev_bytes = replicate 10 0x63\<rparr>],
         blk_commitments = [\<lparr>com_start = 10, com_end = 40, com_commitment = replicate 32 9\<rparr>]\<rparr>\<rparr>"

definition cross_language_digest :: bytes where
  "cross_language_digest =
     [0x48, 0x16, 0x2f, 0x05, 0xbd, 0xb2, 0x7b, 0x19, 0xb3, 0x54, 0x4b, 0xf2, 0xaa, 0xe6, 0x08, 0x74,
      0x58, 0x61, 0xbf, 0x35, 0x7b, 0xb3, 0x1e, 0x07, 0xf5, 0x36, 0xb6, 0xfb, 0x50, 0xe9, 0x59, 0x36]"

text \<open>What \<open>data.sent.revealed[0]\<close> and \<open>data.sent.commitments[0]\<close> are assigned.\<close>

definition edit_sent :: "(direction_block \<Rightarrow> direction_block) \<Rightarrow> attested_data \<Rightarrow> attested_data" where
  "edit_sent f d = d\<lparr>sent_block := f (sent_block d)\<rparr>"

definition edit_first_revealed :: "(bytes \<Rightarrow> bytes) \<Rightarrow> direction_block \<Rightarrow> direction_block" where
  "edit_first_revealed f b =
     b\<lparr>blk_revealed := (blk_revealed b)[0 := (blk_revealed b ! 0)\<lparr>rev_bytes := f (rev_bytes (blk_revealed b ! 0))\<rparr>]\<rparr>"

definition move_first_commitment :: "32 word \<Rightarrow> direction_block \<Rightarrow> direction_block" where
  "move_first_commitment s b =
     b\<lparr>blk_commitments := (blk_commitments b)[0 := (blk_commitments b ! 0)\<lparr>com_start := s\<rparr>]\<rparr>"

definition header_mutations :: "(attested_data \<Rightarrow> attested_data) list" where
  "header_mutations =
     [\<lambda>d. d\<lparr>authority_id := (authority_id d)[0 := xor (authority_id d ! 0) 1]\<rparr>,
      \<lambda>d. d\<lparr>created_at := created_at d + 1\<rparr>]"

definition token_shaped :: "attested_data \<Rightarrow> attested_data" where
  "token_shaped = edit_sent (edit_first_revealed (\<lambda>_. ascii ''POST /2/oauth2/token ''))"

definition boundary_moved :: "attested_data \<Rightarrow> attested_data" where
  "boundary_moved = edit_sent (move_first_commitment 19 \<circ> edit_first_revealed butlast)"

section \<open>The tests\<close>

definition agrees_with_the_solidity_decoder_test :: "'e bincode \<Rightarrow> (bytes \<Rightarrow> bytes) \<Rightarrow> bool" where
  "agrees_with_the_solidity_decoder_test cfg keccak256 \<longleftrightarrow>
     encode_attested cfg (sample_attested keccak256) = Inr fixture_bytes \<and>
     attested_digest cfg keccak256 (sample_attested keccak256) = Inr cross_language_digest"

definition the_authority_is_hashed_in_one_canonical_spelling :: "(bytes \<Rightarrow> bytes) \<Rightarrow> bool" where
  "the_authority_is_hashed_in_one_canonical_spelling keccak256 \<longleftrightarrow>
     authority_id_of keccak256 (ascii ''API.X.com'') = authority_id_of keccak256 (ascii ''api.x.com'')"

definition empty_block :: direction_block where
  "empty_block = \<lparr>blk_revealed = [], blk_commitments = []\<rparr>"

definition header_is_one_hundred_and_forty_four_bytes :: "'e bincode \<Rightarrow> (bytes \<Rightarrow> bytes) \<Rightarrow> bool" where
  "header_is_one_hundred_and_forty_four_bytes cfg keccak256 \<longleftrightarrow>
     (let data = (sample_attested keccak256)\<lparr>sent_block := empty_block, received_block := empty_block,
                   sent_transcript_length := 0, recv_transcript_length := 0\<rparr> in
      unwrapped_ok (encode_attested cfg data) (\<lambda>bs. length bs = header_len + 4 * 8) \<and> header_len = 48)"

definition digests_differ :: "'e bincode \<Rightarrow> (bytes \<Rightarrow> bytes) \<Rightarrow> attested_data \<Rightarrow> attested_data \<Rightarrow> bool" where
  "digests_differ cfg keccak256 a b \<longleftrightarrow>
     unwrapped_ok (attested_digest cfg keccak256 a) (\<lambda>x. unwrapped_ok (attested_digest cfg keccak256 b) (\<lambda>y. x \<noteq> y))"

definition every_header_field_changes_the_digest :: "'e bincode \<Rightarrow> (bytes \<Rightarrow> bytes) \<Rightarrow> bool" where
  "every_header_field_changes_the_digest cfg keccak256 \<longleftrightarrow>
     list_all (\<lambda>mutate. digests_differ cfg keccak256 (mutate (sample_attested keccak256)) (sample_attested keccak256))
       header_mutations"

definition two_sessions_of_one_ceremony_are_not_interchangeable :: "'e bincode \<Rightarrow> (bytes \<Rightarrow> bytes) \<Rightarrow> bool" where
  "two_sessions_of_one_ceremony_are_not_interchangeable cfg keccak256 \<longleftrightarrow>
     digests_differ cfg keccak256 (token_shaped (sample_attested keccak256)) (sample_attested keccak256)"

definition a_shifted_boundary_cannot_produce_one_preimage :: "'e bincode \<Rightarrow> (bytes \<Rightarrow> bytes) \<Rightarrow> bool" where
  "a_shifted_boundary_cannot_produce_one_preimage cfg keccak256 \<longleftrightarrow>
     digests_differ cfg keccak256 (boundary_moved (sample_attested keccak256)) (sample_attested keccak256)"

definition attestation_tests :: "'e bincode \<Rightarrow> (bytes \<Rightarrow> bytes) \<Rightarrow> bool list" where
  "attestation_tests cfg keccak256 =
     [agrees_with_the_solidity_decoder_test cfg keccak256,
      the_authority_is_hashed_in_one_canonical_spelling keccak256,
      header_is_one_hundred_and_forty_four_bytes cfg keccak256,
      every_header_field_changes_the_digest cfg keccak256,
      two_sessions_of_one_ceremony_are_not_interchangeable cfg keccak256,
      a_shifted_boundary_cannot_produce_one_preimage cfg keccak256]"

section \<open>They pass\<close>

text \<open>The records whose digests the tests compare.\<close>

definition compared_records :: "attested_data set" where
  "compared_records = insert fixture_record
     ((\<lambda>mutate. mutate fixture_record) ` set (token_shaped # boundary_moved # header_mutations))"

text \<open>The published values of Keccak-256, and that it keeps the compared records apart.\<close>

definition keccak_vectors :: "(bytes \<Rightarrow> bytes) \<Rightarrow> bool" where
  "keccak_vectors keccak256 \<longleftrightarrow> keccak256 (ascii ''api.x.com'') = fixture_id \<and>
     keccak256 fixture_bytes = cross_language_digest \<and> inj_on keccak256 (lay_attested ` compared_records)"

lemma sample_is_fixture: "keccak_vectors keccak256 \<Longrightarrow> sample_attested keccak256 = fixture_record"
proof -
  have "map to_ascii_lowercase (ascii ''api.x.com'') = ascii ''api.x.com''" by (simp add: eval)
  then show "keccak_vectors keccak256 \<Longrightarrow> sample_attested keccak256 = fixture_record"
    by (simp add: sample_attested_def fixture_record_def authority_id_of_def keccak_vectors_def)
qed

lemma digests_differ_if:
  assumes "big_endian_fixint cfg" and "keccak_vectors keccak256"
    and "a \<in> compared_records" and "b \<in> compared_records" and "wf_attested a" and "wf_attested b" and "a \<noteq> b"
  shows "digests_differ cfg keccak256 a b"
proof -
  have "lay_attested a \<noteq> lay_attested b" using attested.enc_inj [OF assms(5,6)] assms(7) by blast
  then have "keccak256 (lay_attested a) \<noteq> keccak256 (lay_attested b)"
    using assms(2-4) by (auto simp: keccak_vectors_def dest: inj_onD)
  then show ?thesis
    by (simp add: digests_differ_def attested_digest_def encode_attested_lay [OF assms(1)] assms(5,6) unwrapped_ok_def)
qed

lemma mutated_records:
  shows "mutate \<in> set header_mutations \<Longrightarrow> mutate fixture_record \<noteq> fixture_record \<and> wf_attested (mutate fixture_record)"
    and "token_shaped fixture_record \<noteq> fixture_record \<and> wf_attested (token_shaped fixture_record)"
    and "boundary_moved fixture_record \<noteq> fixture_record \<and> wf_attested (boundary_moved fixture_record)"
proof -
  note defs = fixture_record_def fixture_id_def wf_attested_def wf_block_def wf_revealed_def wf_commitment_def isize_max_def
  show "mutate fixture_record \<noteq> fixture_record \<and> wf_attested (mutate fixture_record)" if "mutate \<in> set header_mutations"
    using that by (auto simp: header_mutations_def defs)
  show "token_shaped fixture_record \<noteq> fixture_record \<and> wf_attested (token_shaped fixture_record)"
    by (simp add: token_shaped_def edit_sent_def edit_first_revealed_def defs ascii_def)
       (rule notI, drule arg_cong [where f = hd], simp)
  show "boundary_moved fixture_record \<noteq> fixture_record \<and> wf_attested (boundary_moved fixture_record)"
    by (simp add: boundary_moved_def edit_sent_def edit_first_revealed_def move_first_commitment_def defs)
qed

lemma attestation_tests_all:
  assumes cfg: "big_endian_fixint cfg" and k: "keccak_vectors keccak256"
  shows "list_all (\<lambda>passes. passes) (attestation_tests cfg keccak256)"
proof -
  note sample = sample_is_fixture [OF k]
  have base: "fixture_record \<in> compared_records" by (simp add: compared_records_def)
  have differ: "digests_differ cfg keccak256 (mutate fixture_record) fixture_record"
    if "mutate \<in> set (token_shaped # boundary_moved # header_mutations)" for mutate
  proof -
    have "mutate fixture_record \<in> compared_records" using that unfolding compared_records_def by blast
    moreover have "mutate fixture_record \<noteq> fixture_record \<and> wf_attested (mutate fixture_record)"
      using that mutated_records by auto
    ultimately show ?thesis using digests_differ_if [OF cfg k _ base _ fixture_wf] by blast
  qed
  have "encode_attested cfg fixture_record = Inr fixture_bytes"
    using agrees_with_the_solidity_decoder encode_attested_lay [OF wire_config_fixint fixture_wf]
      encode_attested_lay [OF cfg fixture_wf] by simp
  then have "agrees_with_the_solidity_decoder_test cfg keccak256"
    using k by (simp add: agrees_with_the_solidity_decoder_test_def sample attested_digest_def keccak_vectors_def)
  moreover have "the_authority_is_hashed_in_one_canonical_spelling keccak256"
    by (simp add: the_authority_is_hashed_in_one_canonical_spelling_def eval)
  moreover have "header_is_one_hundred_and_forty_four_bytes cfg keccak256"
  proof -
    have "slice_ok ([] :: byte list)" by (simp add: isize_max_def)
    then show ?thesis using cfg
      by (simp add: header_is_one_hundred_and_forty_four_bytes_def sample encode_attested_def empty_block_def header_len_def
          encode_direction_block_def encode_vec_def big_endian_fixint_def unwrapped_ok_def fixture_record_def fixture_id_def)
  qed
  moreover have "every_header_field_changes_the_digest cfg keccak256"
    unfolding every_header_field_changes_the_digest_def sample list_all_iff using differ by simp
  ultimately show ?thesis
    using differ by (simp add: attestation_tests_def two_sessions_of_one_ceremony_are_not_interchangeable_def
        a_shifted_boundary_cannot_produce_one_preimage_def sample)
qed

text \<open>A hash with the published values: on other bytes, the ones the compared records differ in.\<close>

definition vector_hash :: "bytes \<Rightarrow> bytes" where
  "vector_hash bs =
     (if bs = ascii ''api.x.com'' then fixture_id
      else if bs = fixture_bytes then cross_language_digest
      else [bs ! 67, bs ! 0, bs ! 39] @ replicate 29 0)"

lemma vector_hash_vectors: "keccak_vectors vector_hash"
proof -
  have lay: "lay_attested fixture_record = fixture_bytes"
    using agrees_with_the_solidity_decoder encode_attested_lay [OF wire_config_fixint fixture_wf] by simp
  have other: "vector_hash (lay_attested (mutate fixture_record)) =
      [lay_attested (mutate fixture_record) ! 67, lay_attested (mutate fixture_record) ! 0,
       lay_attested (mutate fixture_record) ! 39] @ replicate 29 0"
    if m: "mutate \<in> set (token_shaped # boundary_moved # header_mutations)" for mutate
  proof -
    have ne: "mutate fixture_record \<noteq> fixture_record" and wf: "wf_attested (mutate fixture_record)"
      using m mutated_records by auto
    then have "lay_attested (mutate fixture_record) \<noteq> fixture_bytes"
      using attested.enc_inj [OF _ fixture_wf] lay by metis
    moreover have "9 < length (lay_attested (mutate fixture_record))"
      using wf by (simp add: lay_attested_def wf_attested_def)
    then have "lay_attested (mutate fixture_record) \<noteq> ascii ''api.x.com''" by (auto simp: ascii_def)
    ultimately show ?thesis by (simp add: vector_hash_def)
  qed
  have hashed: "vector_hash (lay_attested (mutate fixture_record)) = [x, y, z] @ replicate 29 0"
    if "mutate \<in> set (token_shaped # boundary_moved # header_mutations)"
      and "length (authority_id (mutate fixture_record)) = 32"
      and "blk_revealed (sent_block (mutate fixture_record)) \<noteq> []"
      and "be_bytes 8 (length (rev_bytes (hd (blk_revealed (sent_block (mutate fixture_record)))))) ! 7 = x"
      and "authority_id (mutate fixture_record) ! 0 = y"
      and "be_bytes 8 (unat (created_at (mutate fixture_record))) ! 7 = z" for mutate x y z
    using that(2-) unfolding other [OF that(1)]
    by (cases "blk_revealed (sent_block (mutate fixture_record))")
       (simp_all add: lay_attested_def lay_block_def lay_vec_def lay_revealed_def nth_append)
  note defs = fixture_record_def fixture_id_def ascii_def edit_sent_def edit_first_revealed_def
  have token: "vector_hash (lay_attested (token_shaped fixture_record)) = [21, 0x49, 0x80] @ replicate 29 0"
    by (rule hashed, simp) (simp_all add: token_shaped_def defs eval)
  have moved: "vector_hash (lay_attested (boundary_moved fixture_record)) = [19, 0x49, 0x80] @ replicate 29 0"
    by (rule hashed, simp) (simp_all add: boundary_moved_def move_first_commitment_def defs eval)
  obtain m1 m2 where ms: "header_mutations = [m1, m2]"
      "\<And>d. m1 d = d\<lparr>authority_id := (authority_id d)[0 := xor (authority_id d ! 0) 1]\<rparr>"
      "\<And>d. m2 d = d\<lparr>created_at := created_at d + 1\<rparr>"
    by (simp add: header_mutations_def)
  have h1: "vector_hash (lay_attested (m1 fixture_record)) = [20, 0x48, 0x80] @ replicate 29 0"
    by (rule hashed, simp add: ms(1)) (simp_all add: ms defs eval)
  have h2: "vector_hash (lay_attested (m2 fixture_record)) = [20, 0x49, 0x81] @ replicate 29 0"
    by (rule hashed, simp add: ms(1)) (simp_all add: ms defs eval)
  have base: "vector_hash fixture_bytes = cross_language_digest"
    by (simp add: vector_hash_def fixture_bytes_def fixture_id_def ascii_def)
  have "inj_on vector_hash (lay_attested ` compared_records)"
    unfolding compared_records_def ms(1) by (simp add: inj_on_def lay token moved h1 h2 base cross_language_digest_def)
  then show ?thesis using base by (simp add: keccak_vectors_def vector_hash_def)
qed

lemma attestation_tests_instance: "list_all (\<lambda>passes. passes) (attestation_tests wire_config vector_hash)"
  by (rule attestation_tests_all [OF wire_config_fixint vector_hash_vectors])

end
