(* ===== verification/Token_Exchange_Tests.thy ===== *)
theory Token_Exchange_Tests
  imports Token_Exchange Test_Text
begin

text \<open>
  The tests of \<open>libid-ceremony/src/token_exchange.rs\<close>, each a definition of the conjunction of
  its assertions, on the model of \<open>Token_Exchange\<close>. Lemma: all of them pass.
\<close>

section \<open>The records of the tests\<close>

definition test_request :: token_request_record where
  "test_request = \<lparr>code = ascii ''abc123'',
     code_verifier = ascii ''5teBDl6cz4U77aFweV5PbMhBJ_lEFv6LLNKzqnDI5lo''\<rparr>"

definition test_response :: token_response_record where
  "test_response = \<lparr>access_token = ascii ''gho_abc123'',
     attestation_of = \<lparr>attested_bytes = replicate 10 0, signature = replicate signature_len 0\<rparr>,
     bearer_opening = replicate bearer_opening_len 0\<rparr>"

section \<open>Requests\<close>

definition accepts_a_well_formed_request :: bool where
  "accepts_a_well_formed_request \<longleftrightarrow> validate_request test_request = Inr ()"

definition accepts_a_well_formed_response :: bool where
  "accepts_a_well_formed_response \<longleftrightarrow> validate_response test_response = Inr ()"

definition the_published_verifier_is_the_right_shape :: bool where
  "the_published_verifier_is_the_right_shape \<longleftrightarrow>
     length (code_verifier test_request) = code_verifier_len \<and> validate_request test_request = Inr ()"

definition refuses_an_empty_or_over_long_code :: bool where
  "refuses_an_empty_or_over_long_code \<longleftrightarrow>
     validate_request (test_request\<lparr>code := []\<rparr>) = Inl EmptyCode \<and>
     validate_request (test_request\<lparr>code := replicate (max_code_bytes + 1) 0x61\<rparr>)
       = Inl (CodeTooLong (max_code_bytes + 1))"

definition refuses_whitespace_and_control_bytes_in_a_code :: bool where
  "refuses_whitespace_and_control_bytes_in_a_code \<longleftrightarrow>
     list_all (\<lambda>bad. case validate_request (test_request\<lparr>code := bad\<rparr>) of Inl (CodeNotPrintable _) \<Rightarrow> True | _ \<Rightarrow> False)
       [ascii ''ab cd'', ascii ''ab'' @ [0x09] @ ascii ''cd'', ascii ''ab'' @ lf @ ascii ''cd'',
        ascii ''ab'' @ [0] @ ascii ''cd'']"

definition refuses_a_verifier_of_the_wrong_length_or_charset :: bool where
  "refuses_a_verifier_of_the_wrong_length_or_charset \<longleftrightarrow>
     list_all (\<lambda>bad. validate_request (test_request\<lparr>code_verifier := bad\<rparr>) = Inl MalformedCodeVerifier)
       [ascii ''short'',
        ascii ''5teBDl6cz4U77aFweV5PbMhBJ_lEFv6LLNKzqnDI5l'',
        ascii ''5teBDl6cz4U77aFweV5PbMhBJ_lEFv6LLNKzqnDI5loo'',
        ascii ''5teBDl6cz4U77aFweV5PbMhBJ+lEFv6LLNKzqnDI5lo'',
        ascii ''5teBDl6cz4U77aFweV5PbMhBJ/lEFv6LLNKzqnDI5lo'']"

section \<open>Responses\<close>

definition refuses_an_empty_or_over_long_access_token :: bool where
  "refuses_an_empty_or_over_long_access_token \<longleftrightarrow>
     validate_response (test_response\<lparr>access_token := []\<rparr>) = Inl EmptyAccessToken \<and>
     validate_response (test_response\<lparr>access_token := replicate (max_access_token_bytes + 1) 0x74\<rparr>)
       = Inl (AccessTokenTooLong (max_access_token_bytes + 1))"

definition refuses_whitespace_and_control_bytes_in_an_access_token :: bool where
  "refuses_whitespace_and_control_bytes_in_an_access_token \<longleftrightarrow>
     list_all (\<lambda>bad. case validate_response (test_response\<lparr>access_token := bad\<rparr>) of
                       Inl (AccessTokenNotPrintable _) \<Rightarrow> True | _ \<Rightarrow> False)
       [ascii ''gho_ab cd'', ascii ''gho_ab'' @ [0x09] @ ascii ''cd'', ascii ''gho_ab'' @ crlf @ ascii ''cd'',
        ascii ''gho_ab'' @ [0] @ ascii ''cd'']"

text \<open>The record with another attestation, as an assignment to a field of the nested struct.\<close>

definition with_attested :: "bytes \<Rightarrow> token_response_record" where
  "with_attested bs = test_response\<lparr>attestation_of := attestation_of test_response\<lparr>attested_bytes := bs\<rparr>\<rparr>"

definition with_signature :: "bytes \<Rightarrow> token_response_record" where
  "with_signature bs = test_response\<lparr>attestation_of := attestation_of test_response\<lparr>signature := bs\<rparr>\<rparr>"

definition refuses_an_empty_or_over_long_attested_data :: bool where
  "refuses_an_empty_or_over_long_attested_data \<longleftrightarrow>
     validate_response (with_attested []) = Inl EmptyAttestedData \<and>
     (case validate_response (with_attested (replicate (max_attested_data_bytes + 1) 0)) of
        Inl (AttestedDataTooLong _) \<Rightarrow> True | _ \<Rightarrow> False)"

definition refuses_a_signature_that_is_not_exactly_recoverable_length :: bool where
  "refuses_a_signature_that_is_not_exactly_recoverable_length \<longleftrightarrow>
     list_all (\<lambda>len. validate_response (with_signature (replicate len 0)) = Inl (SignatureWrongLength len))
       [0, signature_len - 1, signature_len + 1]"

definition refuses_an_opening_that_is_not_exactly_what_the_circuit_opens :: bool where
  "refuses_an_opening_that_is_not_exactly_what_the_circuit_opens \<longleftrightarrow>
     list_all (\<lambda>len. validate_response (test_response\<lparr>bearer_opening := replicate len 0\<rparr>)
                       = Inl (BearerOpeningWrongLength len))
       [0, bearer_opening_len - 1, bearer_opening_len + 1, 256]"

section \<open>The module\<close>

definition token_exchange_tests :: "bool list" where
  "token_exchange_tests =
     [accepts_a_well_formed_request, accepts_a_well_formed_response,
      the_published_verifier_is_the_right_shape, refuses_an_empty_or_over_long_code,
      refuses_whitespace_and_control_bytes_in_a_code, refuses_a_verifier_of_the_wrong_length_or_charset,
      refuses_an_empty_or_over_long_access_token, refuses_whitespace_and_control_bytes_in_an_access_token,
      refuses_an_empty_or_over_long_attested_data, refuses_a_signature_that_is_not_exactly_recoverable_length,
      refuses_an_opening_that_is_not_exactly_what_the_circuit_opens]"

lemma test_token_unprintable: "first_unprintable (access_token test_response) = None"
  by (simp add: test_response_def eval)

lemma test_token_bound: "access_token test_response \<noteq> []" "length (access_token test_response) \<le> max_access_token_bytes"
  by (simp_all add: test_response_def eval)

lemmas requests_pass = accepts_a_well_formed_request_def the_published_verifier_is_the_right_shape_def
  refuses_an_empty_or_over_long_code_def refuses_whitespace_and_control_bytes_in_a_code_def
  refuses_a_verifier_of_the_wrong_length_or_charset_def

lemmas responses_pass = accepts_a_well_formed_response_def refuses_an_empty_or_over_long_access_token_def
  refuses_an_empty_or_over_long_attested_data_def refuses_a_signature_that_is_not_exactly_recoverable_length_def
  refuses_an_opening_that_is_not_exactly_what_the_circuit_opens_def

lemma request_tests_pass:
  "accepts_a_well_formed_request" "the_published_verifier_is_the_right_shape" "refuses_an_empty_or_over_long_code"
  "refuses_whitespace_and_control_bytes_in_a_code" "refuses_a_verifier_of_the_wrong_length_or_charset"
  by (simp_all add: requests_pass test_request_def eval)

lemma response_tests_pass:
  "accepts_a_well_formed_response" "refuses_an_empty_or_over_long_access_token"
  "refuses_an_empty_or_over_long_attested_data" "refuses_a_signature_that_is_not_exactly_recoverable_length"
  "refuses_an_opening_that_is_not_exactly_what_the_circuit_opens"
  using test_token_unprintable test_token_bound
  by (simp_all add: responses_pass validate_response_def with_attested_def with_signature_def test_response_def
      max_access_token_bytes_def signature_len_def bearer_opening_len_def max_attested_data_bytes_def)

lemma access_token_bytes_test_pass: "refuses_whitespace_and_control_bytes_in_an_access_token"
  by (simp add: refuses_whitespace_and_control_bytes_in_an_access_token_def test_response_def eval)

lemma token_exchange_tests_all: "list_all (\<lambda>passes. passes) token_exchange_tests"
  by (simp add: token_exchange_tests_def request_tests_pass response_tests_pass access_token_bytes_test_pass)

end
