(* ===== verification/Signer.thy ===== *)
theory Signer
  imports Crypto
begin

text \<open>
  \<open>libid-signer/src/lib.rs\<close>: classifying key specs, parsing lists of them, building a managed
  signer and reading its keys. The \<open>alloy\<close> signers, the AWS client and the \<open>hex\<close> crate are
  the fields of \<open>backend\<close>. Lemmas: what a spec is classified as, that a list is taken whole or
  refused, and that the two key parsers and the two signing paths of the workspace agree.
\<close>

section \<open>Key specs\<close>

datatype signer_error =
  SignerConfig bytes
| SignerBuild bytes bytes

datatype signer_source = PrivateKey bytes | Kms bytes

definition ellipsis :: bytes where "ellipsis = [0xE2, 0x80, 0xA6]"
definition em_dash :: bytes where "em_dash = [0xE2, 0x80, 0x94]"

definition strip_0x :: "bytes \<Rightarrow> bytes" where
  "strip_0x s = (case strip_prefix (ascii ''0x'') s of Some t \<Rightarrow> t | None \<Rightarrow> s)"

definition from_spec :: "bytes \<Rightarrow> signer_error + signer_source" where
  "from_spec spec =
     (let entry = trim spec in
      if entry = [] then Inl (SignerConfig (ascii ''empty signing key spec''))
      else let hexish = strip_0x entry in
        if list_all is_ascii_hexdigit hexish
        then if length hexish = 64 then Inr (PrivateKey entry)
             else Inl (SignerConfig
               (ascii [CHR 0x27] @ take (min (length entry) 8) entry @ ellipsis @ ascii [CHR 0x27] @
                ascii '' looks like a hex private key but has '' @ ascii (decimal (length hexish)) @
                ascii '' hex chars, expected 64 '' @ em_dash @ ascii '' refusing to treat it as a KMS key id''))
        else Inr (Kms entry))"

definition comma_byte :: byte where "comma_byte = 0x2C"

text \<open>The loop of \<open>parse_list\<close>: \<open>seen\<close> is the hash set, \<open>out\<close> the vector.\<close>

fun parse_entries :: "bytes list \<Rightarrow> bytes set \<Rightarrow> signer_source list \<Rightarrow> signer_error + signer_source list" where
  "parse_entries [] seen out = Inr out"
| "parse_entries (raw # raws) seen out =
     (let entry = trim raw in
      if entry = [] then parse_entries raws seen out
      else if entry \<in> seen
      then Inl (SignerConfig (ascii ''duplicate pool signer '' @ ascii [CHR 0x27] @ entry @ ascii [CHR 0x27] @ ascii '' '' @ em_dash @
                              ascii '' each slot needs its own key''))
      else (case from_spec entry of
         Inl e \<Rightarrow> Inl e
       | Inr source \<Rightarrow> parse_entries raws (insert entry seen) (out @ [source])))"

definition parse_list :: "bytes \<Rightarrow> signer_error + signer_source list" where
  "parse_list spec =
     and_then (parse_entries (split_on comma_byte spec) {} [])
       (\<lambda>out. if out = [] then Inl (SignerConfig (ascii ''signer list is set but names no signers'')) else Inr out)"

fun describe_source :: "signer_source \<Rightarrow> bytes" where
  "describe_source (PrivateKey _) = ascii ''local private key''"
| "describe_source (Kms key_id) = ascii ''AWS KMS '' @ key_id"

section \<open>Managed signers\<close>

datatype ('sk, 'aws) managed_signer =
  Local 'sk
| KmsSigner 'aws (kms_public_key: bytes)

record ('sk, 'aws) backend =
  hex_decode :: "bytes \<Rightarrow> bytes + bytes"
  local_from_bytes :: "bytes \<Rightarrow> bytes + 'sk"
  set_chain_id :: "64 word \<Rightarrow> 'sk \<Rightarrow> 'sk"
  kms_get_public_key :: "bytes \<Rightarrow> bytes + bytes option"
  kms_new :: "bytes \<Rightarrow> 64 word option \<Rightarrow> bytes + 'aws"
  local_address :: "'sk \<Rightarrow> bytes"
  kms_address :: "'aws \<Rightarrow> bytes"
  local_sign_message :: "'sk \<Rightarrow> bytes \<Rightarrow> bytes + bytes"
  kms_sign_message :: "'aws \<Rightarrow> bytes \<Rightarrow> bytes + bytes"
  local_sign_hash :: "'sk \<Rightarrow> bytes \<Rightarrow> bytes + bytes"
  kms_sign_hash :: "'aws \<Rightarrow> bytes \<Rightarrow> bytes + bytes"
  local_uncompressed :: "'sk \<Rightarrow> bytes"
  local_key_bytes :: "'sk \<Rightarrow> bytes"
  hex_address :: "bytes \<Rightarrow> bytes"

definition build_local ::
  "('sk, 'aws) backend \<Rightarrow> bytes \<Rightarrow> 64 word option \<Rightarrow> signer_error + ('sk, 'aws) managed_signer" where
  "build_local be hex_key chain_id =
     and_then (map_err (SignerBuild (ascii ''decode signing key'')) (hex_decode be (strip_0x hex_key))) (\<lambda>key_bytes.
     if length key_bytes \<noteq> 32
     then Inl (SignerBuild (ascii ''decode signing key'') (ascii (''expected 32 bytes, got '' @ decimal (length key_bytes))))
     else and_then (map_err (SignerBuild (ascii ''create signer'')) (local_from_bytes be key_bytes)) (\<lambda>signer.
       Inr (Local (case chain_id of Some cid \<Rightarrow> set_chain_id be cid signer | None \<Rightarrow> signer))))"

definition build_kms ::
  "('sk, 'aws) backend \<Rightarrow> bytes \<Rightarrow> 64 word option \<Rightarrow> signer_error + ('sk, 'aws) managed_signer" where
  "build_kms be key_id chain_id =
     and_then (map_err (SignerBuild (ascii ''kms:GetPublicKey for '' @ key_id)) (kms_get_public_key be key_id)) (\<lambda>response.
     and_then (ok_or response
       (SignerBuild (ascii ''kms:GetPublicKey for '' @ key_id) (ascii ''response carried no public key''))) (\<lambda>der.
     if length der < 65 \<or> der ! (length der - 65) \<noteq> 0x04
     then Inl (SignerBuild (ascii ''parse public key for '' @ key_id)
       (ascii (''expected DER ending in a 65-byte uncompressed point, got '' @ decimal (length der) @ '' bytes'')))
     else
       let public_key = drop (length der - 65) der in
       and_then (map_err (SignerBuild (ascii ''create KMS signer for '' @ key_id)) (kms_new be key_id chain_id)) (\<lambda>signer.
       Inr (KmsSigner signer public_key))))"

definition build_managed ::
  "('sk, 'aws) backend \<Rightarrow> signer_source \<Rightarrow> 64 word option \<Rightarrow> signer_error + ('sk, 'aws) managed_signer" where
  "build_managed be source chain_id =
     (case source of
        PrivateKey hex_key \<Rightarrow> build_local be hex_key chain_id
      | Kms key_id \<Rightarrow> build_kms be key_id chain_id)"

fun signer_address :: "('sk, 'aws) backend \<Rightarrow> ('sk, 'aws) managed_signer \<Rightarrow> bytes" where
  "signer_address be (Local s) = local_address be s"
| "signer_address be (KmsSigner s _) = kms_address be s"

text \<open>
  \<open>sign_claim\<close> and \<open>sign_prehash\<close>; the backends return the 65 bytes of \<open>Signature::as_bytes\<close>.
\<close>

definition sign_claim :: "('sk, 'aws) backend \<Rightarrow> ('sk, 'aws) managed_signer \<Rightarrow> bytes \<Rightarrow> signer_error + bytes" where
  "sign_claim be m digest =
     map_err (SignerBuild (ascii ''sign claim digest''))
       (case m of Local s \<Rightarrow> local_sign_message be s digest | KmsSigner s _ \<Rightarrow> kms_sign_message be s digest)"

definition managed_sign_prehash :: "('sk, 'aws) backend \<Rightarrow> ('sk, 'aws) managed_signer \<Rightarrow> bytes \<Rightarrow> signer_error + bytes" where
  "managed_sign_prehash be m digest =
     map_err (SignerBuild (ascii ''sign prehashed digest''))
       (case m of Local s \<Rightarrow> local_sign_hash be s digest | KmsSigner s _ \<Rightarrow> kms_sign_hash be s digest)"

text \<open>An \<open>EthereumWallet\<close> made from a signer.\<close>

datatype ('sk, 'aws) wallet = LocalWallet 'sk | KmsWallet 'aws

fun into_wallet :: "('sk, 'aws) managed_signer \<Rightarrow> ('sk, 'aws) wallet" where
  "into_wallet (Local s) = LocalWallet s"
| "into_wallet (KmsSigner s _) = KmsWallet s"

definition build_wallet ::
  "('sk, 'aws) backend \<Rightarrow> signer_source \<Rightarrow> 64 word option \<Rightarrow> signer_error + ('sk, 'aws) wallet \<times> bytes" where
  "build_wallet be source chain_id =
     and_then (build_managed be source chain_id) (\<lambda>managed. Inr (into_wallet managed, signer_address be managed))"

fun uncompressed_public_key :: "('sk, 'aws) backend \<Rightarrow> ('sk, 'aws) managed_signer \<Rightarrow> bytes" where
  "uncompressed_public_key be (Local s) = local_uncompressed be s"
| "uncompressed_public_key be (KmsSigner _ public_key) = public_key"

definition compressed_public_key :: "('sk, 'aws) backend \<Rightarrow> ('sk, 'aws) managed_signer \<Rightarrow> bytes" where
  "compressed_public_key be m =
     (let full = uncompressed_public_key be m in or 0x02 (and (full ! 64) 1) # slice full (rng 1 33))"

fun raw_key_bytes :: "('sk, 'aws) backend \<Rightarrow> ('sk, 'aws) managed_signer \<Rightarrow> bytes option" where
  "raw_key_bytes be (Local s) = Some (local_key_bytes be s)"
| "raw_key_bytes be (KmsSigner _ _) = None"

fun describe_signer :: "('sk, 'aws) backend \<Rightarrow> ('sk, 'aws) managed_signer \<Rightarrow> bytes" where
  "describe_signer be (Local _) = ascii ''local private key''"
| "describe_signer be (KmsSigner s _) = ascii ''AWS KMS ('' @ hex_address be (kms_address be s) @ ascii '')''"

lemmas [eval] = ellipsis_def em_dash_def strip_0x_def from_spec_def comma_byte_def parse_list_def
  build_local_def build_kms_def build_managed_def compressed_public_key_def

section \<open>Classification\<close>

text \<open>The shape of a private key: exactly 64 hex characters behind an optional \<open>0x\<close>.\<close>

definition key_shaped :: "bytes \<Rightarrow> bool" where
  "key_shaped s \<longleftrightarrow> list_all is_ascii_hexdigit (strip_0x s) \<and> length (strip_0x s) = 64"

lemma from_spec_Inr: "from_spec spec = Inr source \<longleftrightarrow>
    (key_shaped (trim spec) \<and> source = PrivateKey (trim spec) \<or>
     trim spec \<noteq> [] \<and> \<not> list_all is_ascii_hexdigit (strip_0x (trim spec)) \<and> source = Kms (trim spec))"
proof -
  have "strip_0x [] = []" by (simp add: strip_0x_def strip_prefix_def ascii_def)
  then have "trim spec \<noteq> []" if "key_shaped (trim spec)" using that by (auto simp: key_shaped_def)
  then show ?thesis by (auto simp: from_spec_def key_shaped_def Let_def)
qed

lemma from_spec_trim [simp]: "from_spec (trim spec) = from_spec spec"
  by (simp add: from_spec_def)

definition list_entries :: "bytes \<Rightarrow> bytes list" where
  "list_entries spec = filter (\<lambda>e. e \<noteq> []) (map trim (split_on comma_byte spec))"

lemma parse_entries_Inr:
  "parse_entries raws seen out = Inr res \<longleftrightarrow>
   (let es = filter (\<lambda>e. e \<noteq> []) (map trim raws) in
    distinct es \<and> set es \<inter> seen = {} \<and> (\<exists>sources. map from_spec es = map Inr sources \<and> res = out @ sources))"
proof (induction raws seen out rule: parse_entries.induct)
  case (2 raw raws seen out)
  show ?case
  proof (cases "trim raw = []")
    case True
    with 2 show ?thesis by (simp add: Let_def)
  next
    case False
    show ?thesis
    proof (cases "trim raw \<in> seen")
      case True
      with False show ?thesis by (simp add: Let_def)
    next
      case new: False
      show ?thesis
      proof (cases "from_spec raw")
        case (Inl e)
        with False new show ?thesis by (auto simp: Let_def)
      next
        case (Inr source)
        have cons: "(\<exists>sources. Inr source # map from_spec es = map Inr sources \<and> res = out @ sources) \<longleftrightarrow>
            (\<exists>sources. map from_spec es = map Inr sources \<and> res = (out @ [source]) @ sources)" for es
          by (auto simp: Cons_eq_map_conv)
        show ?thesis
          using "2.IH"(2) [of "trim raw" source] False new Inr
          by (auto simp: Let_def cons)
      qed
    qed
  qed
qed auto

lemma parse_list_Inr: "parse_list spec = Inr sources \<longleftrightarrow>
    list_entries spec \<noteq> [] \<and> distinct (list_entries spec) \<and>
    map from_spec (list_entries spec) = map Inr sources"
proof -
  have "parse_list spec = Inr sources \<longleftrightarrow>
      parse_entries (split_on comma_byte spec) {} [] = Inr sources \<and> sources \<noteq> []"
    by (cases "parse_entries (split_on comma_byte spec) {} []") (auto simp: parse_list_def)
  moreover have "parse_entries (split_on comma_byte spec) {} [] = Inr sources \<longleftrightarrow>
      distinct (list_entries spec) \<and> map from_spec (list_entries spec) = map Inr sources"
    by (simp add: parse_entries_Inr list_entries_def Let_def)
  moreover have "map from_spec (list_entries spec) = map Inr sources \<Longrightarrow> sources = [] \<longleftrightarrow> list_entries spec = []"
    by (metis length_map length_0_conv)
  ultimately show ?thesis by blast
qed

text \<open>The \<open>hex\<close> crate: an even number of hex digits decodes to half as many bytes.\<close>

definition hex_laws :: "(bytes \<Rightarrow> bytes + bytes) \<Rightarrow> bool" where
  "hex_laws dec \<longleftrightarrow> (\<forall>s. list_all is_ascii_hexdigit s \<and> even (length s) \<longrightarrow>
     (\<exists>key. dec s = Inr key \<and> length key = length s div 2))"

text \<open>Decoding for the witnesses.\<close>

definition nibble_value :: "byte \<Rightarrow> byte" where
  "nibble_value c = (if c \<le> 0x39 then c - 0x30 else if c \<le> 0x46 then c - 0x37 else c - 0x57)"

fun unhex :: "bytes \<Rightarrow> bytes + bytes" where
  "unhex [] = Inr []"
| "unhex [_] = Inl (ascii ''Odd number of digits'')"
| "unhex (a # b # s) =
     (if is_ascii_hexdigit a \<and> is_ascii_hexdigit b
      then and_then (unhex s) (\<lambda>r. Inr ((16 * nibble_value a + nibble_value b) # r))
      else Inl (ascii ''Invalid character''))"

lemma unhex_laws: "hex_laws unhex"
proof -
  have "list_all is_ascii_hexdigit s \<Longrightarrow> even (length s) \<Longrightarrow> \<exists>key. unhex s = Inr key \<and> length key = length s div 2" for s
    by (induction s rule: unhex.induct) auto
  then show ?thesis by (simp add: hex_laws_def)
qed

text \<open>An uncompressed SEC1 point: the tag 4, then two 32-byte coordinates.\<close>

definition sec1_point :: "bytes \<Rightarrow> bytes \<Rightarrow> bytes \<Rightarrow> bool" where
  "sec1_point full x y \<longleftrightarrow> full = 4 # x @ y \<and> length x = 32 \<and> length y = 32"

lemma build_kms_Inr:
  assumes "build_kms be key_id chain_id = Inr m"
  obtains der signer where "kms_get_public_key be key_id = Inr (Some der)" and "65 \<le> length der"
    and "der ! (length der - 65) = 4" and "m = KmsSigner signer (drop (length der - 65) der)"
  using assms by (auto simp: build_kms_def Let_def and_then_Inr_iff split: if_splits)

lemma build_local_Inr: "build_local be hex_key chain_id = Inr m \<Longrightarrow> \<exists>s. m = Local s"
  by (auto simp: build_local_def and_then_Inr_iff split: if_splits)

section \<open>Samples\<close>

definition anvil_key :: bytes where
  "anvil_key = ascii ''ac0974bec39a17e36ba4a6b4d238ff944bacb478cbed5efcae784d7bf4f2ff80''"

lemma anvil_hex: "list_all is_ascii_hexdigit anvil_key" "length anvil_key = 64"
  by (simp_all add: anvil_key_def ascii_def is_ascii_hexdigit_def is_ascii_digit_def)

lemma hexdigit_visible: "is_ascii_hexdigit b \<Longrightarrow> 0x21 \<le> b \<and> b \<le> 0x7e"
  by (auto simp: is_ascii_hexdigit_def is_ascii_digit_def word_le_nat_alt)

lemma trim_anvil: "trim anvil_key = anvil_key"
  using anvil_hex(1) hexdigit_visible by (intro trim_visible) (auto simp: list_all_iff)

lemma strip_anvil: "strip_0x anvil_key = anvil_key" "strip_0x (ascii ''0x'' @ anvil_key) = anvil_key"
  by (simp_all add: strip_0x_def strip_prefix_def anvil_key_def ascii_def)

lemma spec_anvil: "from_spec anvil_key = Inr (PrivateKey anvil_key)"
  by (simp add: from_spec_Inr trim_anvil key_shaped_def strip_anvil anvil_hex)

lemma comma_not_hex: "list_all is_ascii_hexdigit s \<Longrightarrow> comma_byte \<notin> set s"
  by (auto simp: list_all_iff comma_byte_def is_ascii_hexdigit_def is_ascii_digit_def)

definition toy_backend :: "(byte, byte) backend" where
  "toy_backend = \<lparr>
     hex_decode = unhex, local_from_bytes = (\<lambda>bs. Inr (last bs)), set_chain_id = (\<lambda>_ s. s),
     kms_get_public_key = (\<lambda>_. Inr (Some ([0x30, 0x56] @ [4] @ replicate 32 1 @ replicate 31 0 @ [9]))),
     kms_new = (\<lambda>_ _. Inr 9), local_address = (\<lambda>s. replicate 20 s), kms_address = (\<lambda>s. replicate 20 s),
     local_sign_message = (\<lambda>s _. Inr (replicate 63 0 @ [s, 28])), kms_sign_message = (\<lambda>s _. Inr (replicate 63 0 @ [s, 28])),
     local_sign_hash = (\<lambda>s _. Inr (replicate 63 0 @ [s, 28])), kms_sign_hash = (\<lambda>s _. Inr (replicate 63 0 @ [s, 28])),
     local_uncompressed = (\<lambda>s. [4] @ replicate 32 1 @ replicate 31 0 @ [s]), local_key_bytes = (\<lambda>s. replicate 31 0 @ [s]),
     hex_address = (\<lambda>a. a)\<rparr>"

section \<open>Properties\<close>

text \<open>Classification is by shape and total: a trimmed spec of 64 hex characters behind an optional
  \<open>0x\<close> is a private key and never leaves for KMS, one with any other character is a KMS id, and
  an empty spec or hex of another length is refused.\<close>
theorem from_spec_outcomes:
  "(case from_spec spec of
      Inr (PrivateKey k) \<Rightarrow> k = trim spec \<and> key_shaped k
    | Inr (Kms k) \<Rightarrow> k = trim spec \<and> k \<noteq> [] \<and> (\<not> list_all is_ascii_hexdigit (strip_0x k))
    | Inl _ \<Rightarrow> list_all is_ascii_hexdigit (strip_0x (trim spec)) \<and> (\<not> key_shaped (trim spec)))"
proof -
  have "strip_0x [] = []" by (simp add: strip_0x_def strip_prefix_def ascii_def)
  then show ?thesis by (auto simp: from_spec_def key_shaped_def Let_def)
qed

text \<open>A list of specs is taken whole or refused: it parses exactly when it names at least one
  entry, no two entries are spelled alike, and each classifies; the sources come in order.\<close>
theorem parse_list_exact:
  "parse_list spec = Inr sources \<longleftrightarrow>
     list_entries spec \<noteq> [] \<and> distinct (list_entries spec) \<and>
     map from_spec (list_entries spec) = map Inr sources"
  by (rule parse_list_Inr)

text \<open>Anything \<open>from_spec\<close> calls a key decodes: building it can fail only where the curve refuses
  the scalar, never while decoding the hex, and the wallet signs for the address the signer
  reports.\<close>
theorem classified_key_builds:
  assumes "hex_laws (hex_decode be)" and "from_spec spec = Inr (PrivateKey k)"
  shows "\<exists>key. hex_decode be (strip_0x k) = Inr key \<and> length key = 32 \<and>
     build_wallet be (PrivateKey k) chain_id =
       (case local_from_bytes be key of
          Inl e \<Rightarrow> Inl (SignerBuild (ascii ''create signer'') e)
        | Inr s \<Rightarrow> let signer = (case chain_id of None \<Rightarrow> s | Some cid \<Rightarrow> set_chain_id be cid s) in
                   Inr (LocalWallet signer, local_address be signer))"
proof -
  from assms(2) have "list_all is_ascii_hexdigit (strip_0x k)" "length (strip_0x k) = 64"
    by (auto simp: from_spec_Inr key_shaped_def)
  then obtain key where "hex_decode be (strip_0x k) = Inr key" "length key = 32"
    using assms(1) by (force simp: hex_laws_def)
  then show ?thesis
    by (auto simp: build_wallet_def build_managed_def build_local_def Let_def split: sum.splits option.splits)
qed

theorem classified_key_builds_witness:
  "\<exists>key. unhex anvil_key = Inr key \<and> length key = 32"
proof -
  have "hex_laws (hex_decode toy_backend)" by (simp add: toy_backend_def unhex_laws)
  from classified_key_builds [OF this spec_anvil] show ?thesis by (auto simp: strip_anvil toy_backend_def)
qed

lemma build_managed_kind_parts:
  assumes "build_managed be source chain_id = Inr m"
  shows "(raw_key_bytes be m = None) = (\<exists>key_id. source = Kms key_id)"
    and "source = Kms key_id \<Longrightarrow> \<exists>der x y. kms_get_public_key be key_id = Inr (Some der) \<and>
           der = take (length der - 65) der @ uncompressed_public_key be m \<and>
           sec1_point (uncompressed_public_key be m) x y"
proof -
  show "(raw_key_bytes be m = None) = (\<exists>key_id. source = Kms key_id)"
    using assms by (auto simp: build_managed_def elim!: build_kms_Inr dest!: build_local_Inr split: signer_source.splits)
  assume "source = Kms key_id"
  with assms have "build_kms be key_id chain_id = Inr m" by (simp add: build_managed_def)
  then obtain der signer where d: "kms_get_public_key be key_id = Inr (Some der)" "65 \<le> length der"
      "der ! (length der - 65) = 4" "m = KmsSigner signer (drop (length der - 65) der)"
    by (rule build_kms_Inr)
  let ?p = "drop (length der - 65) der"
  have "?p = 4 # drop 1 ?p" using d(2,3) by (simp add: Cons_nth_drop_Suc [symmetric])
  then have "sec1_point ?p (take 32 (drop 1 ?p)) (drop 32 (drop 1 ?p))"
    using d(2) by (simp add: sec1_point_def del: drop_drop)
  then show "\<exists>der x y. kms_get_public_key be key_id = Inr (Some der) \<and>
           der = take (length der - 65) der @ uncompressed_public_key be m \<and>
           sec1_point (uncompressed_public_key be m) x y"
    using d(1,4) by fastforce
qed

text \<open>The kind of a signer follows the kind of its source: raw key bytes exist exactly for local
  keys, and the public key a KMS signer serves is the uncompressed point the DER response
  ends in.\<close>
theorem build_managed_kind:
  assumes "build_managed be source chain_id = Inr m"
  shows "(raw_key_bytes be m = None) = (\<exists>key_id. source = Kms key_id) \<and>
    (\<forall>key_id. source = Kms key_id \<longrightarrow>
       (\<exists>der x y. kms_get_public_key be key_id = Inr (Some der) \<and>
          der = take (length der - 65) der @ uncompressed_public_key be m \<and>
          sec1_point (uncompressed_public_key be m) x y))"
  using build_managed_kind_parts [OF assms] by blast


theorem build_managed_kind_witness:
  "raw_key_bytes toy_backend (KmsSigner 9 ([4] @ replicate 32 1 @ replicate 31 0 @ [9])) = None"
proof -
  have b: "build_managed toy_backend (Kms (ascii ''alias/x'')) None = Inr (KmsSigner 9 ([4] @ replicate 32 1 @ replicate 31 0 @ [9]))"
    by (simp add: build_managed_def build_kms_def toy_backend_def Let_def)
  show ?thesis using build_managed_kind [OF b] by blast
qed

lemma compressed_public_key_sec1_parts:
  assumes "sec1_point (uncompressed_public_key be m) x y"
  shows "compressed_public_key be m = (if odd (unat (last y)) then 3 else 2) # x"
    and "length (compressed_public_key be m) = 33"
proof -
  have p: "uncompressed_public_key be m = 4 # x @ y" and len: "length x = 32" "length y = 32"
    using assms by (auto simp: sec1_point_def)
  have "(4 # x @ y) ! 64 = last y" using len by (cases y rule: rev_cases) (auto simp: nth_append)
  moreover have "slice (4 # x @ y) (rng 1 33) = x" using len by (simp add: slice_def)
  moreover have "or 2 (and b 1) = (if odd (unat b) then 3 else 2)" for b :: byte
    by (simp add: and_one_eq even_of_nat [symmetric, where 'a = byte] odd_iff_mod_2_eq_one)
  ultimately show "compressed_public_key be m = (if odd (unat (last y)) then 3 else 2) # x"
    using p by (simp add: compressed_public_key_def Let_def)
  then show "length (compressed_public_key be m) = 33" using len by simp
qed

text \<open>The compressed key is the SEC1 form of the uncompressed one: 33 bytes, the tag telling the
  parity of the last byte of Y, then X; two signers that serve the same point serve the same
  compressed key.\<close>
theorem compressed_public_key_sec1:
  assumes "sec1_point (uncompressed_public_key be m) x y"
  shows "compressed_public_key be m = (if odd (unat (last y)) then 3 else 2) # x \<and>
    length (compressed_public_key be m) = 33"
  using compressed_public_key_sec1_parts [OF assms] by blast


theorem compressed_public_key_sec1_witness:
  "compressed_public_key toy_backend (Local 9) = 3 # replicate 32 1"
proof -
  have "sec1_point (uncompressed_public_key toy_backend (Local 9)) (replicate 32 1) (replicate 31 0 @ [9])"
    by (simp add: sec1_point_def toy_backend_def)
  from compressed_public_key_sec1 [OF this] show ?thesis by simp
qed

section \<open>A key that is not recognised\<close>

text \<open>
  The prefix \<open>0X\<close> is not stripped, and \<open>X\<close> is no hex digit: a private key spelled that way is
  classified as a KMS id, and its description, documented as safe to log, is the key itself.
\<close>

lemma uppercase_prefix_is_described:
  assumes "list_all is_ascii_hexdigit k" and "length k = 64"
  shows "from_spec (ascii ''0X'' @ k) = Inr (Kms (ascii ''0X'' @ k))"
    and "describe_source (Kms (ascii ''0X'' @ k)) = ascii ''AWS KMS 0X'' @ k"
proof -
  have "trim (ascii ''0X'' @ k) = ascii ''0X'' @ k"
    using assms(1) hexdigit_visible by (intro trim_visible) (auto simp: list_all_iff ascii_def)
  moreover have "strip_0x (ascii ''0X'' @ k) = ascii ''0X'' @ k"
    by (simp add: strip_0x_def strip_prefix_def ascii_def)
  moreover have "\<not> list_all is_ascii_hexdigit (ascii ''0X'' @ k)"
    by (simp add: ascii_def is_ascii_hexdigit_def is_ascii_digit_def)
  ultimately show "from_spec (ascii ''0X'' @ k) = Inr (Kms (ascii ''0X'' @ k))" by (simp add: from_spec_Inr ascii_def)
  show "describe_source (Kms (ascii ''0X'' @ k)) = ascii ''AWS KMS 0X'' @ k" by (simp add: ascii_def)
qed

text \<open>The duplicate guard compares spellings: one key with and without its prefix fills two slots.\<close>

lemma one_key_two_slots:
  "parse_list (anvil_key @ comma_byte # ascii ''0x'' @ anvil_key) =
     Inr [PrivateKey anvil_key, PrivateKey (ascii ''0x'' @ anvil_key)]"
proof -
  have x: "comma_byte \<notin> set (ascii ''0x'')" by (simp add: ascii_def comma_byte_def)
  have t: "trim (ascii ''0x'' @ anvil_key) = ascii ''0x'' @ anvil_key"
    using anvil_hex(1) hexdigit_visible by (intro trim_visible) (auto simp: list_all_iff ascii_def)
  have "from_spec (ascii ''0x'' @ anvil_key) = Inr (PrivateKey (ascii ''0x'' @ anvil_key))"
    by (simp add: from_spec_Inr t key_shaped_def strip_anvil anvil_hex)
  moreover have "list_entries (anvil_key @ comma_byte # ascii ''0x'' @ anvil_key) = [anvil_key, ascii ''0x'' @ anvil_key]"
    using comma_not_hex [OF anvil_hex(1)] x anvil_hex(2)
    by (auto simp: list_entries_def split_on_append split_on_free trim_anvil t)
  moreover have "anvil_key \<noteq> ascii ''0x'' @ anvil_key" using anvil_hex(2) by (metis append_eq_append_conv length_append list.size(3) append_Nil self_append_conv2 ascii_def length_ascii list.distinct(1))
  ultimately show ?thesis
    by (simp add: parse_list_Inr spec_anvil)
qed

end
