(* ===== verification/Claims.thy ===== *)
theory Claims
  imports Signer
begin

text \<open>
  The managed signers of \<open>libid-signer\<close> beside the primitives of \<open>libid-crypto\<close>: what the code
  relies on of the \<open>alloy\<close> signers (\<open>alloy_laws\<close>), when both ways of signing a claim produce the
  same signature, and that a KMS claim recovers under \<open>recover_eth_claim\<close>.
\<close>

section \<open>The alloy signers\<close>

text \<open>
  What the code relies on of the \<open>alloy\<close> signers: \<open>sign_message\<close> hashes the message behind the
  EIP-191 prefix and its decimal length, a local signer signs that hash as the curve does, a
  KMS signer returns a signature that recovers to its key, both as \<open>r || s || v\<close> with \<open>v\<close> 27 plus
  the parity of y. That is the recovery id of a signature whose x was not reduced.
\<close>

definition eip191 :: "bytes \<Rightarrow> bytes" where
  "eip191 m = [0x19] @ ascii ''Ethereum Signed Message:'' @ [0x0A] @ ascii (decimal (length m)) @ m"

definition alloy_laws ::
  "('sk, 'aws) backend \<Rightarrow> ('sk, 'vk, 'sig, 'rid) curve \<Rightarrow> (bytes \<Rightarrow> bytes) \<Rightarrow> ('aws \<Rightarrow> 'vk) \<Rightarrow> bool" where
  "alloy_laws be k keccak256 kms_key \<longleftrightarrow>
     (\<forall>sk m. local_sign_message be sk m =
        and_then (curve_sign_prehash k sk (keccak256 (eip191 m))) (\<lambda>(sig, r). Inr (sig_to_bytes k sig @ [and (rid_to_byte k r) 1 + 27]))) \<and>
     (\<forall>a m s. kms_sign_message be a m = Inr s \<longrightarrow>
        (\<exists>sig r. curve_recover k (keccak256 (eip191 m)) sig r = Inr (kms_key a) \<and>
           s = sig_to_bytes k sig @ [rid_to_byte k r + 27]))"

text \<open>
  That no signature has a reduced x (recovery id 2 or 3) is NOT a law of \<open>k256\<close>, which has these
  ids in its interface: it is what the tests of the crates assume when they assert
  that \<open>v\<close> is 27 or 28, and only the account of the tests (\<open>Key_Tests\<close>) assumes it.
\<close>

definition not_x_reduced :: "('sk, 'vk, 'sig, 'rid) curve \<Rightarrow> bool" where
  "not_x_reduced k \<longleftrightarrow> (\<forall>sk h sig r. curve_sign_prehash k sk h = Inr (sig, r) \<longrightarrow> rid_to_byte k r \<le> 1)"

lemma parity_small: "(b :: byte) \<le> 1 \<Longrightarrow> and b 1 = b"
proof -
  assume "b \<le> 1"
  then have "unat b \<le> 1" by (simp add: word_le_nat_alt)
  then have "unat b = 0 \<or> unat b = 1" by auto
  then have "b = 0 \<or> b = 1" by (simp add: word_unat_eq_iff)
  then show ?thesis by auto
qed

lemma eip191_32: "length digest = 32 \<Longrightarrow> eip191 digest = eth_prefix @ digest"
proof -
  have "decimal 32 = ''32''" by (simp add: decimal.simps char_of_def bit_iff_odd)
  moreover assume "length digest = 32"
  ultimately show ?thesis by (simp add: eip191_def eth_prefix_def)
qed

lemma recover_signed:
  assumes "ecdsa_laws k" and "curve_recover k (keccak256 (eth_prefix @ digest)) sig r = Inr vk"
  shows "recover_eth_claim k keccak256 (sig_to_bytes k sig @ [rid_to_byte k r + 27]) digest = Inr vk"
  using ecdsa_lawsD [OF assms(1)] assms(2) by (simp add: recover_split strip_offset_add)

lemma local_claims_match:
  assumes "alloy_laws be k keccak256 kms_key" and "not_x_reduced k" and "length digest = 32"
  shows "sign_claim be (Local sk) digest = Inr s \<longleftrightarrow> sign_eth_claim k keccak256 sk digest = Inr s"
  using assms(1,2) by (auto simp: sign_claim_def alloy_laws_def not_x_reduced_def eip191_32 [OF assms(3)]
      sign_eth_claim_Inr and_then_Inr_iff parity_small)

text \<open>
  Without that assumption: the two ways of signing agree on a digest exactly when the curve's
  recovery id for it has no x-reduction bit, because \<open>sign_eth_claim\<close> keeps the id (\<open>v\<close> up to
  30) and the managed signer keeps its parity only.
\<close>

lemma local_claims_agree_iff:
  assumes "alloy_laws be k keccak256 kms_key" and "length digest = 32"
    and sig: "curve_sign_prehash k sk (keccak256 (eth_prefix @ digest)) = Inr (sig, r)"
  shows "(\<exists>s. sign_claim be (Local sk) digest = Inr s \<and> sign_eth_claim k keccak256 sk digest = Inr s) \<longleftrightarrow>
    and (rid_to_byte k r) 1 = rid_to_byte k r"
proof -
  have "sign_claim be (Local sk) digest = Inr (sig_to_bytes k sig @ [and (rid_to_byte k r) 1 + 27])"
    using assms(1) sig by (simp add: sign_claim_def alloy_laws_def eip191_32 [OF assms(2)])
  moreover have "sign_eth_claim k keccak256 sk digest = Inr s \<longleftrightarrow> s = sig_to_bytes k sig @ [rid_to_byte k r + 27]" for s
    using sig by (simp add: sign_eth_claim_Inr)
  ultimately show ?thesis by auto
qed

text \<open>A KMS signature recovers to the key behind the KMS key id.\<close>

lemma kms_claims_recover:
  assumes "alloy_laws be k keccak256 kms_key" and "ecdsa_laws k" and "length digest = 32"
    and s: "sign_claim be (KmsSigner a pk) digest = Inr s"
  shows "recover_eth_claim k keccak256 s digest = Inr (kms_key a)"
proof -
  from s obtain sig r where "curve_recover k (keccak256 (eth_prefix @ digest)) sig r = Inr (kms_key a)"
      "s = sig_to_bytes k sig @ [rid_to_byte k r + 27]"
    using assms(1) by (fastforce simp: sign_claim_def alloy_laws_def eip191_32 [OF assms(3)])
  then show ?thesis using recover_signed [OF assms(2)] by simp
qed

end
