(* ===== verification/Key_Tests.thy ===== *)
theory Key_Tests
  imports Claims Big_Endian Test_Text
begin

text \<open>
  The tests of \<open>libid-crypto/src/lib.rs\<close> and \<open>libid-signer/src/lib.rs\<close> that fix no value of Keccak or the
  curve, on the models of \<open>Crypto\<close> and \<open>Signer\<close>. Lemmas: they pass, for every curve, hash and signer
  that keeps its laws. The tests of published values are in \<open>Key_Vectors\<close>.
\<close>

section \<open>Refusals\<close>

definition is_err :: "'e + 'a \<Rightarrow> bool" where
  "is_err r = (case r of Inl _ \<Rightarrow> True | Inr _ \<Rightarrow> False)"

text \<open>\<open>format!("{err}")\<close> of a signer error.\<close>

fun error_text :: "signer_error \<Rightarrow> bytes" where
  "error_text (SignerConfig detail) = ascii ''signer configuration: '' @ detail"
| "error_text (SignerBuild op detail) = op @ ascii '': '' @ detail"

definition err_contains :: "bytes \<Rightarrow> signer_error + 'a \<Rightarrow> bool" where
  "err_contains needle r = (case r of Inl e \<Rightarrow> windows_any needle (error_text e) | Inr _ \<Rightarrow> False)"

text \<open>\<open>hex::encode\<close>.\<close>

definition nibble_text :: "nat \<Rightarrow> byte" where
  "nibble_text n = (if n < 10 then of_nat (0x30 + n) else of_nat (0x57 + n))"

definition hex_text :: "bytes \<Rightarrow> bytes" where
  "hex_text bs = concat (map (\<lambda>b. [nibble_text (unat b div 16), nibble_text (unat b mod 16)]) bs)"

section \<open>Tests of libid-crypto\<close>

definition the_eth_claim_recovery_refuses_what_it_cannot_read ::
  "('sk, 'vk, 'sig, 'rid) curve \<Rightarrow> (bytes \<Rightarrow> bytes) \<Rightarrow> ('rng \<Rightarrow> 'sk \<times> 'rng) \<Rightarrow> 'rng \<Rightarrow> bool" where
  "the_eth_claim_recovery_refuses_what_it_cannot_read k keccak256 random os_rng \<longleftrightarrow>
     (let ((sk, _), _) = generate_keypair k random os_rng; digest = keccak256 (ascii ''a claim'') in
      unwrapped_ok (sign_eth_claim k keccak256 sk digest) (\<lambda>sig.
        is_err (recover_eth_claim k keccak256 (take 64 sig) digest) \<and>
        is_err (recover_eth_claim k keccak256 (sig[64 := 26]) digest) \<and>
        is_err (recover_eth_claim k keccak256 ((replicate 65 0)[64 := 27]) digest)))"

definition a_public_key_hexes_as_its_thirty_three_compressed_bytes ::
  "('sk, 'vk, 'sig, 'rid) curve \<Rightarrow> ('rng \<Rightarrow> 'sk \<times> 'rng) \<Rightarrow> 'rng \<Rightarrow> bool" where
  "a_public_key_hexes_as_its_thirty_three_compressed_bytes k random os_rng \<longleftrightarrow>
     (let ((_, vk), _) = generate_keypair k random os_rng; hex = pubkey_to_hex k hex_text vk in
      length hex = 66 \<and> list_all is_ascii_hexdigit hex \<and>
      (starts_with hex (ascii ''02'') \<or> starts_with hex (ascii ''03'')))"

definition a_signing_key_refuses_hex_that_is_not_a_key ::
  "('sk, 'vk, 'sig, 'rid) curve \<Rightarrow> (bytes \<Rightarrow> bytes + bytes) \<Rightarrow> bool" where
  "a_signing_key_refuses_hex_that_is_not_a_key k hex_dec \<longleftrightarrow>
     is_err (hex_to_signing_key k hex_dec (ascii ''not hex at all'')) \<and>
     is_err (hex_to_signing_key k hex_dec (ascii ''0xdeadbeef'')) \<and>
     is_err (hex_to_signing_key k hex_dec (concat (replicate 32 (ascii ''00''))))"

definition sign_eth_claim_produces_65_bytes ::
  "('sk, 'vk, 'sig, 'rid) curve \<Rightarrow> (bytes \<Rightarrow> bytes) \<Rightarrow> ('rng \<Rightarrow> 'sk \<times> 'rng) \<Rightarrow> 'rng \<Rightarrow> bool" where
  "sign_eth_claim_produces_65_bytes k keccak256 random os_rng \<longleftrightarrow>
     (let ((sk, _), _) = generate_keypair k random os_rng; digest = keccak256 (ascii ''test claim'') in
      unwrapped_ok (sign_eth_claim k keccak256 sk digest) (\<lambda>sig.
        length sig = 65 \<and> at_index sig 64 (\<lambda>v. v = 27 \<or> v = 28)))"

definition eth_claim_roundtrip_both_v_conventions ::
  "('sk, 'vk, 'sig, 'rid) curve \<Rightarrow> (bytes \<Rightarrow> bytes) \<Rightarrow> ('rng \<Rightarrow> 'sk \<times> 'rng) \<Rightarrow> 'rng \<Rightarrow> bool" where
  "eth_claim_roundtrip_both_v_conventions k keccak256 random os_rng \<longleftrightarrow>
     (let ((sk, vk), _) = generate_keypair k random os_rng; digest = keccak256 (ascii ''claim'') in
      unwrapped_ok (sign_eth_claim k keccak256 sk digest) (\<lambda>sig.
        unwrapped_ok (recover_eth_claim k keccak256 sig digest) (\<lambda>key. key = vk) \<and>
        at_index sig 64 (\<lambda>v.
          unwrapped_ok (recover_eth_claim k keccak256 (sig[64 := v - 27]) digest) (\<lambda>key. key = vk))))"

section \<open>Tests of libid-signer\<close>

definition spec_detects_by_shape :: bool where
  "spec_detects_by_shape \<longleftrightarrow>
     from_spec anvil_key = Inr (PrivateKey anvil_key) \<and>
     (case from_spec (ascii ''0x'' @ anvil_key) of Inr (PrivateKey _) \<Rightarrow> True | _ \<Rightarrow> False) \<and>
     list_all (\<lambda>i. from_spec i = Inr (Kms i))
       [ascii ''alias/testnet-deployer'', ascii ''bfa1bb3b-53a5-491b-a825-32998fd43a3d'',
        ascii ''arn:aws:kms:eu-central-1:000000000000:key/abc'']"

definition wrong_length_hex_is_rejected_not_sent_to_kms :: bool where
  "wrong_length_hex_is_rejected_not_sent_to_kms \<longleftrightarrow>
     err_contains (ascii ''expected 64'') (from_spec (ascii ''0xdeadbeef'')) \<and> is_err (from_spec [])"

definition list_rejects_duplicates_and_empty :: bool where
  "list_rejects_duplicates_and_empty \<longleftrightarrow>
     err_contains (ascii ''duplicate'') (parse_list (anvil_key @ ascii '','' @ anvil_key)) \<and>
     is_err (parse_list (ascii '' , ,'')) \<and>
     unwrapped_ok (parse_list (anvil_key @ ascii '',alias/x'')) (\<lambda>sources. length sources = 2)"

definition describe_never_leaks_key_material :: bool where
  "describe_never_leaks_key_material \<longleftrightarrow> \<not> windows_any anvil_key (describe_source (PrivateKey anvil_key))"

definition managed_signer_matches_sign_eth_claim ::
  "('sk, 'aws) backend \<Rightarrow> ('sk, 'vk, 'sig, 'rid) curve \<Rightarrow> (bytes \<Rightarrow> bytes) \<Rightarrow> bool" where
  "managed_signer_matches_sign_eth_claim be k keccak256 \<longleftrightarrow>
     unwrapped_ok (hex_to_signing_key k (hex_decode be) anvil_key) (\<lambda>sk.
       list_all (\<lambda>digest.
         unwrapped_ok (sign_eth_claim k keccak256 sk digest) (\<lambda>legacy.
         unwrapped_ok (sign_claim be (Local sk) digest) (\<lambda>via_managed.
           legacy = via_managed \<and> length via_managed = 65 \<and> at_index via_managed 64 (\<lambda>v. v = 27 \<or> v = 28))))
         [replicate 32 0, replicate 32 0xAB, (replicate 32 0)[31 := 1]])"

definition public_key_accessors_match_k256 ::
  "('sk, 'aws) backend \<Rightarrow> ('sk, 'vk, 'sig, 'rid) curve \<Rightarrow> (bytes \<Rightarrow> bytes) \<Rightarrow> ('sk \<Rightarrow> bytes) \<Rightarrow> bool" where
  "public_key_accessors_match_k256 be k keccak256 sk_bytes \<longleftrightarrow>
     unwrapped_ok (hex_to_signing_key k (hex_decode be) anvil_key) (\<lambda>sk.
       hex_text (compressed_public_key be (Local sk)) = pubkey_to_hex k hex_text (verifying_key k sk) \<and>
       signer_address be (Local sk) = pubkey_to_eth_address k keccak256 (verifying_key k sk) \<and>
       raw_key_bytes be (Local sk) = Some (sk_bytes sk))"

text \<open>Both modules.\<close>

definition key_tests ::
  "('sk, 'aws) backend \<Rightarrow> ('sk, 'vk, 'sig, 'rid) curve \<Rightarrow> (bytes \<Rightarrow> bytes) \<Rightarrow> ('sk \<Rightarrow> bytes) \<Rightarrow>
   ('rng \<Rightarrow> 'sk \<times> 'rng) \<Rightarrow> 'rng \<Rightarrow> bool list" where
  "key_tests be k keccak256 sk_bytes random os_rng =
     [the_eth_claim_recovery_refuses_what_it_cannot_read k keccak256 random os_rng,
      a_public_key_hexes_as_its_thirty_three_compressed_bytes k random os_rng,
      a_signing_key_refuses_hex_that_is_not_a_key k (hex_decode be),
      sign_eth_claim_produces_65_bytes k keccak256 random os_rng,
      eth_claim_roundtrip_both_v_conventions k keccak256 random os_rng,
      spec_detects_by_shape, wrong_length_hex_is_rejected_not_sent_to_kms,
      list_rejects_duplicates_and_empty, describe_never_leaks_key_material,
      managed_signer_matches_sign_eth_claim be k keccak256,
      public_key_accessors_match_k256 be k keccak256 sk_bytes]"

section \<open>What the tests use of the libraries\<close>

text \<open>
  \<open>hex::decode\<close> reads pairs of hex digits and nothing else; a signing key is 32 bytes of a
  nonzero scalar below the order of the curve; signing a 32-byte hash succeeds; 64 zero bytes
  are no signature; points are serialised as SEC1 has it, and a local signer of \<open>alloy\<close> holds
  the key it was made of.
\<close>

definition hex_reads :: "(bytes \<Rightarrow> bytes + bytes) \<Rightarrow> bool" where
  "hex_reads dec \<longleftrightarrow> (\<forall>s. case unhex s of Inr b \<Rightarrow> dec s = Inr b | Inl _ \<Rightarrow> is_err (dec s))"

definition secp256k1_order :: nat where
  "secp256k1_order = 0xFFFFFFFFFFFFFFFFFFFFFFFFFFFFFFFEBAAEDCE6AF48A03BBFD25E8CD0364141"

definition valid_scalar :: "bytes \<Rightarrow> bool" where
  "valid_scalar bs \<longleftrightarrow> length bs = 32 \<and> 0 < of_be bs \<and> of_be bs < secp256k1_order"

definition k256_laws :: "('sk, 'vk, 'sig, 'rid) curve \<Rightarrow> bool" where
  "k256_laws k \<longleftrightarrow> ecdsa_laws k \<and> not_x_reduced k \<and>
     (\<forall>bs. is_err (key_from_slice k bs) = (\<not> valid_scalar bs)) \<and>
     (\<forall>sk h. length h = 32 \<longrightarrow> \<not> is_err (curve_sign_prehash k sk h)) \<and>
     is_err (sig_from_slice k (replicate 64 0)) \<and>
     (\<forall>vk. \<exists>x y. sec1_point (point_uncompressed k vk) x y \<and>
        point_compressed k vk = (if odd (unat (last y)) then 3 else 2) # x)"

definition local_signer_laws ::
  "('sk, 'aws) backend \<Rightarrow> ('sk, 'vk, 'sig, 'rid) curve \<Rightarrow> (bytes \<Rightarrow> bytes) \<Rightarrow> ('sk \<Rightarrow> bytes) \<Rightarrow> bool" where
  "local_signer_laws be k keccak256 sk_bytes \<longleftrightarrow>
     (\<forall>sk. local_uncompressed be sk = point_uncompressed k (verifying_key k sk) \<and>
           local_address be sk = pubkey_to_eth_address k keccak256 (verifying_key k sk) \<and>
           local_key_bytes be sk = sk_bytes sk)"

section \<open>They pass\<close>

lemma is_err_simps [simp]: "is_err (Inl e)" "\<not> is_err (Inr x)"
  by (simp_all add: is_err_def)

lemma not_err: "\<not> is_err r \<longleftrightarrow> (\<exists>x. r = Inr x)"
  by (simp add: is_err_def split: sum.split)

lemma claim_signed:
  assumes "k256_laws k" and "\<forall>bs. length (keccak256 bs) = 32"
  obtains s where "sign_eth_claim k keccak256 sk digest = Inr s" and "length s = 65" and "s ! 64 = 27 \<or> s ! 64 = 28"
    and "recover_eth_claim k keccak256 s digest = Inr (verifying_key k sk)"
    and "recover_eth_claim k keccak256 (s[64 := s ! 64 - 27]) digest = Inr (verifying_key k sk)"
    and "is_err (recover_eth_claim k keccak256 (s[64 := 26]) digest)"
proof -
  have laws: "ecdsa_laws k" "not_x_reduced k" using assms(1) by (simp_all add: k256_laws_def)
  have "\<not> is_err (curve_sign_prehash k sk (keccak256 (eth_prefix @ digest)))"
    using assms by (simp add: k256_laws_def)
  then obtain sig r where sig: "curve_sign_prehash k sk (keccak256 (eth_prefix @ digest)) = Inr (sig, r)"
    unfolding not_err by auto
  let ?s = "sig_to_bytes k sig @ [rid_to_byte k r + 27]"
  have s: "sign_eth_claim k keccak256 sk digest = Inr ?s" unfolding sign_eth_claim_Inr using sig by blast
  note p = sign_recover_roundtrip_parts [OF laws(1) s]
  have len: "length (sig_to_bytes k sig) = 64" by (rule ecdsa_lawsD(2) [OF laws(1)])
  have "rid_to_byte k r \<le> 1" using laws(2) sig unfolding not_x_reduced_def by blast
  then have "unat (rid_to_byte k r) = 0 \<or> unat (rid_to_byte k r) = 1" by (auto simp: word_le_nat_alt)
  then have "rid_to_byte k r = 0 \<or> rid_to_byte k r = 1" by (simp add: word_unat_eq_iff)
  then have v: "?s ! 64 = 27 \<or> ?s ! 64 = 28" by (auto simp: nth_append len)
  have at: "?s[64 := v] = take 64 ?s @ [v]" for v by (simp add: len list_update_append)
  have bad: "is_err (recover_eth_claim k keccak256 (?s[64 := 26]) digest)"
  proof -
    have "(?s[64 := 26]) ! 64 = 26" by (simp add: at nth_append len)
    then have no: "(?s[64 := 26]) ! 64 \<notin> {0..3} \<union> {27..30}" by simp
    have "recover_eth_claim k keccak256 (?s[64 := 26]) digest \<noteq> Inr vk" for vk
    proof
      assume "recover_eth_claim k keccak256 (?s[64 := 26]) digest = Inr vk"
      from recover_v_conventions_parts(2) [OF laws(1) this] no show False by blast
    qed
    then show ?thesis by (auto simp: is_err_def split: sum.split)
  qed
  show ?thesis by (rule that [OF s p(1) v p(4) _ bad]) (simp only: p(5) at)
qed

lemma hex_text_length: "length (hex_text bs) = 2 * length bs"
  by (induction bs) (simp_all add: hex_text_def)

lemma nibble_hexdigit: "n < 16 \<Longrightarrow> is_ascii_hexdigit (nibble_text n)"
proof -
  have "\<forall>n \<in> set [0..<16]. is_ascii_hexdigit (nibble_text n)"
    by (simp add: upt_rec nibble_text_def is_ascii_hexdigit_def is_ascii_digit_def)
  then show "n < 16 \<Longrightarrow> is_ascii_hexdigit (nibble_text n)" by simp
qed

lemma hex_text_hexdigits: "list_all is_ascii_hexdigit (hex_text bs)"
proof -
  have "unat b div 16 < 16 \<and> unat b mod 16 < 16" for b :: byte
    using unsigned_less [of b, where 'a = nat] by (simp add: less_mult_imp_div_less)
  then show ?thesis by (auto simp: hex_text_def list_all_iff intro: nibble_hexdigit)
qed

lemma anvil_scalar: "\<exists>key. unhex anvil_key = Inr key \<and> valid_scalar key"
  by (simp add: anvil_key_def valid_scalar_def secp256k1_order_def nibble_value_def of_be_def eval
      is_ascii_hexdigit_def is_ascii_digit_def)

lemma anvil_key_parses:
  assumes "k256_laws k" and "hex_reads dec"
  obtains sk where "hex_to_signing_key k dec anvil_key = Inr sk"
proof -
  obtain key where key: "unhex anvil_key = Inr key" "valid_scalar key" using anvil_scalar by blast
  then have "dec anvil_key = Inr key" using assms(2) [unfolded hex_reads_def, rule_format, of anvil_key] by simp
  moreover obtain sk where "key_from_slice k key = Inr sk"
    using assms(1) key(2) unfolding k256_laws_def by (metis not_err)
  ultimately have "hex_to_signing_key k dec anvil_key = Inr sk"
    using strip_anvil(1) by (simp add: hex_to_signing_key_def strip_0x_def)
  then show ?thesis by (rule that)
qed

lemma crypto_tests_pass:
  assumes k: "k256_laws k" and len: "\<forall>bs. length (keccak256 bs) = 32" and dec: "hex_reads dec"
  shows "the_eth_claim_recovery_refuses_what_it_cannot_read k keccak256 random os_rng"
    and "a_public_key_hexes_as_its_thirty_three_compressed_bytes k random os_rng"
    and "a_signing_key_refuses_hex_that_is_not_a_key k dec"
    and "sign_eth_claim_produces_65_bytes k keccak256 random os_rng"
    and "eth_claim_roundtrip_both_v_conventions k keccak256 random os_rng"
proof -
  obtain sk rng' where sk: "random os_rng = (sk, rng')" by fastforce
  then have pair: "generate_keypair k random os_rng = ((sk, verifying_key k sk), rng')" by (simp add: generate_keypair_def)
  show "the_eth_claim_recovery_refuses_what_it_cannot_read k keccak256 random os_rng"
  proof -
    let ?digest = "keccak256 (ascii ''a claim'')"
    obtain s where s: "sign_eth_claim k keccak256 sk ?digest = Inr s" "length s = 65"
        "is_err (recover_eth_claim k keccak256 (s[64 := 26]) ?digest)"
      by (rule claim_signed [OF k len, where sk = sk and digest = ?digest])
    have "is_err (recover_eth_claim k keccak256 (take 64 s) ?digest)"
      using recover_v_conventions_parts(3) [of k "take 64 s"] k by (simp add: k256_laws_def)
    moreover have "(replicate 65 0)[64 := 27] = replicate 64 0 @ [27 :: byte]"
      by (simp add: list_update_append replicate_add [of 64 1, simplified])
    moreover have "is_err (sig_from_slice k (replicate 64 0))" using k by (simp add: k256_laws_def)
    then have "is_err (recover_eth_claim k keccak256 (replicate 64 0 @ [27]) ?digest)"
      by (auto simp: recover_split is_err_def split: sum.splits)
    ultimately show ?thesis
      by (simp add: the_eth_claim_recovery_refuses_what_it_cannot_read_def pair s unwrapped_ok_def)
  qed
  show "a_public_key_hexes_as_its_thirty_three_compressed_bytes k random os_rng"
  proof -
    obtain x y where p: "sec1_point (point_uncompressed k (verifying_key k sk)) x y"
        "point_compressed k (verifying_key k sk) = (if odd (unat (last y)) then 3 else 2) # x"
      using k unfolding k256_laws_def by blast
    then have "length x = 32" by (simp add: sec1_point_def)
    then show ?thesis
      by (simp add: a_public_key_hexes_as_its_thirty_three_compressed_bytes_def pair pubkey_to_hex_def p(2)
          hex_text_length hex_text_hexdigits starts_with_def)
         (simp add: hex_text_def nibble_text_def ascii_def)
  qed
  show "sign_eth_claim_produces_65_bytes k keccak256 random os_rng"
    by (rule claim_signed [OF k len, where sk = sk and digest = "keccak256 (ascii ''test claim'')"])
       (simp add: sign_eth_claim_produces_65_bytes_def pair unwrapped_ok_def at_index_def)
  show "eth_claim_roundtrip_both_v_conventions k keccak256 random os_rng"
    by (rule claim_signed [OF k len, where sk = sk and digest = "keccak256 (ascii ''claim'')"])
       (simp add: eth_claim_roundtrip_both_v_conventions_def pair unwrapped_ok_def at_index_def)
  have refuse: "is_err (hex_to_signing_key k dec s)"
    if "is_err (unhex (strip_0x s)) \<or> (\<exists>b. unhex (strip_0x s) = Inr b \<and> \<not> valid_scalar b)" for s
  proof (cases "unhex (strip_0x s)")
    case (Inl e)
    then have "is_err (dec (strip_0x s))" using dec [unfolded hex_reads_def, rule_format, of "strip_0x s"] by simp
    then show ?thesis by (auto simp: hex_to_signing_key_def strip_0x_def is_err_def Let_def split: sum.splits option.splits)
  next
    case (Inr b)
    then have "dec (strip_0x s) = Inr b" "is_err (key_from_slice k b)"
      using dec [unfolded hex_reads_def, rule_format, of "strip_0x s"] that k by (simp_all add: k256_laws_def)
    then show ?thesis by (auto simp: hex_to_signing_key_def strip_0x_def is_err_def Let_def split: sum.splits option.splits)
  qed
  have "is_err (unhex (strip_0x (ascii ''not hex at all'')))"
    by (simp add: strip_0x_def strip_prefix_def ascii_def is_ascii_hexdigit_def is_ascii_digit_def)
  moreover have "\<exists>b. unhex (strip_0x (ascii ''0xdeadbeef'')) = Inr b \<and> \<not> valid_scalar b"
    by (simp add: strip_0x_def strip_prefix_def ascii_def is_ascii_hexdigit_def is_ascii_digit_def valid_scalar_def)
  moreover have zero_prefix: "strip_0x (concat (replicate n (ascii ''00''))) = concat (replicate n (ascii ''00''))" for n
    by (cases n) (simp_all add: strip_0x_def strip_prefix_def ascii_def)
  moreover have "unhex (concat (replicate n (ascii ''00''))) = Inr (replicate n 0)" for n
    by (induction n) (simp_all add: ascii_def is_ascii_hexdigit_def is_ascii_digit_def nibble_value_def)
  then have "unhex (strip_0x (concat (replicate 32 (ascii ''00'')))) = Inr (replicate 32 0)"
    using zero_prefix by (simp only:)
  moreover have "of_be (replicate n 0) = 0" for n by (induction n) (simp_all add: of_be_def)
  ultimately show "a_signing_key_refuses_hex_that_is_not_a_key k dec"
    unfolding a_signing_key_refuses_hex_that_is_not_a_key_def using refuse
    by (metis less_irrefl valid_scalar_def)
qed

lemma visible_spec:
  assumes "list_all (\<lambda>b. 0x21 \<le> b \<and> b \<le> 0x7e) s"
  shows "trim s = s"
  using assms by (intro trim_visible) (auto simp: list_all_iff)

lemma kms_spec:
  assumes "list_all (\<lambda>b. 0x21 \<le> b \<and> b \<le> 0x7e) s" and "s \<noteq> []" and "\<not> list_all is_ascii_hexdigit (strip_0x s)"
  shows "from_spec s = Inr (Kms s)"
  using assms by (simp add: from_spec_Inr visible_spec)

lemma trim_0x_anvil: "trim (ascii ''0x'' @ anvil_key) = ascii ''0x'' @ anvil_key"
  using anvil_hex(1) hexdigit_visible by (intro visible_spec) (auto simp: list_all_iff ascii_def)

lemma windows_any_here: "windows_any ys (ys @ zs)"
  unfolding windows_any_iff by (intro exI [of _ 0]) (simp add: occurs_at_def)

lemma windows_any_later: "windows_any ys zs \<Longrightarrow> windows_any ys (xs @ zs)"
  unfolding windows_any_iff using occurs_at_shift [of ys xs zs] by blast

lemma wrong_length_is_named:
  assumes "trim spec \<noteq> []" and "list_all is_ascii_hexdigit (strip_0x (trim spec))" and "length (strip_0x (trim spec)) \<noteq> 64"
  shows "err_contains (ascii ''expected 64'') (from_spec spec)"
proof -
  have "ascii '' hex chars, expected 64 '' = ascii '' hex chars, '' @ ascii ''expected 64'' @ ascii '' ''"
    by (simp add: ascii_def)
  then show ?thesis
    using assms by (simp add: from_spec_def err_contains_def Let_def) (rule windows_any_here windows_any_later)+
qed

lemma duplicate_is_named:
  assumes "from_spec e = Inr source" and "trim e = e" and "comma_byte \<notin> set e"
  shows "err_contains (ascii ''duplicate'') (parse_list (e @ comma_byte # e))"
proof -
  have e: "e \<noteq> []" using assms(1,2) by (auto simp: from_spec_def)
  have "ascii ''duplicate pool signer '' = ascii ''duplicate'' @ ascii '' pool signer ''" by (simp add: ascii_def)
  then show ?thesis
    using assms e by (simp add: parse_list_def split_on_append split_on_free err_contains_def)
      (rule windows_any_here windows_any_later)+
qed

lemma signer_tests_pass:
  shows "spec_detects_by_shape" and "wrong_length_hex_is_rejected_not_sent_to_kms"
    and "list_rejects_duplicates_and_empty" and "describe_never_leaks_key_material"
proof -
  have "from_spec (ascii ''0x'' @ anvil_key) = Inr (PrivateKey (ascii ''0x'' @ anvil_key))"
    by (simp add: from_spec_Inr trim_0x_anvil key_shaped_def strip_anvil anvil_hex)
  then show "spec_detects_by_shape"
    by (simp add: spec_detects_by_shape_def spec_anvil)
       (intro conjI kms_spec, simp_all add: ascii_def strip_0x_def strip_prefix_def is_ascii_hexdigit_def is_ascii_digit_def)
  have t: "trim (ascii ''0xdeadbeef'') = ascii ''0xdeadbeef''" by (rule visible_spec) (simp add: ascii_def)
  have "err_contains (ascii ''expected 64'') (from_spec (ascii ''0xdeadbeef''))"
    by (rule wrong_length_is_named)
       (simp_all add: t, simp_all add: ascii_def strip_0x_def strip_prefix_def is_ascii_hexdigit_def is_ascii_digit_def)
  moreover have "is_err (from_spec [])" by (simp add: from_spec_def eval)
  ultimately show "wrong_length_hex_is_rejected_not_sent_to_kms"
    by (simp add: wrong_length_hex_is_rejected_not_sent_to_kms_def)
  show "describe_never_leaks_key_material"
    using anvil_hex(2) by (auto simp: describe_never_leaks_key_material_def windows_any_iff occurs_at_def dest: arg_cong [where f = length])
  have comma: "ascii '','' = [comma_byte]" "ascii '',alias/x'' = comma_byte # ascii ''alias/x''"
    by (simp_all add: ascii_def comma_byte_def)
  have free: "comma_byte \<notin> set anvil_key" "comma_byte \<notin> set (ascii ''alias/x'')"
    using comma_not_hex [OF anvil_hex(1)] by (simp_all add: ascii_def comma_byte_def)
  have "err_contains (ascii ''duplicate'') (parse_list (anvil_key @ ascii '','' @ anvil_key))"
    unfolding comma using duplicate_is_named [OF spec_anvil trim_anvil free(1)] by simp
  moreover have "is_err (parse_list (ascii '' , ,''))"
  proof -
    have "list_entries (ascii '' , ,'') = []" by (simp add: list_entries_def eval)
    then have "parse_list (ascii '' , ,'') \<noteq> Inr sources" for sources by (simp add: parse_list_Inr)
    then show ?thesis by (auto simp: is_err_def split: sum.split)
  qed
  moreover have "parse_list (anvil_key @ ascii '',alias/x'') = Inr [PrivateKey anvil_key, Kms (ascii ''alias/x'')]"
  proof -
    have x: "from_spec (ascii ''alias/x'') = Inr (Kms (ascii ''alias/x''))" "trim (ascii ''alias/x'') = ascii ''alias/x''"
      by (rule kms_spec visible_spec;
          simp add: ascii_def strip_0x_def strip_prefix_def is_ascii_hexdigit_def is_ascii_digit_def)+
    have "list_entries (anvil_key @ ascii '',alias/x'') = [anvil_key, ascii ''alias/x'']"
      unfolding comma using free anvil_hex(2)
      by (auto simp: list_entries_def split_on_append split_on_free trim_anvil x(2)) (simp add: ascii_def)
    moreover have "anvil_key \<noteq> ascii ''alias/x''" using anvil_hex(2) by (auto dest: arg_cong [where f = length])
    ultimately show ?thesis unfolding parse_list_Inr by (simp add: spec_anvil x(1))
  qed
  then have "unwrapped_ok (parse_list (anvil_key @ ascii '',alias/x'')) (\<lambda>sources. length sources = 2)"
    by (simp add: unwrapped_ok_def)
  ultimately show "list_rejects_duplicates_and_empty" by (simp add: list_rejects_duplicates_and_empty_def)
qed

lemma managed_tests_pass:
  assumes k: "k256_laws k" and len: "\<forall>bs. length (keccak256 bs) = 32" and dec: "hex_reads (hex_decode be)"
    and alloy: "alloy_laws be k keccak256 kms_key" and signer: "local_signer_laws be k keccak256 sk_bytes"
  shows "managed_signer_matches_sign_eth_claim be k keccak256"
    and "public_key_accessors_match_k256 be k keccak256 sk_bytes"
proof -
  obtain sk where sk: "hex_to_signing_key k (hex_decode be) anvil_key = Inr sk" by (rule anvil_key_parses [OF k dec])
  have match: "unwrapped_ok (sign_eth_claim k keccak256 sk digest) (\<lambda>legacy.
      unwrapped_ok (sign_claim be (Local sk) digest) (\<lambda>via_managed.
        legacy = via_managed \<and> length via_managed = 65 \<and> at_index via_managed 64 (\<lambda>v. v = 27 \<or> v = 28)))"
    if "length digest = 32" for digest
  proof -
    obtain s where s: "sign_eth_claim k keccak256 sk digest = Inr s" "length s = 65" "s ! 64 = 27 \<or> s ! 64 = 28"
      by (rule claim_signed [OF k len, where sk = sk and digest = digest])
    moreover have "sign_claim be (Local sk) digest = Inr s"
      using local_claims_match [OF alloy _ that] s(1) k by (simp add: k256_laws_def)
    ultimately show ?thesis by (simp add: unwrapped_ok_def at_index_def)
  qed
  show "managed_signer_matches_sign_eth_claim be k keccak256"
    unfolding managed_signer_matches_sign_eth_claim_def sk unwrapped_ok_def [of "Inr sk"] sum.case list_all_iff
    using match by simp
  obtain x y where p: "sec1_point (point_uncompressed k (verifying_key k sk)) x y"
      "point_compressed k (verifying_key k sk) = (if odd (unat (last y)) then 3 else 2) # x"
    using k unfolding k256_laws_def by blast
  have "uncompressed_public_key be (Local sk) = point_uncompressed k (verifying_key k sk)"
    using signer by (simp add: local_signer_laws_def)
  then have "compressed_public_key be (Local sk) = point_compressed k (verifying_key k sk)"
    using compressed_public_key_sec1_parts(1) [of be "Local sk" x y] p by simp
  then show "public_key_accessors_match_k256 be k keccak256 sk_bytes"
    using signer by (simp add: public_key_accessors_match_k256_def sk unwrapped_ok_def pubkey_to_hex_def local_signer_laws_def)
qed

lemma key_tests_all:
  assumes "k256_laws k" and "\<forall>bs. length (keccak256 bs) = 32" and "hex_reads (hex_decode be)"
    and "alloy_laws be k keccak256 kms_key" and "local_signer_laws be k keccak256 sk_bytes"
  shows "list_all (\<lambda>passes. passes) (key_tests be k keccak256 sk_bytes random os_rng)"
  by (simp add: key_tests_def crypto_tests_pass [OF assms(1-3)] signer_tests_pass managed_tests_pass [OF assms])

section \<open>A curve and a signer\<close>

text \<open>The curve of \<open>Crypto\<close> with a mark in its signatures, and its signer.\<close>

definition marked_curve :: "(byte, byte, byte, bool) curve" where
  "marked_curve = toy_curve\<lparr>
     sig_to_bytes := \<lambda>sig. 1 # replicate 62 0 @ [sig],
     sig_from_slice := \<lambda>bs. if length bs = 64 \<and> hd bs = 1 then Inr (last bs) else Inl [],
     key_from_slice := \<lambda>bs. if valid_scalar bs then Inr (last bs) else Inl []\<rparr>"

definition padded_hash :: "bytes \<Rightarrow> bytes" where
  "padded_hash bs = take 32 (rev bs @ replicate 32 0)"

definition marked_backend :: "(byte, byte) backend" where
  "marked_backend = toy_backend\<lparr>
     local_sign_message := \<lambda>s _. Inr (1 # replicate 62 0 @ [s, 28]),
     kms_sign_message := \<lambda>s _. Inr (1 # replicate 62 0 @ [s, 28]),
     local_address := \<lambda>s. pubkey_to_eth_address marked_curve padded_hash s\<rparr>"

lemma marked_curve_laws: "k256_laws marked_curve"
proof -
  have "ecdsa_laws marked_curve"
    unfolding ecdsa_laws_def by (auto simp: marked_curve_def toy_curve_def)
  moreover have "not_x_reduced marked_curve" by (simp add: not_x_reduced_def marked_curve_def toy_curve_def)
  moreover have "sec1_point (point_uncompressed marked_curve vk) (replicate 32 1) (replicate 31 0 @ [vk]) \<and>
      point_compressed marked_curve vk = (if odd (unat (last (replicate 31 0 @ [vk]))) then 3 else 2) # replicate 32 1" for vk
    by (simp add: sec1_point_def marked_curve_def toy_curve_def)
  ultimately show ?thesis
    unfolding k256_laws_def by (intro conjI allI exI) (auto simp: marked_curve_def toy_curve_def is_err_def)
qed

lemma marked_backend_laws:
  "alloy_laws marked_backend marked_curve padded_hash (\<lambda>a. a)"
  "local_signer_laws marked_backend marked_curve padded_hash (\<lambda>s. replicate 31 0 @ [s])"
  by (simp add: alloy_laws_def marked_backend_def marked_curve_def toy_backend_def toy_curve_def,
      intro allI exI [of _ True], simp)
     (simp add: local_signer_laws_def marked_backend_def marked_curve_def toy_backend_def toy_curve_def)

lemma unhex_reads: "hex_reads unhex"
  by (simp add: hex_reads_def split: sum.split)

lemma key_tests_instance:
  "list_all (\<lambda>passes. passes)
     (key_tests marked_backend marked_curve padded_hash (\<lambda>s. replicate 31 0 @ [s]) (\<lambda>rng. (rng, rng + 1)) 7)"
proof -
  have "hex_reads (hex_decode marked_backend)" using unhex_reads by (simp add: marked_backend_def toy_backend_def)
  then show ?thesis
    using marked_curve_laws marked_backend_laws by (intro key_tests_all) (simp_all add: padded_hash_def min_def)
qed

end
