(* ===== verification/Key_Vectors.thy ===== *)
theory Key_Vectors
  imports Key_Tests
begin

text \<open>
  The tests of \<open>libid-crypto/src/lib.rs\<close> and \<open>libid-signer/src/lib.rs\<close> that pin published values of
  Keccak-256 and the curve. Both are arguments of the model, so the values they have on the
  inputs of the tests are hypotheses: a table of hashes, and the public point and signature of
  the anvil key. What the tests say of this code is how it gets to those inputs and what it
  makes of the outputs: the prefix, the packing, the offset of \<open>v\<close>, the last twenty bytes.
\<close>

section \<open>The tests\<close>

definition crypto_anvil_addr :: bytes where
  "crypto_anvil_addr = ascii ''f39fd6e51aad88f6f4ce6ab8827279cfffb92266''"

definition signer_anvil_addr :: bytes where
  "signer_anvil_addr = ascii ''0xf39Fd6e51aad88F6F4ce6aB8827279cffFb92266''"

definition a_recovered_key_is_not_the_signer_of_another_digest ::
  "('sk, 'vk, 'sig, 'rid) curve \<Rightarrow> (bytes \<Rightarrow> bytes) \<Rightarrow> ('rng \<Rightarrow> 'sk \<times> 'rng) \<Rightarrow> 'rng \<Rightarrow> bool" where
  "a_recovered_key_is_not_the_signer_of_another_digest k keccak256 random os_rng \<longleftrightarrow>
     (let ((sk, vk), _) = generate_keypair k random os_rng;
          signed = keccak256 (ascii ''the record the notary saw'') in
      unwrapped_ok (sign_eth_claim k keccak256 sk signed) (\<lambda>sig.
        unwrapped_ok (recover_eth_claim k keccak256 sig (keccak256 (ascii ''some other record''))) (\<lambda>other. vk \<noteq> other) \<and>
        unwrapped_ok (recover_eth_claim k keccak256 sig signed) (\<lambda>key. vk = key)))"

definition eth_address_deterministic ::
  "('sk, 'vk, 'sig, 'rid) curve \<Rightarrow> (bytes \<Rightarrow> bytes) \<Rightarrow> ('rng \<Rightarrow> 'sk \<times> 'rng) \<Rightarrow> 'rng \<Rightarrow> bool" where
  "eth_address_deterministic k keccak256 random os_rng \<longleftrightarrow>
     (let ((_, vk), _) = generate_keypair k random os_rng;
          addr1 = pubkey_to_eth_address k keccak256 vk; addr2 = pubkey_to_eth_address k keccak256 vk in
      addr1 = addr2 \<and> addr1 \<noteq> replicate 20 0)"

definition anvil_key_derives_known_address ::
  "('sk, 'vk, 'sig, 'rid) curve \<Rightarrow> (bytes \<Rightarrow> bytes) \<Rightarrow> (bytes \<Rightarrow> bytes + bytes) \<Rightarrow> bool" where
  "anvil_key_derives_known_address k keccak256 hex_dec \<longleftrightarrow>
     unwrapped_ok (hex_to_signing_key k hex_dec anvil_key) (\<lambda>sk.
       hex_text (pubkey_to_eth_address k keccak256 (verifying_key k sk)) = crypto_anvil_addr)"

definition sign_eth_claim_known_vector ::
  "('sk, 'vk, 'sig, 'rid) curve \<Rightarrow> (bytes \<Rightarrow> bytes) \<Rightarrow> (bytes \<Rightarrow> bytes + bytes) \<Rightarrow> bool" where
  "sign_eth_claim_known_vector k keccak256 hex_dec \<longleftrightarrow>
     unwrapped_ok (hex_to_signing_key k hex_dec anvil_key) (\<lambda>sk.
     unwrapped_ok (sign_eth_claim k keccak256 sk (keccak256 (ascii ''libid eip191 vector''))) (\<lambda>sig.
       hex_text sig = ascii ''d3e3c9a6f434a15ec60ed58d80936c8180142e748ac6af44efa23d21f77671f1'' @
         ascii ''244ed128a1a57c5e3a067a30b7c7b6635562b56766cda7819706b21a5108ad20'' @ ascii ''1c''))"

definition uid_matches_solidity :: "(bytes \<Rightarrow> bytes) \<Rightarrow> bool" where
  "uid_matches_solidity keccak256 \<longleftrightarrow>
     unwrapped_ok (unhex (ascii ''6320000930f13d9eea4e06e615a5aac92a38d47b43d11c811cd5dea58cfd392f'')) (\<lambda>expected.
       keccak256 (ascii ''github:issue_comment:42'') = expected)"

definition packed_backend_digest_matches_solidity :: "(bytes \<Rightarrow> bytes) \<Rightarrow> bool" where
  "packed_backend_digest_matches_solidity keccak256 \<longleftrightarrow>
     (let uid = keccak256 (ascii ''github:issue_comment:42'');
          timestamp = 1000 :: 64 word;
          ts_bytes = take 24 (replicate 32 0) @ be_bytes 8 (unat timestamp);
          digest = keccak256 (uid @ ascii ''hello'' @ ts_bytes) in
      unwrapped_ok (unhex (ascii ''37a9e3d754ccbc2f90ffb54751c1cc858827f1e6af5d7f541d03c1c070712764'')) (\<lambda>expected.
        digest = expected))"

text \<open>\<open>Address::to_string\<close> of \<open>alloy\<close> is an argument; \<open>to_lowercase\<close> of its ASCII text.\<close>

definition wallet_has_anvil_address :: "('sk, 'aws) backend \<Rightarrow> (bytes \<Rightarrow> bytes) \<Rightarrow> bytes \<Rightarrow> bool" where
  "wallet_has_anvil_address be show_address spec \<longleftrightarrow>
     unwrapped_ok (from_spec spec) (\<lambda>src.
     unwrapped_ok (build_wallet be src (Some 31337)) (\<lambda>(_, addr).
       map to_ascii_lowercase (show_address addr) = map to_ascii_lowercase signer_anvil_addr))"

definition private_key_derives_expected_address :: "('sk, 'aws) backend \<Rightarrow> (bytes \<Rightarrow> bytes) \<Rightarrow> bool" where
  "private_key_derives_expected_address be show_address \<longleftrightarrow> wallet_has_anvil_address be show_address anvil_key"

definition private_key_accepts_0x_prefix :: "('sk, 'aws) backend \<Rightarrow> (bytes \<Rightarrow> bytes) \<Rightarrow> bool" where
  "private_key_accepts_0x_prefix be show_address \<longleftrightarrow>
     wallet_has_anvil_address be show_address (ascii ''0x'' @ anvil_key)"

definition vector_tests ::
  "('sk, 'aws) backend \<Rightarrow> ('sk, 'vk, 'sig, 'rid) curve \<Rightarrow> (bytes \<Rightarrow> bytes) \<Rightarrow> (bytes \<Rightarrow> bytes) \<Rightarrow>
   ('rng \<Rightarrow> 'sk \<times> 'rng) \<Rightarrow> 'rng \<Rightarrow> bool list" where
  "vector_tests be k keccak256 show_address random os_rng =
     [a_recovered_key_is_not_the_signer_of_another_digest k keccak256 random os_rng,
      eth_address_deterministic k keccak256 random os_rng,
      anvil_key_derives_known_address k keccak256 (hex_decode be),
      sign_eth_claim_known_vector k keccak256 (hex_decode be),
      uid_matches_solidity keccak256, packed_backend_digest_matches_solidity keccak256,
      private_key_derives_expected_address be show_address, private_key_accepts_0x_prefix be show_address]"

section \<open>The published values\<close>

text \<open>Keccak-256 on the inputs of the tests.\<close>

definition anvil_point_hash :: bytes where
  "anvil_point_hash = [0xc1, 0xff, 0xd3, 0xcf, 0xee, 0x2d, 0x9e, 0x5c, 0xd6, 0x76, 0x43, 0xf8, 0xf3, 0x9f, 0xd6, 0xe5,
     0x1a, 0xad, 0x88, 0xf6, 0xf4, 0xce, 0x6a, 0xb8, 0x82, 0x72, 0x79, 0xcf, 0xff, 0xb9, 0x22, 0x66]"

definition packed_hash :: bytes where
  "packed_hash = [0x37, 0xa9, 0xe3, 0xd7, 0x54, 0xcc, 0xbc, 0x2f, 0x90, 0xff, 0xb5, 0x47, 0x51, 0xc1, 0xcc, 0x85,
     0x88, 0x27, 0xf1, 0xe6, 0xaf, 0x5d, 0x7f, 0x54, 0x1d, 0x03, 0xc1, 0xc0, 0x70, 0x71, 0x27, 0x64]"

definition anvil_scalar_bytes :: bytes where
  "anvil_scalar_bytes = [0xac, 0x09, 0x74, 0xbe, 0xc3, 0x9a, 0x17, 0xe3, 0x6b, 0xa4, 0xa6, 0xb4, 0xd2, 0x38, 0xff, 0x94,
     0x4b, 0xac, 0xb4, 0x78, 0xcb, 0xed, 0x5e, 0xfc, 0xae, 0x78, 0x4d, 0x7b, 0xf4, 0xf2, 0xff, 0x80]"

definition uid_hash :: bytes where
  "uid_hash = [0x63, 0x20, 0x00, 0x09, 0x30, 0xf1, 0x3d, 0x9e, 0xea, 0x4e, 0x06, 0xe6, 0x15, 0xa5, 0xaa, 0xc9,
     0x2a, 0x38, 0xd4, 0x7b, 0x43, 0xd1, 0x1c, 0x81, 0x1c, 0xd5, 0xde, 0xa5, 0x8c, 0xfd, 0x39, 0x2f]"

definition vector_digest :: bytes where
  "vector_digest = [0x19, 0x37, 0x14, 0x55, 0x00, 0x9c, 0x10, 0x33, 0xfd, 0xd5, 0x8b, 0x8a, 0x65, 0x75, 0xd5, 0x04,
     0xd2, 0xf2, 0xb5, 0x2b, 0xef, 0xec, 0x54, 0x9d, 0xd5, 0x8d, 0x62, 0xc4, 0xcf, 0x59, 0x10, 0xce]"

definition vector_eth_hash :: bytes where
  "vector_eth_hash = [0xcd, 0x9b, 0x2a, 0x56, 0x99, 0xaa, 0xb8, 0x27, 0x76, 0xa5, 0xe9, 0xd6, 0x8d, 0xd0, 0x07, 0x58,
     0x30, 0x20, 0x02, 0x8c, 0x1b, 0x04, 0xc5, 0x24, 0xaf, 0xe4, 0x4e, 0x23, 0x62, 0x58, 0xcc, 0x72]"

definition seen_digest :: bytes where
  "seen_digest = [0xd3, 0x51, 0x86, 0x46, 0x3b, 0xc5, 0xd5, 0x47, 0x02, 0x43, 0xaf, 0x83, 0x6b, 0x7a, 0xfe, 0xef,
     0xc6, 0x0a, 0x53, 0x27, 0x08, 0x01, 0xae, 0x6a, 0x6e, 0x11, 0x8c, 0x3f, 0xf2, 0x9a, 0x77, 0xd0]"

definition seen_eth_hash :: bytes where
  "seen_eth_hash = [0x74, 0xb5, 0xa9, 0x3b, 0xb0, 0x0f, 0x4b, 0x45, 0x56, 0xd2, 0x52, 0xea, 0x96, 0x12, 0x40, 0x13,
     0x4b, 0xf0, 0xb3, 0xec, 0x20, 0x3d, 0xda, 0xf7, 0xb8, 0xa3, 0x60, 0x88, 0x20, 0xe8, 0x1b, 0xca]"

definition other_digest :: bytes where
  "other_digest = [0x20, 0x37, 0xcf, 0xef, 0x06, 0x43, 0x15, 0xd3, 0x13, 0xa6, 0x21, 0xe1, 0x86, 0x2a, 0x22, 0x97,
     0x07, 0xd0, 0x89, 0x4a, 0xb5, 0x7e, 0x51, 0x41, 0x51, 0xcb, 0xb1, 0x27, 0xc2, 0xad, 0x35, 0x6f]"

definition other_eth_hash :: bytes where
  "other_eth_hash = [0x8a, 0x56, 0x3c, 0x72, 0xab, 0x47, 0x7d, 0x8d, 0x9e, 0x23, 0xc4, 0x3c, 0x06, 0xfa, 0x4e, 0xc6,
     0x10, 0x8c, 0x5e, 0x0c, 0xeb, 0x23, 0xdf, 0x48, 0x00, 0x4c, 0x9a, 0x9b, 0xae, 0x3c, 0x1a, 0x84]"

definition anvil_point :: bytes where
  "anvil_point = [0x83, 0x18, 0x53, 0x5b, 0x54, 0x10, 0x5d, 0x4a, 0x7a, 0xae, 0x60, 0xc0, 0x8f, 0xc4, 0x5f, 0x96,
     0x87, 0x18, 0x1b, 0x4f, 0xdf, 0xc6, 0x25, 0xbd, 0x1a, 0x75, 0x3f, 0xa7, 0x39, 0x7f, 0xed, 0x75,
     0x35, 0x47, 0xf1, 0x1c, 0xa8, 0x69, 0x66, 0x46, 0xf2, 0xf3, 0xac, 0xb0, 0x8e, 0x31, 0x01, 0x6a,
     0xfa, 0xc2, 0x3e, 0x63, 0x0c, 0x5d, 0x11, 0xf5, 0x9f, 0x61, 0xfe, 0xf5, 0x7b, 0x0d, 0x2a, 0xa5]"

definition keccak_table :: "(bytes \<times> bytes) list" where
  "keccak_table =
     [(anvil_point, anvil_point_hash),
      (ascii ''github:issue_comment:42'', uid_hash),
      (uid_hash @ ascii ''hello'' @ replicate 30 0 @ [3, 0xE8], packed_hash),
      (ascii ''libid eip191 vector'', vector_digest), (eth_prefix @ vector_digest, vector_eth_hash),
      (ascii ''the record the notary saw'', seen_digest), (eth_prefix @ seen_digest, seen_eth_hash),
      (ascii ''some other record'', other_digest), (eth_prefix @ other_digest, other_eth_hash)]"

definition keccak_published :: "(bytes \<Rightarrow> bytes) \<Rightarrow> bool" where
  "keccak_published keccak256 \<longleftrightarrow> list_all (\<lambda>(m, h). keccak256 m = h) keccak_table"

text \<open>
  The point of the anvil key, its deterministic signature over the vector, and what recovery
  is: for one signature and recovery id the recovered key determines the hash modulo the order
  of the curve, and recovery answers on the hash of the other record.
\<close>

definition anvil_signature :: bytes where
  "anvil_signature = [0xd3, 0xe3, 0xc9, 0xa6, 0xf4, 0x34, 0xa1, 0x5e, 0xc6, 0x0e, 0xd5, 0x8d, 0x80, 0x93, 0x6c, 0x81,
     0x80, 0x14, 0x2e, 0x74, 0x8a, 0xc6, 0xaf, 0x44, 0xef, 0xa2, 0x3d, 0x21, 0xf7, 0x76, 0x71, 0xf1,
     0x24, 0x4e, 0xd1, 0x28, 0xa1, 0xa5, 0x7c, 0x5e, 0x3a, 0x06, 0x7a, 0x30, 0xb7, 0xc7, 0xb6, 0x63,
     0x55, 0x62, 0xb5, 0x67, 0x66, 0xcd, 0xa7, 0x81, 0x97, 0x06, 0xb2, 0x1a, 0x51, 0x08, 0xad, 0x20]"

definition curve_published :: "('sk, 'vk, 'sig, 'rid) curve \<Rightarrow> bool" where
  "curve_published k \<longleftrightarrow>
     (\<exists>sk sig r. key_from_slice k anvil_scalar_bytes = Inr sk \<and>
        point_uncompressed k (verifying_key k sk) = 4 # anvil_point \<and>
        curve_sign_prehash k sk vector_eth_hash = Inr (sig, r) \<and>
        sig_to_bytes k sig = anvil_signature \<and> rid_to_byte k r = 1)"

definition recovers_the_hash :: "('sk, 'vk, 'sig, 'rid) curve \<Rightarrow> bool" where
  "recovers_the_hash k \<longleftrightarrow>
     (\<forall>h h' sig r vk. length h = 32 \<longrightarrow> length h' = 32 \<longrightarrow> curve_recover k h sig r = Inr vk \<longrightarrow>
        curve_recover k h' sig r = Inr vk \<longrightarrow> of_be h mod secp256k1_order = of_be h' mod secp256k1_order)"

definition answers_on_both :: "('sk, 'vk, 'sig, 'rid) curve \<Rightarrow> 'sk \<Rightarrow> bool" where
  "answers_on_both k sk \<longleftrightarrow>
     (\<exists>sig r. curve_sign_prehash k sk seen_eth_hash = Inr (sig, r) \<and> \<not> is_err (curve_recover k other_eth_hash sig r))"

text \<open>
  A local signer of \<open>alloy\<close> is made of the bytes as a signing key is, its address is derived as
  the crate derives it and does not depend on the chain, and an address prints as \<open>0x\<close> and its
  hex digits, some of them upper case.
\<close>

definition wallet_laws ::
  "('sk, 'aws) backend \<Rightarrow> ('sk, 'vk, 'sig, 'rid) curve \<Rightarrow> (bytes \<Rightarrow> bytes) \<Rightarrow> (bytes \<Rightarrow> bytes) \<Rightarrow> bool" where
  "wallet_laws be k keccak256 show_address \<longleftrightarrow>
     (\<forall>bs sk. key_from_slice k bs = Inr sk \<longrightarrow> local_from_bytes be bs = Inr sk) \<and>
     (\<forall>cid sk. local_address be (set_chain_id be cid sk) = pubkey_to_eth_address k keccak256 (verifying_key k sk)) \<and>
     (\<forall>a. map to_ascii_lowercase (show_address a) = ascii ''0x'' @ hex_text a)"

section \<open>They pass\<close>

lemmas hex_eval = ascii_def is_ascii_hexdigit_def is_ascii_digit_def nibble_value_def

lemma published:
  assumes "keccak_published keccak256"
  shows "keccak256 anvil_point = anvil_point_hash"
    and "keccak256 (ascii ''github:issue_comment:42'') = uid_hash"
    and "keccak256 (uid_hash @ ascii ''hello'' @ replicate 30 0 @ [3, 0xE8]) =
       packed_hash"
    and "keccak256 (ascii ''libid eip191 vector'') = vector_digest" and "keccak256 (eth_prefix @ vector_digest) = vector_eth_hash"
    and "keccak256 (ascii ''the record the notary saw'') = seen_digest" and "keccak256 (eth_prefix @ seen_digest) = seen_eth_hash"
    and "keccak256 (ascii ''some other record'') = other_digest" and "keccak256 (eth_prefix @ other_digest) = other_eth_hash"
  using assms by (simp_all add: keccak_published_def keccak_table_def)

lemma hash_tests_pass:
  assumes "keccak_published keccak256"
  shows "uid_matches_solidity keccak256" and "packed_backend_digest_matches_solidity keccak256"
proof -
  have uid: "unhex (ascii ''6320000930f13d9eea4e06e615a5aac92a38d47b43d11c811cd5dea58cfd392f'') = Inr uid_hash"
    by (simp add: uid_hash_def hex_eval)
  then show "uid_matches_solidity keccak256"
    by (simp add: uid_matches_solidity_def unwrapped_ok_def published(2) [OF assms])
  have "be_bytes 8 1000 = [0, 0, 0, 0, 0, 0, 3, 0xE8]"
  proof -
    have "length [0, 0, 0, 0, 0, 0, 3, 0xE8 :: byte] = 8" "of_be [0, 0, 0, 0, 0, 0, 3, 0xE8] = 1000" by (simp_all add: of_be_def)
    with be_bytes_of_be [of "[0, 0, 0, 0, 0, 0, 3, 0xE8]"] show ?thesis by (simp only:)
  qed
  moreover have "replicate 6 0 = [0, 0, 0, 0, 0, 0 :: byte]" by (simp add: eval_nat_numeral)
  with replicate_add [of 24 6 "0 :: byte"] have "replicate 30 0 = replicate 24 0 @ [0, 0, 0, 0, 0, 0 :: byte]" by simp
  ultimately have ts: "take 24 (replicate 32 0) @ be_bytes 8 (unat (1000 :: 64 word)) = replicate 30 0 @ [3, 0xE8]"
    by simp
  have "unhex (ascii ''37a9e3d754ccbc2f90ffb54751c1cc858827f1e6af5d7f541d03c1c070712764'') =
      Inr packed_hash"
    by (simp add: packed_hash_def hex_eval)
  then show "packed_backend_digest_matches_solidity keccak256"
    unfolding packed_backend_digest_matches_solidity_def Let_def ts published(2) [OF assms] published(3) [OF assms]
    by (simp add: unwrapped_ok_def)
qed

lemma other_digest_tests_pass:
  assumes laws: "ecdsa_laws k" and hash: "keccak_published keccak256" and rec: "recovers_the_hash k"
    and drawn: "random os_rng = (sk, rng')" and ans: "answers_on_both k sk"
    and addr: "pubkey_to_eth_address k keccak256 (verifying_key k sk) \<noteq> replicate 20 0"
  shows "a_recovered_key_is_not_the_signer_of_another_digest k keccak256 random os_rng"
    and "eth_address_deterministic k keccak256 random os_rng"
proof -
  have pair: "generate_keypair k random os_rng = ((sk, verifying_key k sk), rng')"
    by (simp add: generate_keypair_def drawn)
  show "eth_address_deterministic k keccak256 random os_rng"
    using addr by (simp add: eth_address_deterministic_def pair)
  obtain sig r where sig: "curve_sign_prehash k sk seen_eth_hash = Inr (sig, r)"
    and other: "\<not> is_err (curve_recover k other_eth_hash sig r)" using ans by (auto simp: answers_on_both_def)
  let ?s = "sig_to_bytes k sig @ [rid_to_byte k r + 27]"
  have s: "sign_eth_claim k keccak256 sk seen_digest = Inr ?s"
    unfolding sign_eth_claim_Inr published(7) [OF hash] using sig by blast
  note l = ecdsa_lawsD [OF laws]
  have read: "recover_eth_claim k keccak256 ?s digest =
      map_err (CryptoFailed (ascii ''EIP-191 recover'')) (curve_recover k (keccak256 (eth_prefix @ digest)) sig r)" for digest
    using l(4) [of r] by (simp add: recover_split l(2,3,5) strip_offset_add)
  obtain key where key: "curve_recover k other_eth_hash sig r = Inr key" using other by (auto simp: not_err)
  have "key \<noteq> verifying_key k sk"
  proof
    assume "key = verifying_key k sk"
    moreover have "length seen_eth_hash = 32" "length other_eth_hash = 32"
      by (simp_all add: seen_eth_hash_def other_eth_hash_def hex_eval)
    ultimately have "of_be seen_eth_hash mod secp256k1_order = of_be other_eth_hash mod secp256k1_order"
      using rec l(1) [OF sig] key unfolding recovers_the_hash_def by blast
    then show False
      by (simp add: seen_eth_hash_def other_eth_hash_def hex_eval of_be_def secp256k1_order_def)
  qed
  then show "a_recovered_key_is_not_the_signer_of_another_digest k keccak256 random os_rng"
    using sign_recover_roundtrip_parts(4) [OF laws s]
    by (auto simp: a_recovered_key_is_not_the_signer_of_another_digest_def pair published(6,8) [OF hash] s
        read published(9) [OF hash] key unwrapped_ok_def)
qed

lemma anvil_bytes: "unhex anvil_key = Inr anvil_scalar_bytes"
  by (simp add: anvil_key_def anvil_scalar_bytes_def hex_eval)

lemma anvil_address:
  "hex_text (drop 12 anvil_point_hash) = crypto_anvil_addr"
  by (simp add: anvil_point_hash_def crypto_anvil_addr_def hex_text_def nibble_text_def hex_eval)

lemma anvil_signature_text:
  "hex_text (anvil_signature @ [28]) = ascii ''d3e3c9a6f434a15ec60ed58d80936c8180142e748ac6af44efa23d21f77671f1'' @
     ascii ''244ed128a1a57c5e3a067a30b7c7b6635562b56766cda7819706b21a5108ad20'' @ ascii ''1c''"
  by (simp add: anvil_signature_def hex_text_def nibble_text_def hex_eval)

lemma anvil_addr_lower: "map to_ascii_lowercase signer_anvil_addr = ascii ''0x'' @ crypto_anvil_addr"
  by (simp add: signer_anvil_addr_def crypto_anvil_addr_def ascii_def to_ascii_lowercase_def)

lemma anvil_tests_pass:
  assumes hash: "keccak_published keccak256" and curve: "curve_published k" and dec: "hex_reads dec"
  obtains sk where "key_from_slice k anvil_scalar_bytes = Inr sk"
    and "hex_text (pubkey_to_eth_address k keccak256 (verifying_key k sk)) = crypto_anvil_addr"
    and "anvil_key_derives_known_address k keccak256 dec" and "sign_eth_claim_known_vector k keccak256 dec"
proof -
  obtain sk sig r where sk: "key_from_slice k anvil_scalar_bytes = Inr sk"
    and point: "point_uncompressed k (verifying_key k sk) = 4 # anvil_point"
    and sig: "curve_sign_prehash k sk vector_eth_hash = Inr (sig, r)" "sig_to_bytes k sig = anvil_signature" "rid_to_byte k r = 1"
    using curve unfolding curve_published_def by blast
  have "dec anvil_key = Inr anvil_scalar_bytes"
    using dec [unfolded hex_reads_def, rule_format, of anvil_key] by (simp add: anvil_bytes)
  then have key: "hex_to_signing_key k dec anvil_key = Inr sk"
    using strip_anvil(1) sk by (simp add: hex_to_signing_key_def strip_0x_def)
  have addr: "hex_text (pubkey_to_eth_address k keccak256 (verifying_key k sk)) = crypto_anvil_addr"
    by (simp add: pubkey_to_eth_address_def point published(1) [OF hash] anvil_address)
  have "sign_eth_claim k keccak256 sk vector_digest = Inr (anvil_signature @ [28])"
    unfolding sign_eth_claim_Inr published(5) [OF hash] using sig by auto
  then have "sign_eth_claim_known_vector k keccak256 dec"
    by (simp add: sign_eth_claim_known_vector_def key unwrapped_ok_def published(4) [OF hash] anvil_signature_text)
  moreover have "anvil_key_derives_known_address k keccak256 dec"
    by (simp add: anvil_key_derives_known_address_def key unwrapped_ok_def addr)
  ultimately show ?thesis using that sk addr by blast
qed

lemma anvil_wallet:
  assumes hash: "keccak_published keccak256" and curve: "curve_published k" and dec: "hex_reads (hex_decode be)"
    and wallet: "wallet_laws be k keccak256 show_address"
    and spec: "from_spec spec = Inr (PrivateKey spec)" "strip_0x spec = anvil_key"
  shows "wallet_has_anvil_address be show_address spec"
proof -
  let ?key = "anvil_scalar_bytes"
  obtain sk where sk: "key_from_slice k ?key = Inr sk"
    and addr: "hex_text (pubkey_to_eth_address k keccak256 (verifying_key k sk)) = crypto_anvil_addr"
    by (rule anvil_tests_pass [OF hash curve dec])
  have dec_key: "hex_decode be anvil_key = Inr ?key"
    using dec [unfolded hex_reads_def, rule_format, of anvil_key] by (simp add: anvil_bytes)
  have len: "length ?key = 32" by (simp add: anvil_scalar_bytes_def)
  have loc: "local_from_bytes be ?key = Inr sk" and show_low: "\<And>a. map to_ascii_lowercase (show_address a) = ascii ''0x'' @ hex_text a"
    and same: "\<And>cid. local_address be (set_chain_id be cid sk) = pubkey_to_eth_address k keccak256 (verifying_key k sk)"
    using wallet sk by (simp_all add: wallet_laws_def)
  have "build_wallet be (PrivateKey spec) (Some 31337) =
      Inr (LocalWallet (set_chain_id be 31337 sk), pubkey_to_eth_address k keccak256 (verifying_key k sk))"
    by (simp add: build_wallet_def build_managed_def build_local_def spec(2) dec_key len loc same)
  then show ?thesis
    by (simp add: wallet_has_anvil_address_def spec(1) unwrapped_ok_def show_low addr anvil_addr_lower)
qed

text \<open>All eight.\<close>

lemma vector_tests_pass:
  assumes "ecdsa_laws k" and "keccak_published keccak256" and "curve_published k" and "recovers_the_hash k"
    and "hex_reads (hex_decode be)" and "wallet_laws be k keccak256 show_address"
    and "random os_rng = (sk, rng')" and "answers_on_both k sk"
    and "pubkey_to_eth_address k keccak256 (verifying_key k sk) \<noteq> replicate 20 0"
  shows "list_all (\<lambda>passes. passes) (vector_tests be k keccak256 show_address random os_rng)"
proof -
  have "from_spec (ascii ''0x'' @ anvil_key) = Inr (PrivateKey (ascii ''0x'' @ anvil_key))"
    by (simp add: from_spec_Inr trim_0x_anvil key_shaped_def strip_anvil anvil_hex)
  then have "private_key_derives_expected_address be show_address" "private_key_accepts_0x_prefix be show_address"
    unfolding private_key_derives_expected_address_def private_key_accepts_0x_prefix_def
    using anvil_wallet [OF assms(2,3,5,6)] spec_anvil strip_anvil by simp_all
  moreover have "anvil_key_derives_known_address k keccak256 (hex_decode be)" "sign_eth_claim_known_vector k keccak256 (hex_decode be)"
    by (rule anvil_tests_pass [OF assms(2,3,5)]; assumption)+
  ultimately show ?thesis
    using other_digest_tests_pass [where random = random and os_rng = os_rng, OF assms(1,2,4,7-9)] hash_tests_pass [OF assms(2)]
    by (simp add: vector_tests_def)
qed

section \<open>The hypotheses can hold together\<close>

text \<open>
  A curve of one key: it signs the two hashes of the tests, and recovery answers the key on the
  hash that was signed and on any other hash a key that names it.
\<close>

definition vector_curve :: "(unit, bytes option, bool, unit) curve" where
  "vector_curve = (let signed = (\<lambda>sig. if sig then vector_eth_hash else seen_eth_hash) in \<lparr>
     verifying_key = (\<lambda>_. None),
     curve_sign_prehash = (\<lambda>_ h. if h = vector_eth_hash then Inr (True, ())
                                  else if h = seen_eth_hash then Inr (False, ()) else Inl []),
     curve_recover = (\<lambda>h sig _. Inr (if h = signed sig then None else Some h)),
     sig_to_bytes = (\<lambda>sig. if sig then anvil_signature else replicate 64 1),
     sig_from_slice = (\<lambda>bs. if bs = anvil_signature then Inr True else if bs = replicate 64 1 then Inr False else Inl []),
     rid_to_byte = (\<lambda>_. 1), rid_from_byte = (\<lambda>b. if b \<le> 3 then Some () else None),
     point_uncompressed = (\<lambda>_. 4 # anvil_point), point_compressed = (\<lambda>_. 3 # take 32 anvil_point),
     key_from_slice = (\<lambda>bs. if valid_scalar bs then Inr () else Inl [])\<rparr>)"

definition table_hash :: "bytes \<Rightarrow> bytes" where
  "table_hash m = (case map_of keccak_table m of Some h \<Rightarrow> h | None \<Rightarrow> replicate 32 0)"

definition vector_backend :: "(unit, unit) backend" where
  "vector_backend = \<lparr>
     hex_decode = unhex, local_from_bytes = (\<lambda>_. Inr ()), set_chain_id = (\<lambda>_ s. s),
     kms_get_public_key = (\<lambda>_. Inr None), kms_new = (\<lambda>_ _. Inl []),
     local_address = (\<lambda>_. pubkey_to_eth_address vector_curve table_hash None), kms_address = (\<lambda>_. []),
     local_sign_message = (\<lambda>_ _. Inl []), kms_sign_message = (\<lambda>_ _. Inl []),
     local_sign_hash = (\<lambda>_ _. Inl []), kms_sign_hash = (\<lambda>_ _. Inl []),
     local_uncompressed = (\<lambda>_. 4 # anvil_point), local_key_bytes = (\<lambda>_. []),
     hex_address = (\<lambda>a. ascii ''0x'' @ hex_text a)\<rparr>"

lemma lower_hex_text: "map to_ascii_lowercase (hex_text a) = hex_text a"
proof -
  have "\<forall>n \<in> set [0..<16]. to_ascii_lowercase (nibble_text n) = nibble_text n"
    by (simp add: upt_rec nibble_text_def to_ascii_lowercase_def)
  then have n: "n < 16 \<Longrightarrow> to_ascii_lowercase (nibble_text n) = nibble_text n" for n by simp
  have "unat b div 16 < 16 \<and> unat b mod 16 < 16" for b :: byte
    using unsigned_less [of b, where 'a = nat] by (simp add: less_mult_imp_div_less)
  then show ?thesis by (induction a) (simp_all add: hex_text_def n)
qed

lemma digest_lengths:
  "length uid_hash = 32" "length vector_digest = 32" "length seen_digest = 32" "length other_digest = 32"
  "length anvil_point = 64" "length eth_prefix = 28"
  by (simp_all add: uid_hash_def vector_digest_def seen_digest_def other_digest_def anvil_point_def eth_prefix_def hex_eval)

lemma digest_heads: "vector_digest ! 0 = 0x19" "seen_digest ! 0 = 0xd3" "other_digest ! 0 = 0x20"
  by (simp_all add: vector_digest_def seen_digest_def other_digest_def hex_eval)

text \<open>The entries differ in their length or behind the prefix.\<close>

lemma table_keys: "distinct (map fst keccak_table)"
proof -
  have "length (ascii ''github:issue_comment:42'') = 23" "length (ascii ''libid eip191 vector'') = 19"
    "length (ascii ''the record the notary saw'') = 25" "length (ascii ''some other record'') = 17" "length (ascii ''hello'') = 5"
    by (simp_all add: ascii_def)
  then have "distinct (map (\<lambda>m. (length m, m ! 28)) (map fst keccak_table))"
    by (simp add: keccak_table_def digest_lengths digest_heads nth_append)
  then show ?thesis by (simp only: distinct_map)
qed

lemma table_published: "keccak_published table_hash"
  unfolding keccak_published_def list_all_iff
  using map_of_is_SomeI [OF table_keys] by (auto simp: table_hash_def)

lemma head_differs: "hd xs = b \<Longrightarrow> b \<noteq> (c :: byte) \<Longrightarrow> xs \<noteq> replicate (numeral n) c"
  by (auto simp: hd_replicate)

lemma vector_values:
  "length anvil_signature = 64" "anvil_signature \<noteq> replicate 64 1" "vector_eth_hash \<noteq> seen_eth_hash"
  "other_eth_hash \<noteq> seen_eth_hash"
  "valid_scalar anvil_scalar_bytes"
proof -
  have "hd anvil_signature = 0xd3" by (simp add: anvil_signature_def hex_eval)
  then show "anvil_signature \<noteq> replicate 64 1" by (rule head_differs) simp
qed (simp_all add: anvil_signature_def vector_eth_hash_def seen_eth_hash_def other_eth_hash_def valid_scalar_def
      anvil_scalar_bytes_def of_be_def secp256k1_order_def)

lemma vector_curve_laws: "ecdsa_laws vector_curve" "recovers_the_hash vector_curve" "answers_on_both vector_curve sk"
  "curve_published vector_curve"
proof -
  show "ecdsa_laws vector_curve"
    using vector_values(1,2) by (auto simp: ecdsa_laws_def vector_curve_def Let_def split: if_splits)
  show "recovers_the_hash vector_curve"
    by (auto simp: recovers_the_hash_def vector_curve_def Let_def split: if_splits)
  show "answers_on_both vector_curve sk"
    using vector_values(3,4) by (auto simp: answers_on_both_def vector_curve_def Let_def is_err_def)
  show "curve_published vector_curve"
    using vector_values(5) by (auto simp: curve_published_def vector_curve_def Let_def)
qed

lemma vector_wallet_laws: "wallet_laws vector_backend vector_curve table_hash (hex_address vector_backend)"
proof -
  have "map to_ascii_lowercase (ascii ''0x'') = ascii ''0x''" by (simp add: ascii_def to_ascii_lowercase_def)
  moreover have "verifying_key vector_curve sk = None" for sk by (simp add: vector_curve_def Let_def)
  ultimately show ?thesis by (simp add: wallet_laws_def vector_backend_def lower_hex_text)
qed

lemma vector_tests_instance:
  "list_all (\<lambda>passes. passes)
     (vector_tests vector_backend vector_curve table_hash (hex_address vector_backend) (\<lambda>r. ((), r)) (0 :: nat))"
proof (rule vector_tests_pass [OF vector_curve_laws(1) table_published vector_curve_laws(4,2) _ vector_wallet_laws _ vector_curve_laws(3)])
  show "hex_reads (hex_decode vector_backend)" by (simp add: vector_backend_def unhex_reads)
  have "pubkey_to_eth_address vector_curve table_hash (verifying_key vector_curve ()) =
      drop 12 anvil_point_hash"
    by (simp add: pubkey_to_eth_address_def vector_curve_def Let_def published(1) [OF table_published])
  moreover have "hd (drop 12 anvil_point_hash) = 0xf3"
    by (simp add: anvil_point_hash_def)
  ultimately have "hd (pubkey_to_eth_address vector_curve table_hash (verifying_key vector_curve ())) = 0xf3" by (simp only:)
  then show "pubkey_to_eth_address vector_curve table_hash (verifying_key vector_curve ()) \<noteq> replicate 20 0"
    by (rule head_differs) simp
qed simp

end
