(* ===== verification/Attest_Tests.thy ===== *)
theory Attest_Tests
  imports Coverage Layouts_Tests "HOL-Library.Product_Lexorder"
begin

text \<open>
  The tests of \<open>libid-tlsn/src/attest.rs\<close>, over the model, in the order of the module.
  \<open>Transcript::to_partial\<close> of \<open>tlsn\<close> is an argument with its documented behaviour as the
  hypothesis, and so is \<open>keccak256\<close>, which must not collide on the names of the tests.
\<close>

section \<open>The helpers\<close>

type_synonym partial_of = "bytes \<Rightarrow> bytes \<Rightarrow> span list \<Rightarrow> span list \<Rightarrow> partial_transcript"

definition partial_laws :: "partial_of \<Rightarrow> bool" where
  "partial_laws to_partial \<longleftrightarrow>
     (\<forall>sent recv rs ss. list_all (span_ok (length sent)) rs \<longrightarrow> list_all (span_ok (length recv)) ss \<longrightarrow>
        (let t = to_partial sent recv rs ss in
         partial_shows sent rs (sent_authed t) (sent_unsafe t) \<and>
         partial_shows recv ss (received_authed t) (received_unsafe t) \<and>
         len_sent t = length sent \<and> len_received t = length recv))"

text \<open>The spans as pairs of \<open>u32\<close>, sorted as tuples are, and the loop over them.\<close>

definition spans_of_block :: "direction_block \<Rightarrow> (32 word \<times> 32 word) list" where
  "spans_of_block b = sort (map (\<lambda>r. (rev_start r, rev_start r + of_nat (length (rev_bytes r)))) (blk_revealed b) @
     map (\<lambda>c. (com_start c, com_end c)) (blk_commitments b))"

fun spans_reach :: "32 word \<Rightarrow> (32 word \<times> 32 word) list \<Rightarrow> 32 word \<Rightarrow> bool" where
  "spans_reach at [] len \<longleftrightarrow> at = len"
| "spans_reach at ((start, stop) # spans) len \<longleftrightarrow> start = at \<and> spans_reach stop spans len"

definition assert_tiles :: "direction_block \<Rightarrow> 32 word \<Rightarrow> bool" where
  "assert_tiles b len \<longleftrightarrow> spans_reach 0 (spans_of_block b) len"

definition test_sent :: bytes where
  "test_sent = ascii ''GET /2/users/me HTTP/1.1'' @ crlf @ ascii ''authorization: Bearer TOK'' @ crlf @ crlf"

definition test_recv :: bytes where
  "test_recv = ok_head @ json_text ''{`id`:`7`}''"

definition observed_at :: "partial_transcript \<Rightarrow> transcript_commitment list \<Rightarrow> bytes \<Rightarrow> observed_session" where
  "observed_at t cs authority =
     \<lparr>obs_transcript = t, obs_authority = authority, obs_commitments = cs, obs_created_at = 1770000000\<rparr>"

definition observed :: "partial_transcript \<Rightarrow> transcript_commitment list \<Rightarrow> observed_session" where
  "observed t cs = observed_at t cs (ascii ''api.x.com'')"

definition hash32 :: "byte \<Rightarrow> bytes" where
  "hash32 b = replicate 32 b"

text \<open>\<open>session()\<close>: its partial transcript, of any response, and its commitments.\<close>

definition session_partial :: "partial_of \<Rightarrow> bytes \<Rightarrow> partial_transcript" where
  "session_partial to_partial recv =
     to_partial test_sent recv [rng 0 48, rng 51 (length test_sent)] [rng 0 (length recv)]"

definition session_commitments :: "transcript_commitment list" where
  "session_commitments =
     [HashCommitment \<lparr>ph_direction = Sent, ph_idx = [rng 48 51], ph_alg = SHA256, ph_value = hash32 7\<rparr>]"

definition session_record :: "partial_of \<Rightarrow> (bytes \<Rightarrow> bytes) \<Rightarrow> attest_stop + attested_data" where
  "session_record to_partial keccak256 =
     from_observed keccak256 (observed (session_partial to_partial test_recv) session_commitments)"

section \<open>The tests of one session\<close>

definition carries_the_signed_transcript_lengths :: "partial_of \<Rightarrow> (bytes \<Rightarrow> bytes) \<Rightarrow> bool" where
  "carries_the_signed_transcript_lengths to_partial keccak256 \<longleftrightarrow>
     unwrapped_ok (session_record to_partial keccak256) (\<lambda>d.
       sent_transcript_length d = of_nat (length test_sent) \<and>
       recv_transcript_length d = of_nat (length test_recv))"

definition encodes_to_the_length_its_own_fields_imply :: "partial_of \<Rightarrow> (bytes \<Rightarrow> bytes) \<Rightarrow> 'e bincode \<Rightarrow> bool" where
  "encodes_to_the_length_its_own_fields_imply to_partial keccak256 cfg \<longleftrightarrow>
     unwrapped_ok (session_record to_partial keccak256) (\<lambda>d.
       unwrapped_ok (encode_attested cfg d) (\<lambda>encoded. length encoded =
         foldl (\<lambda>want b. foldl (\<lambda>want r. want + (4 + 8 + length (rev_bytes r))) (want + (8 + 8)) (blk_revealed b) +
                  length (blk_commitments b) * (4 + 4 + 32))
           header_len [sent_block d, received_block d]))"

definition tiles_the_request_exactly :: "partial_of \<Rightarrow> (bytes \<Rightarrow> bytes) \<Rightarrow> bool" where
  "tiles_the_request_exactly to_partial keccak256 \<longleftrightarrow>
     unwrapped_ok (session_record to_partial keccak256) (\<lambda>d. assert_tiles (sent_block d) (sent_transcript_length d))"

definition the_fixture_commits_the_credential_and_reveals_none_of_it :: "partial_of \<Rightarrow> (bytes \<Rightarrow> bytes) \<Rightarrow> bool" where
  "the_fixture_commits_the_credential_and_reveals_none_of_it to_partial keccak256 \<longleftrightarrow>
     unwrapped_ok (session_record to_partial keccak256) (\<lambda>d.
       unwrapped (windows_position 3 (\<lambda>w. w = ascii ''TOK'') test_sent) (\<lambda>token.
         (case blk_commitments (sent_block d) of
            [committed] \<Rightarrow> unat (com_start committed) = token \<and> unat (com_end committed) = token + 3
          | _ \<Rightarrow> False) \<and>
         list_all (\<lambda>r. unat (rev_start r) + length (rev_bytes r) \<le> token \<or> token + 3 \<le> unat (rev_start r))
           (blk_revealed (sent_block d))))"

definition authority_is_the_authenticated_server_name :: "partial_of \<Rightarrow> (bytes \<Rightarrow> bytes) \<Rightarrow> bool" where
  "authority_is_the_authenticated_server_name to_partial keccak256 \<longleftrightarrow>
     unwrapped_ok (session_record to_partial keccak256) (\<lambda>d.
       authority_id d = authority_id_of keccak256 (ascii ''api.x.com'') \<and>
       authority_id d \<noteq> authority_id_of keccak256 (ascii ''evil.example''))"

definition the_authority_is_canonicalized_on_the_way_into_the_record :: "partial_of \<Rightarrow> (bytes \<Rightarrow> bytes) \<Rightarrow> bool" where
  "the_authority_is_canonicalized_on_the_way_into_the_record to_partial keccak256 \<longleftrightarrow>
     unwrapped_ok (from_observed keccak256
         (observed_at (session_partial to_partial test_recv) session_commitments (ascii ''API.X.com'')))
       (\<lambda>d. authority_id d = authority_id_of keccak256 (ascii ''api.x.com''))"

definition the_record_names_the_authority_this_session_carried :: "partial_of \<Rightarrow> (bytes \<Rightarrow> bytes) \<Rightarrow> bool" where
  "the_record_names_the_authority_this_session_carried to_partial keccak256 \<longleftrightarrow>
     unwrapped_ok (from_observed keccak256
         (observed_at (session_partial to_partial test_recv) session_commitments (ascii ''api.github.com'')))
       (\<lambda>d. authority_id d = authority_id_of keccak256 (ascii ''api.github.com'') \<and>
            authority_id d \<noteq> authority_id_of keccak256 (ascii ''api.x.com''))"

definition the_notarys_clock_reading_reaches_the_record :: "partial_of \<Rightarrow> (bytes \<Rightarrow> bytes) \<Rightarrow> bool" where
  "the_notarys_clock_reading_reaches_the_record to_partial keccak256 \<longleftrightarrow>
     (let view = (observed (session_partial to_partial test_recv) session_commitments)\<lparr>obs_created_at := 1800000123\<rparr> in
      unwrapped_ok (from_observed keccak256 view) (\<lambda>d. created_at d = 1800000123))"

text \<open>\<open>HashAlgId::BLAKE3\<close> is a constant of \<open>tlsn\<close>: the test is stated of any other algorithm.\<close>

definition refuses_a_blake3_commitment :: "partial_of \<Rightarrow> (bytes \<Rightarrow> bytes) \<Rightarrow> byte \<Rightarrow> bool" where
  "refuses_a_blake3_commitment to_partial keccak256 blake3 \<longleftrightarrow>
     (let commitments = map (\<lambda>c. case c of HashCommitment h \<Rightarrow> HashCommitment (h\<lparr>ph_alg := OtherAlg blake3\<rparr>)
                                          | UnknownCommitment \<Rightarrow> c) session_commitments in
      case from_observed keccak256 (observed (session_partial to_partial test_recv) commitments) of
        Inl (Refused (WrongCommitmentAlgorithm _)) \<Rightarrow> True | _ \<Rightarrow> False)"

definition refuses_a_commitment_over_disjoint_ranges :: "partial_of \<Rightarrow> (bytes \<Rightarrow> bytes) \<Rightarrow> bool" where
  "refuses_a_commitment_over_disjoint_ranges to_partial keccak256 \<longleftrightarrow>
     (let commitments = [HashCommitment \<lparr>ph_direction = Sent, ph_idx = [rng 10 12, rng 20 22],
                                         ph_alg = SHA256, ph_value = hash32 7\<rparr>] in
      from_observed keccak256 (observed (session_partial to_partial test_recv) commitments)
        = Inl (Refused (DisjointCommitment 2)))"

definition other_recv :: bytes where
  "other_recv = ok_head @ json_text ''{`id`:`9`}''"

definition places_no_profile_derived_value_in_the_signed_bytes ::
  "partial_of \<Rightarrow> (bytes \<Rightarrow> bytes) \<Rightarrow> 'e bincode \<Rightarrow> bool" where
  "places_no_profile_derived_value_in_the_signed_bytes to_partial keccak256 cfg \<longleftrightarrow>
     length other_recv = length test_recv \<and>
     unwrapped_ok (from_observed keccak256 (observed (session_partial to_partial test_recv) session_commitments)) (\<lambda>a.
     unwrapped_ok (from_observed keccak256 (observed (session_partial to_partial other_recv) session_commitments)) (\<lambda>b.
     unwrapped_ok (encode_attested cfg a) (\<lambda>ea. unwrapped_ok (encode_attested cfg b) (\<lambda>eb.
       unwrapped (get_range ea (rng 0 header_len)) (\<lambda>ha. unwrapped (get_range eb (rng 0 header_len)) (\<lambda>hb. ha = hb)) \<and>
       ea \<noteq> eb))))"

section \<open>The layouts the prover selects\<close>

text \<open>\<open>round_trip\<close>, with its \<open>unwrap\<close> left to the caller.\<close>

definition round_trip ::
  "partial_of \<Rightarrow> (bytes \<Rightarrow> bytes) \<Rightarrow> bytes \<Rightarrow> bytes \<Rightarrow> layout \<Rightarrow> layout \<Rightarrow> attest_stop + attested_data" where
  "round_trip to_partial keccak256 sent recv sent_layout recv_layout =
     (let partial = to_partial sent recv (reveal sent_layout) (reveal recv_layout);
          commitments = concat (map (\<lambda>(dir, l). map (\<lambda>r. HashCommitment
            \<lparr>ph_direction = dir, ph_idx = [r], ph_alg = SHA256, ph_value = hash32 1\<rparr>) (commit l))
            [(Sent, sent_layout), (Received, recv_layout)]) in
      from_observed keccak256 (observed partial commitments))"

definition the_identity_session_layout_tiles_both_directions ::
  "launch_profiles \<Rightarrow> chunk_size_parser \<Rightarrow> partial_of \<Rightarrow> (bytes \<Rightarrow> bytes) \<Rightarrow> bool" where
  "the_identity_session_layout_tiles_both_directions p pcs to_partial keccak256 \<longleftrightarrow>
     (let sent = ascii ''GET /2/users/me HTTP/1.1'' @ crlf @ ascii ''host: api.x.com'' @ crlf @
                 ascii ''authorization: Bearer TOKENVALUE'' @ crlf @ ascii ''connection: close'' @ crlf @ crlf;
          recv = type_head @ json_text ''{`data`:{`id`:`2244994945`,`name`:`Al`,`username`:`alice`}}'' in
      unwrapped_ok (identity_request sent) (\<lambda>s.
      x_identity p (\<lambda>profile. unwrapped_ok (identity_response pcs recv profile) (\<lambda>r.
      unwrapped_ok (round_trip to_partial keccak256 sent recv s r) (\<lambda>d.
        assert_tiles (sent_block d) (sent_transcript_length d) \<and>
        assert_tiles (received_block d) (recv_transcript_length d) \<and>
        length (blk_commitments (sent_block d)) = 1)))))"

definition the_x_token_session_layout_tiles ::
  "launch_profiles \<Rightarrow> chunk_size_parser \<Rightarrow> partial_of \<Rightarrow> (bytes \<Rightarrow> bytes) \<Rightarrow> bool" where
  "the_x_token_session_layout_tiles p pcs to_partial keccak256 \<longleftrightarrow>
     (let sent = x_token_req; recv = ok_head @ json_text ''{`access_token`:`SECRETBEARER`}'' in
      x_token p (\<lambda>profile. unwrapped_ok (token_request sent profile) (\<lambda>s.
      unwrapped_ok (token_response pcs recv) (\<lambda>r.
      unwrapped_ok (round_trip to_partial keccak256 sent recv s r) (\<lambda>d.
        assert_tiles (sent_block d) (sent_transcript_length d) \<and>
        blk_commitments (sent_block d) = [] \<and> length (blk_revealed (sent_block d)) = 1 \<and>
        at_index (blk_revealed (sent_block d)) 0 (\<lambda>r. rev_start r = 0))))))"

definition the_github_exchange_layout_commits_a_suffix ::
  "launch_profiles \<Rightarrow> chunk_size_parser \<Rightarrow> partial_of \<Rightarrow> (bytes \<Rightarrow> bytes) \<Rightarrow> bool" where
  "the_github_exchange_layout_commits_a_suffix p pcs to_partial keccak256 \<longleftrightarrow>
     (let sent = github_exchange_req; recv = ok_head @ json_text ''{`access_token`:`gho_SECRET`}'' in
      github_token p (\<lambda>profile. unwrapped_ok (token_request sent profile) (\<lambda>s.
      unwrapped_ok (token_response pcs recv) (\<lambda>r.
      unwrapped_ok (round_trip to_partial keccak256 sent recv s r) (\<lambda>d.
        assert_tiles (sent_block d) (sent_transcript_length d) \<and>
        length (blk_revealed (sent_block d)) = 1 \<and> length (blk_commitments (sent_block d)) = 1 \<and>
        at_index (blk_commitments (sent_block d)) 0 (\<lambda>c. com_end c = sent_transcript_length d))))))"

section \<open>Sorted pairs and sorted spans\<close>

definition pair_span :: "32 word \<times> 32 word \<Rightarrow> span" where
  "pair_span = (\<lambda>(a, b). rng (unat a) (unat b))"

lemma pair_span_eq: "pair_span x = rng i j \<longleftrightarrow> unat (fst x) = i \<and> unat (snd x) = j"
  by (cases x) (simp add: pair_span_def)

lemma spans_reach_tiles:
  "tiles_from (unat at) (map pair_span spans) (unat len) \<Longrightarrow> spans_reach at spans len"
  by (induction at spans len rule: spans_reach.induct) (auto simp: pair_span_def word_unat_eq_iff)

lemma sorted_by_start:
  "sorted ps \<Longrightarrow> sorted (map (sp_start \<circ> pair_span) (ps :: (32 word \<times> 32 word) list))"
  by (induction ps) (auto simp: pair_span_def less_eq_prod_def word_le_nat_alt word_less_nat_alt)

lemma assert_tiles_if:
  assumes t: "tiles_from 0 (block_spans b) n" and n: "n < 2 ^ 32"
    and fits: "\<forall>r \<in> set (blk_revealed b). unat (rev_start r) + length (rev_bytes r) < 2 ^ 32"
  shows "assert_tiles b (of_nat n)"
proof -
  let ?ps = "map (\<lambda>r. (rev_start r, rev_start r + of_nat (length (rev_bytes r)))) (blk_revealed b) @
     map (\<lambda>c. (com_start c, com_end c)) (blk_commitments b)"
  have "pair_span (rev_start r, rev_start r + of_nat (length (rev_bytes r))) = rev_span r" if "r \<in> set (blk_revealed b)" for r
  proof -
    have "unat (rev_start r) + length (rev_bytes r) < 2 ^ 32" using fits that by blast
    then show ?thesis by (simp add: pair_span_def rev_span_def unat_word_ariths unat_of_nat)
  qed
  then have ps: "map pair_span ?ps = map rev_span (blk_revealed b) @ map com_span (blk_commitments b)"
    by (simp add: pair_span_def com_span_def)
  have "mset (map pair_span (sort ?ps)) = image_mset pair_span (mset ?ps)" by (simp only: mset_map mset_sort)
  also have "\<dots> = mset (map pair_span ?ps)" by (simp only: mset_map)
  also have "\<dots> = mset (block_spans b)" unfolding ps by (simp only: block_spans_def mset_sort)
  finally have m: "mset (map pair_span (sort ?ps)) = mset (block_spans b)" .
  have "sorted (map sp_start (map pair_span (sort ?ps)))" using sorted_by_start [of "sort ?ps"] by simp
  then have "map pair_span (sort ?ps) = sort_key sp_start (map pair_span (sort ?ps))"
    by (rule sort_key_id_if_sorted [symmetric])
  also have "\<dots> = block_spans b"
  proof (rule sort_key_inj_key_eq [OF m])
    show "inj_on sp_start (set (map pair_span (sort ?ps)))"
      unfolding mset_eq_setD [OF m] by (rule tiles_from_starts(2) [OF t])
    show "sorted (map sp_start (block_spans b))" by (simp add: block_spans_def)
  qed
  finally have "map pair_span (sort ?ps) = block_spans b" .
  then have "tiles_from (unat (0 :: 32 word)) (map pair_span (spans_of_block b)) (unat (of_nat n :: 32 word))"
    using t n by (simp add: spans_of_block_def unat_of_nat)
  then show ?thesis unfolding assert_tiles_def by (rule spans_reach_tiles)
qed

section \<open>Sessions observed as the tests build them\<close>

lemma partial_lawsD:
  assumes "partial_laws to_partial" and "list_all (span_ok (length sent)) rs" and "list_all (span_ok (length recv)) ss"
  shows "partial_shows sent rs (sent_authed (to_partial sent recv rs ss)) (sent_unsafe (to_partial sent recv rs ss))"
    and "partial_shows recv ss (received_authed (to_partial sent recv rs ss)) (received_unsafe (to_partial sent recv rs ss))"
    and "len_sent (to_partial sent recv rs ss) = length sent" "len_received (to_partial sent recv rs ss) = length recv"
  using assms by (auto simp: partial_laws_def Let_def)

lemma observes_partial:
  assumes "partial_shows data (reveal l) (authed_of dir t) (unsafe_of dir t)"
    and "map ph_idx (hashes_of dir cs) = map (\<lambda>r. [r]) (commit l)"
  shows "observes dir l data (observed_at t cs authority)"
  using assms by (auto simp: observes_def Let_def observed_at_def partial_shows_def list_all_iff)

lemma assert_tiles_observed:
  assumes "observes dir l data session" and "sha256_hashes dir session" and "tiles l (length data)" and "length data < 2 ^ 32"
  shows "assert_tiles (block_of session dir) (of_nat (length data))"
proof (rule assert_tiles_if [OF observed_block(4) [OF assms] assms(4)])
  show "\<forall>r \<in> set (blk_revealed (block_of session dir)). unat (rev_start r) + length (rev_bytes r) < 2 ^ 32"
  proof
    fix r assume "r \<in> set (blk_revealed (block_of session dir))"
    then have "rev_span r \<in> set (authed_of dir (obs_transcript session))"
      using observed_block(2) [OF assms] by (metis image_eqI set_map)
    then have "fits (rev_span r)" using observed_reveals [OF assms(1,4)] by blast
    then show "unat (rev_start r) + length (rev_bytes r) < 2 ^ 32" by (simp add: fits_def rev_span_def)
  qed
qed

section \<open>Every pair of layouts that tile\<close>

definition committed_under :: "direction \<Rightarrow> layout \<Rightarrow> transcript_commitment list" where
  "committed_under dir l = map (\<lambda>r. HashCommitment
     \<lparr>ph_direction = dir, ph_idx = [r], ph_alg = SHA256, ph_value = hash32 1\<rparr>) (commit l)"

lemma hashes_of_committed:
  "hashes_of dir (committed_under dir' l) = (if dir = dir' then map (\<lambda>r.
     \<lparr>ph_direction = dir, ph_idx = [r], ph_alg = SHA256, ph_value = hash32 1\<rparr>) (commit l) else [])"
proof -
  have "hashes_of dir (map (\<lambda>r. HashCommitment \<lparr>ph_direction = dir', ph_idx = [r], ph_alg = SHA256, ph_value = hash32 1\<rparr>) rs) =
      (if dir = dir' then map (\<lambda>r. \<lparr>ph_direction = dir, ph_idx = [r], ph_alg = SHA256, ph_value = hash32 1\<rparr>) rs else [])" for rs
    by (induction rs) auto
  then show ?thesis by (simp add: committed_under_def)
qed

lemma round_trip_observed:
  "round_trip to_partial keccak256 sent recv sl rl =
     from_observed keccak256 (observed (to_partial sent recv (reveal sl) (reveal rl))
       (committed_under Sent sl @ committed_under Received rl))"
  by (simp add: round_trip_def Let_def committed_under_def)

lemma round_trip_record:
  assumes laws: "partial_laws to_partial" and t: "tiles sl (length sent)" "tiles rl (length recv)"
    and n: "length sent < 2 ^ 32" "length recv < 2 ^ 32"
  obtains d where "round_trip to_partial keccak256 sent recv sl rl = Inr d"
    and "assert_tiles (sent_block d) (sent_transcript_length d)"
    and "assert_tiles (received_block d) (recv_transcript_length d)"
    and "sent_transcript_length d = of_nat (length sent)"
    and "mset (map com_span (blk_commitments (sent_block d))) = mset (commit sl)"
    and "map rev_span (blk_revealed (sent_block d)) = sent_authed (to_partial sent recv (reveal sl) (reveal rl))"
proof -
  let ?t = "to_partial sent recv (reveal sl) (reveal rl)"
  let ?s = "observed ?t (committed_under Sent sl @ committed_under Received rl)"
  have ok: "list_all (span_ok (length sent)) (reveal sl)" "list_all (span_ok (length recv)) (reveal rl)"
    using tiles_disjoint(1) [OF t(1)] tiles_disjoint(1) [OF t(2)] by (simp_all add: list_all_iff)
  note p = partial_lawsD [OF laws ok]
  have os: "observes Sent sl sent ?s"
    unfolding observed_def using p(1)
    by (intro observes_partial) (simp_all add: authed_of_def unsafe_of_def hashes_of_append hashes_of_committed)
  have oR: "observes Received rl recv ?s"
    unfolding observed_def using p(2)
    by (intro observes_partial) (simp_all add: authed_of_def unsafe_of_def hashes_of_append hashes_of_committed)
  have sha: "sha256_hashes dir ?s" for dir
    by (auto simp: sha256_hashes_def observed_def observed_at_def hashes_of_append hashes_of_committed
        list_all_iff hash32_def)
  let ?d = "record_of keccak256 ?s"
  have lens: "len_sent (obs_transcript ?s) = length sent" "len_received (obs_transcript ?s) = length recv"
    using p(3,4) by (simp_all add: observed_def observed_at_def)
  have "session_describable ?s"
    using observed_block(1) [OF os sha t(1) n(1)] observed_block(1) [OF oR sha t(2) n(2)] n lens
    by (simp add: session_describable_def block_from_observed_eq)
  then have r: "round_trip to_partial keccak256 sent recv sl rl = Inr ?d"
    by (simp add: round_trip_observed from_observed_eq)
  show ?thesis
    by (rule that [OF r])
       (use assert_tiles_observed [OF os sha t(1) n(1)] assert_tiles_observed [OF oR sha t(2) n(2)]
         observed_block(2,3) [OF os sha t(1) n(1)] lens
        in \<open>simp_all add: record_of_def authed_of_def observed_def observed_at_def\<close>)
qed

section \<open>The record of the session of the tests\<close>

definition test_record :: "(bytes \<Rightarrow> bytes) \<Rightarrow> bytes \<Rightarrow> bytes \<Rightarrow> attested_data" where
  "test_record keccak256 recv authority =
     \<lparr>authority_id = authority_id_of keccak256 authority, created_at = 1770000000,
      sent_transcript_length = of_nat (length test_sent), recv_transcript_length = of_nat (length recv),
      sent_block = \<lparr>blk_revealed = [\<lparr>rev_start = 0, rev_bytes = take 48 test_sent\<rparr>,
                                     \<lparr>rev_start = 51, rev_bytes = drop 51 test_sent\<rparr>],
                    blk_commitments = [\<lparr>com_start = 48, com_end = 51, com_commitment = hash32 7\<rparr>]\<rparr>,
      received_block = \<lparr>blk_revealed = [\<lparr>rev_start = 0, rev_bytes = recv\<rparr>], blk_commitments = []\<rparr>\<rparr>"

lemma length_test_sent: "length test_sent = 55"
  by (simp add: test_sent_def)

lemma session_partial_shows:
  assumes "partial_laws to_partial" and "recv \<noteq> []"
  shows "sent_authed (session_partial to_partial recv) = [rng 0 48, rng 51 55]"
    and "received_authed (session_partial to_partial recv) = [rng 0 (length recv)]"
    and "in_slice (sent_unsafe (session_partial to_partial recv)) (rng 0 48)"
      "slice (sent_unsafe (session_partial to_partial recv)) (rng 0 48) = take 48 test_sent"
    and "in_slice (sent_unsafe (session_partial to_partial recv)) (rng 51 55)"
      "slice (sent_unsafe (session_partial to_partial recv)) (rng 51 55) = drop 51 test_sent"
    and "in_slice (received_unsafe (session_partial to_partial recv)) (rng 0 (length recv))"
      "slice (received_unsafe (session_partial to_partial recv)) (rng 0 (length recv)) = recv"
    and "len_sent (session_partial to_partial recv) = 55" "len_received (session_partial to_partial recv) = length recv"
proof -
  have ok: "list_all (span_ok (length test_sent)) [rng 0 48, rng 51 (length test_sent)]"
      "list_all (span_ok (length recv)) [rng 0 (length recv)]"
    using assms(2) by (simp_all add: span_ok_def length_test_sent)
  note p = partial_lawsD [OF assms(1) ok, folded session_partial_def, unfolded length_test_sent]
  have "list_all (span_ok (length test_sent)) [rng 0 48, rng 51 55]" using ok(1) by (simp add: length_test_sent)
  note s = partial_shows_unique [OF p(1) _ this, simplified] and r = partial_shows_unique [OF p(2) _ ok(2), simplified]
  show "sent_authed (session_partial to_partial recv) = [rng 0 48, rng 51 55]"
      "received_authed (session_partial to_partial recv) = [rng 0 (length recv)]"
    using s(1) r(1) assms(2) by simp_all
  show "in_slice (sent_unsafe (session_partial to_partial recv)) (rng 0 48)"
      "slice (sent_unsafe (session_partial to_partial recv)) (rng 0 48) = take 48 test_sent"
      "in_slice (sent_unsafe (session_partial to_partial recv)) (rng 51 55)"
      "slice (sent_unsafe (session_partial to_partial recv)) (rng 51 55) = drop 51 test_sent"
    using s(2) slice_suffix [of test_sent 51] by (simp_all add: length_test_sent slice_prefix)
  show "in_slice (received_unsafe (session_partial to_partial recv)) (rng 0 (length recv))"
      "slice (received_unsafe (session_partial to_partial recv)) (rng 0 (length recv)) = recv"
    using r(2) assms(2) by (simp_all add: slice_full)
  show "len_sent (session_partial to_partial recv) = 55" "len_received (session_partial to_partial recv) = length recv"
    using p(3,4) by simp_all
qed

lemma session_record_eq:
  assumes "partial_laws to_partial" and "recv \<noteq> []" and "length recv < 2 ^ 32"
  shows "from_observed keccak256 (observed_at (session_partial to_partial recv) session_commitments authority)
    = Inr (test_record keccak256 recv authority)"
proof -
  note p = session_partial_shows [OF assms(1,2)]
  have "session_describable (observed_at (session_partial to_partial recv) session_commitments authority)"
    using assms(3) p by (simp add: session_describable_def direction_describable_def observed_at_def
      authed_of_def unsafe_of_def session_commitments_def describable_def fits_def hash32_def)
  moreover have "record_of keccak256 (observed_at (session_partial to_partial recv) session_commitments authority)
      = test_record keccak256 recv authority"
    by (simp add: record_of_def test_record_def block_of_def observed_at_def authed_of_def unsafe_of_def p
        session_commitments_def described_def revealed_of_def length_test_sent)
  ultimately show ?thesis by (simp add: from_observed_eq)
qed

lemma test_responses: "test_recv \<noteq> []" "length test_recv < 2 ^ 32" "other_recv \<noteq> []" "length other_recv < 2 ^ 32"
  by (simp_all add: test_recv_def other_recv_def ok_head_def json_text_def)

lemma session_record_of:
  "partial_laws to_partial \<Longrightarrow> session_record to_partial keccak256 = Inr (test_record keccak256 test_recv (ascii ''api.x.com''))"
  unfolding session_record_def observed_def by (rule session_record_eq [OF _ test_responses(1,2)])

lemma observed_session_tests:
  assumes "partial_laws to_partial"
  shows "carries_the_signed_transcript_lengths to_partial keccak256"
    and "tiles_the_request_exactly to_partial keccak256"
    and "the_notarys_clock_reading_reaches_the_record to_partial keccak256"
    and "the_authority_is_canonicalized_on_the_way_into_the_record to_partial keccak256"
proof -
  note r = session_record_of [OF assms]
  show "carries_the_signed_transcript_lengths to_partial keccak256"
    by (simp add: carries_the_signed_transcript_lengths_def r unwrapped_ok_def test_record_def)
  have "take 48 test_sent = take 48 test_sent \<and> length (take 48 test_sent) = 48 \<and> length (drop 51 test_sent) = 4"
    by (simp add: length_test_sent)
  then show "tiles_the_request_exactly to_partial keccak256"
    by (simp add: tiles_the_request_exactly_def r unwrapped_ok_def test_record_def assert_tiles_def
        spans_of_block_def length_test_sent less_eq_prod_def word_less_nat_alt insort_key.simps)
  show "the_authority_is_canonicalized_on_the_way_into_the_record to_partial keccak256"
    by (simp add: the_authority_is_canonicalized_on_the_way_into_the_record_def
        session_record_eq [OF assms test_responses(1,2)] unwrapped_ok_def test_record_def authority_id_of_def)
       (simp add: eval)
  have "session_describable ((observed (session_partial to_partial test_recv) session_commitments)\<lparr>obs_created_at := 1800000123\<rparr>)
      = session_describable (observed (session_partial to_partial test_recv) session_commitments)"
    by (simp add: session_describable_def direction_describable_def)
  moreover have "session_describable (observed (session_partial to_partial test_recv) session_commitments)"
    using r by (simp add: session_record_def from_observed_eq)
  ultimately have "from_observed keccak256
      ((observed (session_partial to_partial test_recv) session_commitments)\<lparr>obs_created_at := 1800000123\<rparr>)
      = Inr (record_of keccak256 ((observed (session_partial to_partial test_recv) session_commitments)\<lparr>obs_created_at := 1800000123\<rparr>))"
    by (simp add: from_observed_eq)
  then show "the_notarys_clock_reading_reaches_the_record to_partial keccak256"
    by (simp add: the_notarys_clock_reading_reaches_the_record_def Let_def unwrapped_ok_def record_of_def)
qed

text \<open>The hash of the tests: 32 bytes, and no collision on the server names they use.\<close>

definition test_names :: "bytes set" where
  "test_names = {ascii ''api.x.com'', ascii ''api.github.com'', ascii ''evil.example''}"

definition keccak_ok :: "(bytes \<Rightarrow> bytes) \<Rightarrow> bool" where
  "keccak_ok keccak256 \<longleftrightarrow> (\<forall>bs. length (keccak256 bs) = 32) \<and> inj_on keccak256 test_names"

lemma authority_ids_differ:
  assumes "keccak_ok keccak256" and "a \<in> test_names" and "b \<in> test_names"
  shows "authority_id_of keccak256 a = authority_id_of keccak256 b \<longleftrightarrow> a = b"
proof -
  have low: "map to_ascii_lowercase x = x" if "x \<in> test_names" for x
    using that by (auto simp: test_names_def eval)
  show ?thesis
    using assms inj_on_eq_iff [of keccak256 test_names a b] by (simp add: authority_id_of_def low keccak_ok_def)
qed

lemma wf_test_record:
  assumes "keccak_ok keccak256" and "length recv < 2 ^ 32"
  shows "wf_attested (test_record keccak256 recv authority)"
  using assms
  by (simp add: wf_attested_def test_record_def authority_id_of_def keccak_ok_def wf_block_def wf_revealed_def
      wf_commitment_def hash32_def length_test_sent isize_max_def)

lemma named_session_tests:
  assumes "partial_laws to_partial" and "keccak_ok keccak256"
  shows "authority_is_the_authenticated_server_name to_partial keccak256"
    and "the_record_names_the_authority_this_session_carried to_partial keccak256"
proof -
  have n: "ascii ''api.x.com'' \<in> test_names" "ascii ''api.github.com'' \<in> test_names" "ascii ''evil.example'' \<in> test_names"
    by (simp_all add: test_names_def)
  have d: "ascii ''api.x.com'' \<noteq> ascii ''evil.example''" "ascii ''api.github.com'' \<noteq> ascii ''api.x.com''"
    by (simp_all add: ascii_def)
  show "authority_is_the_authenticated_server_name to_partial keccak256"
    using authority_ids_differ [OF assms(2) n(1,3)] d(1)
    by (simp add: authority_is_the_authenticated_server_name_def session_record_of [OF assms(1)] unwrapped_ok_def
        test_record_def)
  show "the_record_names_the_authority_this_session_carried to_partial keccak256"
    using authority_ids_differ [OF assms(2) n(2,1)] d(2)
    by (simp add: the_record_names_the_authority_this_session_carried_def
        session_record_eq [OF assms(1) test_responses(1,2)] unwrapped_ok_def test_record_def)
qed

lemma encodes_to_the_length_its_own_fields_imply_holds:
  assumes "partial_laws to_partial" and "keccak_ok keccak256" and "big_endian_fixint cfg"
  shows "encodes_to_the_length_its_own_fields_imply to_partial keccak256 cfg"
  using encode_attested_is_layout_parts [OF assms(3) wf_test_record [OF assms(2) test_responses(2)]]
  by (simp add: encodes_to_the_length_its_own_fields_imply_def session_record_of [OF assms(1)] unwrapped_ok_def)
     (simp add: test_record_def block_len_def length_test_sent)

lemma the_fixture_commits_the_credential_holds:
  assumes "partial_laws to_partial"
  shows "the_fixture_commits_the_credential_and_reveals_none_of_it to_partial keccak256"
proof -
  have "windows_position 3 (\<lambda>w. w = ascii ''TOK'') test_sent = Some 48"
    by (simp add: test_sent_def eval)
  then show ?thesis
    by (simp add: the_fixture_commits_the_credential_and_reveals_none_of_it_def session_record_of [OF assms]
        unwrapped_ok_def unwrapped_def test_record_def length_test_sent)
qed

lemma refused_commitments:
  assumes "partial_laws to_partial" and "commitment_of h = Inl e" and "ph_direction h = Sent"
  shows "from_observed keccak256 (observed (session_partial to_partial test_recv) [HashCommitment h]) = Inl e"
  using session_partial_shows [OF assms(1) test_responses(1)] test_responses(2) assms(2,3)
  by (simp add: from_observed_def observed_def observed_at_def u32_of_def block_from_observed_def get_range_def ok_or_def)

lemma refusal_tests:
  assumes "partial_laws to_partial"
  shows "refuses_a_blake3_commitment to_partial keccak256 blake3"
    and "refuses_a_commitment_over_disjoint_ranges to_partial keccak256"
proof -
  have "commitment_of \<lparr>ph_direction = Sent, ph_idx = [rng 48 51], ph_alg = OtherAlg blake3, ph_value = hash32 7\<rparr>
      = Inl (Refused (WrongCommitmentAlgorithm (OtherAlg blake3)))"
    by (simp add: commitment_of_def)
  from refused_commitments [OF assms this] show "refuses_a_blake3_commitment to_partial keccak256 blake3"
    by (simp add: refuses_a_blake3_commitment_def session_commitments_def)
  have "commitment_of \<lparr>ph_direction = Sent, ph_idx = [rng 10 12, rng 20 22], ph_alg = SHA256, ph_value = hash32 7\<rparr>
      = Inl (Refused (DisjointCommitment 2))"
    by (simp add: commitment_of_def)
  from refused_commitments [OF assms this] show "refuses_a_commitment_over_disjoint_ranges to_partial keccak256"
    by (simp add: refuses_a_commitment_over_disjoint_ranges_def)
qed

lemma places_no_profile_derived_value_holds:
  assumes "partial_laws to_partial" and "keccak_ok keccak256" and "big_endian_fixint cfg"
  shows "places_no_profile_derived_value_in_the_signed_bytes to_partial keccak256 cfg"
proof -
  let ?a = "test_record keccak256 test_recv (ascii ''api.x.com'')" and ?b = "test_record keccak256 other_recv (ascii ''api.x.com'')"
  have len: "length other_recv = length test_recv" by (simp add: test_recv_def other_recv_def json_text_def)
  have ne: "test_recv \<noteq> other_recv" by (simp add: test_recv_def other_recv_def json_text_def ascii_def)
  have wf: "wf_attested ?a" "wf_attested ?b" using wf_test_record [OF assms(2)] test_responses by simp_all
  note e = encode_attested_lay [OF assms(3) wf(1)] encode_attested_lay [OF assms(3) wf(2)]
  have "lay_attested ?a \<noteq> lay_attested ?b"
    using attested.enc_inj [OF wf] ne by (auto simp: test_record_def)
  moreover have "take header_len (lay_attested ?a) = take header_len (lay_attested ?b)"
      "header_len \<le> length (lay_attested ?a)" "header_len \<le> length (lay_attested ?b)"
    using assms(2) by (simp_all add: lay_attested_def test_record_def header_len_def authority_id_of_def keccak_ok_def len)
  ultimately show ?thesis
    by (simp add: places_no_profile_derived_value_in_the_signed_bytes_def len unwrapped_ok_def unwrapped_def e
        session_record_eq [OF assms(1) test_responses(1,2)]
        session_record_eq [OF assms(1) test_responses(3,4)] observed_def get_range_def in_slice_def slice_prefix)
qed

section \<open>The tests of the selected layouts\<close>

lemma the_identity_session_layout_tiles_both_directions_holds:
  assumes "launch_profiles_ok p" and "partial_laws to_partial"
  shows "the_identity_session_layout_tiles_both_directions p pcs to_partial keccak256"
proof -
  let ?sent = "ascii ''GET /2/users/me HTTP/1.1'' @ crlf @ ascii ''host: api.x.com'' @ crlf @
      ascii ''authorization: Bearer TOKENVALUE'' @ crlf @ ascii ''connection: close'' @ crlf @ crlf"
  let ?recv = "type_head @ json_text ''{`data`:{`id`:`2244994945`,`name`:`Al`,`username`:`alice`}}''"
  obtain s where s: "identity_request ?sent = Inr s" "tiles s (length ?sent)" "length (commit s) = 1"
    using identity_request_tests(1)
    unfolding the_identity_request_commits_only_the_bearer_def Let_def unwrapped_ok_iff by blast
  obtain r where r: "identity_response pcs ?recv x_identity_session = Inr r" "tiles r (length ?recv)"
    using the_identity_response_reveals_both_members_whole_holds [OF assms(1), of pcs]
    unfolding the_identity_response_reveals_both_members_whole_def Let_def launch_profiles_okD [OF assms(1)]
      unwrapped_ok_iff by blast
  have n: "length ?sent < 2 ^ 32" "length ?recv < 2 ^ 32" by (simp_all add: type_head_def json_text_def)
  obtain d where d: "round_trip to_partial keccak256 ?sent ?recv s r = Inr d"
      "assert_tiles (sent_block d) (sent_transcript_length d)" "assert_tiles (received_block d) (recv_transcript_length d)"
      "mset (map com_span (blk_commitments (sent_block d))) = mset (commit s)"
    using round_trip_record [OF assms(2) s(2) r(2) n] by metis
  have "length (blk_commitments (sent_block d)) = 1"
    using arg_cong [OF d(4), of size] s(3) by simp
  then show ?thesis
    unfolding the_identity_session_layout_tiles_both_directions_def Let_def launch_profiles_okD [OF assms(1)]
      s(1) r(1) unwrapped_ok_def sum.case d(1)
    using d(2,3) by blast
qed

lemma token_answer_tiles:
  assumes "quote \<notin> set bearer" and "bearer \<noteq> []" and "raw = 0x7B # member_text access_token_field [] [] bearer @ [0x7D]"
    and "plain_object raw" and "slice_ok (ok_head @ raw)"
  obtains l where "token_response pcs (ok_head @ raw) = Inr l" and "tiles l (length (ok_head @ raw))"
proof -
  have ws: "json_ws []" by (simp add: json_ws_def)
  note l = token_response_of_object [OF ws ws assms(1-3) ok_head_no_encoding [OF assms(4)] assms(5) refl refl, of pcs]
  show ?thesis by (rule that [OF l constructed_tiles [OF constructed.token_response [OF l]]])
qed

lemma the_x_token_session_layout_tiles_holds:
  assumes "launch_profiles_ok p" and "partial_laws to_partial"
  shows "the_x_token_session_layout_tiles p pcs to_partial keccak256"
proof -
  let ?raw = "json_text ''{`access_token`:`SECRETBEARER`}''"
  obtain s where s: "token_request x_token_req x_token_session = Inr s" "reveal s = [rng 0 (length x_token_req)]"
      "commit s = []" "tiles s (length x_token_req)"
    using the_x_token_request_is_revealed_whole_holds [OF assms(1)]
    unfolding the_x_token_request_is_revealed_whole_def launch_profiles_okD [OF assms(1)] unwrapped_ok_iff by blast
  have raw: "quote \<notin> set (ascii ''SECRETBEARER'')" "ascii ''SECRETBEARER'' \<noteq> []"
      "?raw = 0x7B # member_text access_token_field [] [] (ascii ''SECRETBEARER'') @ [0x7D]" "plain_object ?raw" "slice_ok (ok_head @ ?raw)"
    by (simp_all add: eval)
  obtain r where r: "token_response pcs (ok_head @ ?raw) = Inr r" "tiles r (length (ok_head @ ?raw))"
    by (rule token_answer_tiles [OF raw])
  have n: "length x_token_req < 2 ^ 32" "length (ok_head @ ?raw) < 2 ^ 32"
    by (simp_all add: x_token_req_def ok_head_def json_text_def)
  obtain d where d: "round_trip to_partial keccak256 x_token_req (ok_head @ ?raw) s r = Inr d"
      "assert_tiles (sent_block d) (sent_transcript_length d)"
      "mset (map com_span (blk_commitments (sent_block d))) = mset (commit s)"
      "map rev_span (blk_revealed (sent_block d)) = sent_authed (to_partial x_token_req (ok_head @ ?raw) (reveal s) (reveal r))"
    using round_trip_record [OF assms(2) s(4) r(2) n] by metis
  have ok: "list_all (span_ok (length x_token_req)) (reveal s)" "list_all (span_ok (length (ok_head @ ?raw))) (reveal r)"
    using tiles_disjoint(1) [OF s(4)] tiles_disjoint(1) [OF r(2)] by (simp_all add: list_all_iff)
  have "range_set (reveal s)" using ok(1) by (simp add: s(2) span_ok_def)
  then have "map rev_span (blk_revealed (sent_block d)) = [rng 0 (length x_token_req)]"
    using partial_shows_unique(1) [OF partial_lawsD(1) [OF assms(2) ok] _ ok(1)] d(4) s(2) by simp
  then obtain v where v: "blk_revealed (sent_block d) = [v]" "rev_span v = rng 0 (length x_token_req)"
    by (auto simp: map_eq_Cons_conv)
  moreover have "rev_start v = 0" using v(2) by (simp add: rev_span_def unat_eq_0)
  moreover have "blk_commitments (sent_block d) = []" using d(3) s(3) by simp
  ultimately show ?thesis
    unfolding the_x_token_session_layout_tiles_def Let_def launch_profiles_okD [OF assms(1)]
      s(1) r(1) unwrapped_ok_def sum.case d(1)
    using d(2) by (simp add: at_index_def)
qed

lemma the_github_exchange_layout_commits_a_suffix_holds:
  assumes "launch_profiles_ok p" and "partial_laws to_partial"
  shows "the_github_exchange_layout_commits_a_suffix p pcs to_partial keccak256"
proof -
  let ?raw = "json_text ''{`access_token`:`gho_SECRET`}''"
  obtain s where s: "token_request github_exchange_req github_token_session = Inr s" "length (reveal s) = 1"
      "length (commit s) = 1" "at_index (commit s) 0 (\<lambda>c. sp_end c = length github_exchange_req)"
      "tiles s (length github_exchange_req)"
    using the_github_exchange_commits_only_its_secret_holds [OF assms(1)]
    unfolding the_github_exchange_commits_only_its_secret_def launch_profiles_okD [OF assms(1)] unwrapped_ok_iff by blast
  have raw: "quote \<notin> set (ascii ''gho_SECRET'')" "ascii ''gho_SECRET'' \<noteq> []"
      "?raw = 0x7B # member_text access_token_field [] [] (ascii ''gho_SECRET'') @ [0x7D]" "plain_object ?raw" "slice_ok (ok_head @ ?raw)"
    by (simp_all add: eval)
  obtain r where r: "token_response pcs (ok_head @ ?raw) = Inr r" "tiles r (length (ok_head @ ?raw))"
    by (rule token_answer_tiles [OF raw])
  have n: "length github_exchange_req < 2 ^ 32" "length (ok_head @ ?raw) < 2 ^ 32"
    by (simp_all add: github_exchange_req_def ok_head_def json_text_def)
  obtain d where d: "round_trip to_partial keccak256 github_exchange_req (ok_head @ ?raw) s r = Inr d"
      "assert_tiles (sent_block d) (sent_transcript_length d)"
      "sent_transcript_length d = of_nat (length github_exchange_req)"
      "mset (map com_span (blk_commitments (sent_block d))) = mset (commit s)"
      "map rev_span (blk_revealed (sent_block d)) = sent_authed (to_partial github_exchange_req (ok_head @ ?raw) (reveal s) (reveal r))"
    using round_trip_record [OF assms(2) s(5) r(2) n] by metis
  have ok: "list_all (span_ok (length github_exchange_req)) (reveal s)" "list_all (span_ok (length (ok_head @ ?raw))) (reveal r)"
    using tiles_disjoint(1) [OF s(5)] tiles_disjoint(1) [OF r(2)] by (simp_all add: list_all_iff)
  obtain a where a: "reveal s = [a]" using s(2) by (auto simp: length_Suc_conv)
  have "range_set (reveal s)" using ok(1) by (simp add: a span_ok_def)
  then have "map rev_span (blk_revealed (sent_block d)) = [a]"
    using partial_shows_unique(1) [OF partial_lawsD(1) [OF assms(2) ok] _ ok(1)] d(5) a by simp
  then have one: "length (blk_revealed (sent_block d)) = 1" by (auto simp: map_eq_Cons_conv)
  obtain c where c: "commit s = [c]" "sp_end c = length github_exchange_req"
    using s(3,4) by (auto simp: length_Suc_conv at_index_def)
  have "mset (map com_span (blk_commitments (sent_block d))) = {#c#}" unfolding d(4) c(1) by simp
  then have "map com_span (blk_commitments (sent_block d)) = [c]" by (simp only: mset_single_iff)
  then obtain v where v: "blk_commitments (sent_block d) = [v]" "com_span v = c"
    by (auto simp: map_eq_Cons_conv)
  moreover have "com_end v = of_nat (length github_exchange_req)"
    using v(2) c(2) n(1) by (auto simp: com_span_def word_unat_eq_iff unat_of_nat)
  ultimately show ?thesis using one
    unfolding the_github_exchange_layout_commits_a_suffix_def Let_def launch_profiles_okD [OF assms(1)]
      s(1) r(1) unwrapped_ok_def sum.case d(1)
    using d(2,3) by (simp add: at_index_def)
qed

section \<open>A partial transcript\<close>

text \<open>The set of the covered positions below a length, as an instance of the argument.\<close>

fun runs :: "(nat \<Rightarrow> bool) \<Rightarrow> nat \<Rightarrow> nat \<Rightarrow> span list" where
  "runs P i 0 = []"
| "runs P i (Suc n) =
     (if P i then (case runs P (Suc i) n of
        [] \<Rightarrow> [rng i (Suc i)]
      | r # rs \<Rightarrow> if sp_start r = Suc i then rng i (sp_end r) # rs else rng i (Suc i) # r # rs)
      else runs P (Suc i) n)"

lemma runs_covered:
  "range_set (runs P i n) \<and> list_all (\<lambda>r. i \<le> sp_start r \<and> sp_end r \<le> i + n) (runs P i n) \<and>
   (\<forall>j. covered j (runs P i n) \<longleftrightarrow> i \<le> j \<and> j < i + n \<and> P j)"
proof (induction n arbitrary: i)
  case 0
  then show ?case by (auto simp: covered_def)
next
  case (Suc n)
  let ?rest = "runs P (Suc i) n"
  note ih = Suc.IH [of "Suc i"]
  show ?case
  proof (cases "P i")
    case False
    then have step: "j = i \<longrightarrow> \<not> P j" for j by simp
    show ?thesis using ih False step by (auto simp: list_all_iff) (metis Suc_leI le_neq_implies_less)+
  next
    case True
    show ?thesis
    proof (cases ?rest)
      case Nil
      have off: "\<not> P j" if "Suc i \<le> j" "j < i + Suc n" for j using ih Nil that by (simp add: covered_def)
      have "i \<le> j \<and> j < i + Suc n \<and> P j \<longleftrightarrow> j = i" for j
      proof
        assume j: "i \<le> j \<and> j < i + Suc n \<and> P j"
        then show "j = i" using off [of j] by (cases "Suc i \<le> j") simp_all
      next
        assume "j = i"
        then show "i \<le> j \<and> j < i + Suc n \<and> P j" using True by simp
      qed
      moreover have "covered j [rng i (Suc i)] \<longleftrightarrow> j = i" for j by (auto simp: covered_def covers_def)
      moreover have "runs P i (Suc n) = [rng i (Suc i)]" using Nil True by simp
      ultimately show ?thesis by (simp only:) simp
    next
      case (Cons r rs)
      have r: "sp_start r < sp_end r" using ih Cons range_set_tail [of r rs] by simp
      have cov: "covered j (r # rs) \<longleftrightarrow> Suc i \<le> j \<and> j < Suc i + n \<and> P j" for j using ih Cons by auto
      show ?thesis
      proof (cases "sp_start r = Suc i")
        case touch: True
        have runs: "runs P i (Suc n) = rng i (sp_end r) # rs" using True Cons touch by simp
        have "covered j (rng i (sp_end r) # rs) \<longleftrightarrow> j = i \<or> covered j (r # rs)" for j
          using touch r by (auto simp: covered_Cons covers_def)
        moreover have "range_set (rng i (sp_end r) # rs)" using ih Cons touch r by (cases rs) auto
        ultimately show ?thesis unfolding runs using ih Cons cov True r by (auto simp: list_all_iff)
      next
        case apart: False
        have runs: "runs P i (Suc n) = rng i (Suc i) # r # rs" using True Cons apart by simp
        have "covered j (rng i (Suc i) # r # rs) \<longleftrightarrow> j = i \<or> covered j (r # rs)" for j
          by (auto simp: covered_Cons covers_def)
        moreover have "Suc i < sp_start r" using ih Cons apart by (auto simp: list_all_iff)
        ultimately show ?thesis unfolding runs using ih Cons cov True by (auto simp: list_all_iff)
      qed
    qed
  qed
qed

definition shown :: "bytes \<Rightarrow> span list \<Rightarrow> span list" where
  "shown data rs = runs (\<lambda>i. covered i rs) 0 (length data)"

definition masked_partial :: partial_of where
  "masked_partial sent recv rs ss =
     \<lparr>len_sent = length sent, len_received = length recv, sent_authed = shown sent rs,
      received_authed = shown recv ss, sent_unsafe = masked sent rs, received_unsafe = masked recv ss\<rparr>"

lemma masked_shows: "partial_shows data rs (shown data rs) (masked data rs)"
  using runs_covered [of "\<lambda>i. covered i rs" 0 "length data"]
  by (auto simp: partial_shows_def shown_def masked_def list_all_iff in_slice_def
      dest: range_set_nonempty intro: less_imp_le)

lemma masked_partial_laws: "partial_laws masked_partial"
  by (simp add: partial_laws_def masked_partial_def masked_shows)

section \<open>The module\<close>

definition attest_tests ::
  "launch_profiles \<Rightarrow> chunk_size_parser \<Rightarrow> partial_of \<Rightarrow> (bytes \<Rightarrow> bytes) \<Rightarrow> 'e bincode \<Rightarrow> byte \<Rightarrow> bool list" where
  "attest_tests p pcs to_partial keccak256 cfg blake3 =
     [carries_the_signed_transcript_lengths to_partial keccak256,
      encodes_to_the_length_its_own_fields_imply to_partial keccak256 cfg,
      tiles_the_request_exactly to_partial keccak256,
      the_fixture_commits_the_credential_and_reveals_none_of_it to_partial keccak256,
      authority_is_the_authenticated_server_name to_partial keccak256,
      the_authority_is_canonicalized_on_the_way_into_the_record to_partial keccak256,
      the_record_names_the_authority_this_session_carried to_partial keccak256,
      the_notarys_clock_reading_reaches_the_record to_partial keccak256,
      refuses_a_blake3_commitment to_partial keccak256 blake3,
      refuses_a_commitment_over_disjoint_ranges to_partial keccak256,
      places_no_profile_derived_value_in_the_signed_bytes to_partial keccak256 cfg,
      the_identity_session_layout_tiles_both_directions p pcs to_partial keccak256,
      the_x_token_session_layout_tiles p pcs to_partial keccak256,
      the_github_exchange_layout_commits_a_suffix p pcs to_partial keccak256]"

text \<open>The record builder passes the crate's own tests, for every partial transcript that shows
  what was revealed, every 32-byte hash without a collision on the tests' server names and
  every profile table with the launch platforms' fields.\<close>
theorem attest_tests_pass:
  assumes "launch_profiles_ok p" and "partial_laws to_partial" and "keccak_ok keccak256" and "big_endian_fixint cfg"
  shows "list_all (\<lambda>passes. passes) (attest_tests p pcs to_partial keccak256 cfg blake3)"
  by (simp add: attest_tests_def observed_session_tests [OF assms(2)] named_session_tests [OF assms(2,3)]
      refusal_tests [OF assms(2)] encodes_to_the_length_its_own_fields_imply_holds [OF assms(2-4)]
      the_fixture_commits_the_credential_holds [OF assms(2)] places_no_profile_derived_value_holds [OF assms(2-4)]
      the_identity_session_layout_tiles_both_directions_holds [OF assms(1,2)]
      the_x_token_session_layout_tiles_holds [OF assms(1,2)]
      the_github_exchange_layout_commits_a_suffix_holds [OF assms(1,2)])

definition padded :: "bytes \<Rightarrow> bytes" where
  "padded bs = take 32 (bs @ replicate 32 0)"

lemma padded_ok: "keccak_ok padded"
  by (simp add: keccak_ok_def padded_def inj_on_def test_names_def ascii_def min_def)

theorem attest_tests_pass_witness:
  "list_all (\<lambda>passes. passes) (attest_tests sample_profiles hex_chunk_size masked_partial padded wire_config 3)"
  by (rule attest_tests_pass [OF sample_profiles_ok masked_partial_laws padded_ok wire_config_fixint])

end
