(* ===== verification/Session_Tests.thy ===== *)
theory Session_Tests
  imports Session_Parts Test_Text
begin

text \<open>
  The tests of \<open>libid-tlsn/src/session.rs\<close> on the model of \<open>Session_Parts\<close>. The commitment
  builder of \<open>tlsn\<close> and the URIs of \<open>hyper\<close> are arguments: \<open>builder_takes\<close> and
  \<open>https_uris\<close> are what the tests use of them. Lemma: all of them pass.
\<close>

section \<open>The commitment configuration\<close>

text \<open>The transcript of the test is the lengths the builder checks a range against.\<close>

definition every_commitment_this_prover_configures_is_sha256 ::
  "(bytes \<Rightarrow> bytes \<Rightarrow> ('c, 'cfg) commit_builder \<times> 'c) \<Rightarrow> ('cfg \<Rightarrow> (direction \<times> span \<times> hash_alg_id) list) \<Rightarrow> bool" where
  "every_commitment_this_prover_configures_is_sha256 builder_of iter_hash \<longleftrightarrow>
     (let (cb, builder) = builder_of (ascii ''GET / HTTP/1.1'' @ crlf @ crlf) (ascii ''HTTP/1.1 200 OK'' @ crlf @ crlf @ ascii ''x'') in
      unwrapped_ok (transcript_commit_config cb builder [rng 0 4, rng 6 10] [rng 0 4, rng 6 10]) (\<lambda>config.
        let algs = map (\<lambda>(_, _, alg). alg) (iter_hash config) in
        length algs = 4 \<and> list_all (\<lambda>alg. alg = SHA256) algs))"

section \<open>Lengths\<close>

definition test_tls_record :: "content_type \<Rightarrow> nat \<Rightarrow> tls_record" where
  "test_tls_record typ len = \<lparr>rec_typ = typ, rec_ciphertext = replicate len 0\<rparr>"

text \<open>\<open>ContentType::Handshake\<close> and \<open>ContentType::Alert\<close> are the other content of the model.\<close>

definition the_session_length_counts_only_its_application_data :: bool where
  "the_session_length_counts_only_its_application_data \<longleftrightarrow>
     application_data_len [test_tls_record OtherContent 100, test_tls_record ApplicationData 40,
                           test_tls_record OtherContent 7, test_tls_record ApplicationData 2] = 42"

definition a_commitment_past_the_session_is_refused :: bool where
  "a_commitment_past_the_session_is_refused \<longleftrightarrow>
     commitment_past_the_session [(Sent, Some (2 ^ 40))] 4096 4096 = Some (Sent, 2 ^ 40, 4096) \<and>
     commitment_past_the_session [(Received, Some 4097)] 4096 4096 = Some (Received, 4097, 4096)"

definition a_commitment_the_session_carried_is_allowed :: bool where
  "a_commitment_the_session_carried_is_allowed \<longleftrightarrow>
     commitment_past_the_session [(Sent, Some 4096), (Received, Some 30000), (Sent, None)] 4096 32768 = None"

section \<open>Origin form\<close>

definition test_session_request :: "(bytes \<Rightarrow> 'u) \<Rightarrow> bytes \<Rightarrow> ('u, (bytes \<times> bytes) list) http_request" where
  "test_session_request parse uri =
     \<lparr>req_uri = parse uri, req_rest = [(ascii ''Host'', ascii ''www.googleapis.com'')]\<rparr>"

definition origin_form_keeps_path_and_query :: "('u, 'p) uri_ops \<Rightarrow> (bytes \<Rightarrow> 'u) \<Rightarrow> ('u \<Rightarrow> bytes) \<Rightarrow> bool" where
  "origin_form_keeps_path_and_query ops parse show \<longleftrightarrow>
     unwrapped_ok (origin_form ops (test_session_request parse (ascii ''https://www.googleapis.com/p?q=1'')))
       (\<lambda>request. show (req_uri request) = ascii ''/p?q=1'')"

definition origin_form_keeps_a_bare_path :: "('u, 'p) uri_ops \<Rightarrow> (bytes \<Rightarrow> 'u) \<Rightarrow> ('u \<Rightarrow> bytes) \<Rightarrow> bool" where
  "origin_form_keeps_a_bare_path ops parse show \<longleftrightarrow>
     unwrapped_ok (origin_form ops (test_session_request parse (ascii ''https://www.googleapis.com/p'')))
       (\<lambda>request. show (req_uri request) = ascii ''/p'')"

definition origin_form_leaves_the_host_header_alone :: "('u, 'p) uri_ops \<Rightarrow> (bytes \<Rightarrow> 'u) \<Rightarrow> bool" where
  "origin_form_leaves_the_host_header_alone ops parse \<longleftrightarrow>
     unwrapped_ok (origin_form ops (test_session_request parse (ascii ''https://www.googleapis.com/oauth2/v3/certs'')))
       (\<lambda>request. uri_host ops (req_uri request) = None \<and>
          map_of (req_rest request) (ascii ''Host'') = Some (ascii ''www.googleapis.com''))"

definition session_tests ::
  "(bytes \<Rightarrow> bytes \<Rightarrow> ('c, 'cfg) commit_builder \<times> 'c) \<Rightarrow> ('cfg \<Rightarrow> (direction \<times> span \<times> hash_alg_id) list) \<Rightarrow>
   ('u, 'p) uri_ops \<Rightarrow> (bytes \<Rightarrow> 'u) \<Rightarrow> ('u \<Rightarrow> bytes) \<Rightarrow> bool list" where
  "session_tests builder_of iter_hash ops parse show =
     [every_commitment_this_prover_configures_is_sha256 builder_of iter_hash,
      the_session_length_counts_only_its_application_data,
      a_commitment_past_the_session_is_refused,
      a_commitment_the_session_carried_is_allowed,
      origin_form_keeps_path_and_query ops parse show,
      origin_form_keeps_a_bare_path ops parse show,
      origin_form_leaves_the_host_header_alone ops parse]"

section \<open>They pass\<close>

text \<open>A builder of a transcript starts empty, and takes a range inside its direction.\<close>

definition builder_takes ::
  "(bytes \<Rightarrow> bytes \<Rightarrow> ('c, 'cfg) commit_builder \<times> 'c) \<Rightarrow> ('c \<Rightarrow> hash_alg_id) \<Rightarrow>
   ('c \<Rightarrow> (direction \<times> span \<times> hash_alg_id) list) \<Rightarrow> ('cfg \<Rightarrow> (direction \<times> span \<times> hash_alg_id) list) \<Rightarrow> bool" where
  "builder_takes builder_of kind added contents \<longleftrightarrow>
     (\<forall>sent recv. case builder_of sent recv of (cb, builder) \<Rightarrow>
        builder_laws cb kind added contents \<and> added builder = [] \<and>
        (\<forall>dir r c. span_ok (length (case dir of Sent \<Rightarrow> sent | Received \<Rightarrow> recv)) r \<longrightarrow>
           (\<exists>c'. cb_commit cb dir r c = Inr c')) \<and>
        (\<forall>c. \<exists>cfg. cb_build cb c = Inr cfg))"

lemma commit_each_takes:
  assumes "\<forall>dir r c. span_ok (len dir) r \<longrightarrow> (\<exists>c'. cb_commit cb dir r c = Inr c')"
  shows "list_all (span_ok (len dir)) rs \<Longrightarrow> \<exists>c'. commit_each cb what dir rs c = Inr c'"
proof (induction rs arbitrary: c)
  case (Cons r rs)
  then obtain c1 where "cb_commit cb dir r c = Inr c1" using assms by fastforce
  with Cons show ?case by (auto simp: mpc_err_def)
qed simp

lemma config_takes:
  assumes "builder_takes builder_of kind added contents" and "builder_of sent recv = (cb, builder)"
    and "list_all (span_ok (length sent)) ss" and "list_all (span_ok (length recv)) rs"
  obtains cfg where "transcript_commit_config cb builder ss rs = Inr cfg"
    and "contents cfg = map (\<lambda>r. (Sent, r, SHA256)) ss @ map (\<lambda>r. (Received, r, SHA256)) rs"
proof -
  let ?len = "\<lambda>dir. length (case dir of Sent \<Rightarrow> sent | Received \<Rightarrow> recv)"
  have b: "builder_laws cb kind added contents" "added builder = []"
      "\<forall>dir r c. span_ok (?len dir) r \<longrightarrow> (\<exists>c'. cb_commit cb dir r c = Inr c')" "\<forall>c. \<exists>cfg. cb_build cb c = Inr cfg"
    using assms(1) [unfolded builder_takes_def, rule_format, of sent recv] unfolding assms(2) by blast+
  obtain c1 where c1: "commit_each cb ''commit sent'' Sent ss (cb_default_kind cb SHA256 builder) = Inr c1"
    using commit_each_takes [where len = ?len, OF b(3), of Sent ss] assms(3) by auto
  obtain c2 where c2: "commit_each cb ''commit recv'' Received rs c1 = Inr c2"
    using commit_each_takes [where len = ?len, OF b(3), of Received rs] assms(4) by auto
  obtain cfg where "cb_build cb c2 = Inr cfg" using b(4) by blast
  with c1 c2 have "transcript_commit_config cb builder ss rs = Inr cfg"
    by (simp add: transcript_commit_config_def mpc_err_def)
  then show ?thesis using transcript_commit_config_contents [OF b(1,2)] that by blast
qed

text \<open>A URI of the host is its path and query behind scheme and authority; the path and query alone print as they are.\<close>

definition https_uris :: "('u, 'p) uri_ops \<Rightarrow> (bytes \<Rightarrow> 'u) \<Rightarrow> ('u \<Rightarrow> bytes) \<Rightarrow> (bytes \<Rightarrow> 'p) \<Rightarrow> bool" where
  "https_uris ops parse show path \<longleftrightarrow> uri_laws ops \<and>
     (\<forall>t \<in> {ascii ''/p?q=1'', ascii ''/p'', ascii ''/oauth2/v3/certs''}.
        uri_path_and_query ops (parse (ascii ''https://www.googleapis.com'' @ t)) = Some (path t) \<and>
        (\<exists>u. uri_from_path ops (path t) = Inr u \<and> show u = t))"

lemma origin_form_of_path:
  assumes "https_uris ops parse show path"
    and "uri = ascii ''https://www.googleapis.com'' @ t" and "t \<in> {ascii ''/p?q=1'', ascii ''/p'', ascii ''/oauth2/v3/certs''}"
  obtains u where "origin_form ops (test_session_request parse uri) = Inr ((test_session_request parse uri)\<lparr>req_uri := u\<rparr>)"
    and "show u = t" and "uri_host ops u = None"
proof -
  have p: "uri_path_and_query ops (parse uri) = Some (path t)" and "\<exists>u. uri_from_path ops (path t) = Inr u \<and> show u = t"
    using assms(1) [unfolded https_uris_def, THEN conjunct2, rule_format, OF assms(3)] assms(2) by simp_all
  then obtain u where u: "uri_from_path ops (path t) = Inr u" "show u = t" by blast
  moreover have "uri_host ops u = None" using assms(1) u(1) by (auto simp: https_uris_def uri_laws_def)
  ultimately show ?thesis using that p by (simp add: origin_form_def test_session_request_def mpc_err_def)
qed

lemma session_tests_all:
  assumes b: "builder_takes builder_of kind added iter_hash" and u: "https_uris ops parse show path"
  shows "list_all (\<lambda>passes. passes) (session_tests builder_of iter_hash ops parse show)"
proof -
  have "every_commitment_this_prover_configures_is_sha256 builder_of iter_hash"
  proof -
    let ?sent = "ascii ''GET / HTTP/1.1'' @ crlf @ crlf" and ?recv = "ascii ''HTTP/1.1 200 OK'' @ crlf @ crlf @ ascii ''x''"
    obtain cb builder where cb: "builder_of ?sent ?recv = (cb, builder)" by fastforce
    obtain cfg where "transcript_commit_config cb builder [rng 0 4, rng 6 10] [rng 0 4, rng 6 10] = Inr cfg"
        "iter_hash cfg = map (\<lambda>r. (Sent, r, SHA256)) [rng 0 4, rng 6 10] @ map (\<lambda>r. (Received, r, SHA256)) [rng 0 4, rng 6 10]"
      by (rule config_takes [OF b cb, of "[rng 0 4, rng 6 10]" "[rng 0 4, rng 6 10]"])
         (simp_all add: span_ok_def crlf_def)
    with cb show ?thesis
      by (simp add: every_commitment_this_prover_configures_is_sha256_def unwrapped_ok_def)
  qed
  moreover have "the_session_length_counts_only_its_application_data"
    by (simp add: the_session_length_counts_only_its_application_data_def application_data_len_def test_tls_record_def)
  moreover have "a_commitment_past_the_session_is_refused" by (simp add: a_commitment_past_the_session_is_refused_def)
  moreover have "a_commitment_the_session_carried_is_allowed" by (simp add: a_commitment_the_session_carried_is_allowed_def)
  moreover have "origin_form_keeps_path_and_query ops parse show"
    by (rule origin_form_of_path [OF u, of "ascii ''https://www.googleapis.com/p?q=1''" "ascii ''/p?q=1''"])
       (simp_all add: ascii_def origin_form_keeps_path_and_query_def unwrapped_ok_def)
  moreover have "origin_form_keeps_a_bare_path ops parse show"
    by (rule origin_form_of_path [OF u, of "ascii ''https://www.googleapis.com/p''" "ascii ''/p''"])
       (simp_all add: ascii_def origin_form_keeps_a_bare_path_def unwrapped_ok_def)
  moreover have "origin_form_leaves_the_host_header_alone ops parse"
    by (rule origin_form_of_path [OF u, of "ascii ''https://www.googleapis.com/oauth2/v3/certs''" "ascii ''/oauth2/v3/certs''"])
       (simp_all add: ascii_def origin_form_leaves_the_host_header_alone_def unwrapped_ok_def test_session_request_def)
  ultimately show ?thesis by (simp add: session_tests_def)
qed

section \<open>A builder and URIs\<close>

definition checking_builder ::
  "bytes \<Rightarrow> bytes \<Rightarrow> (list_builder, (direction \<times> span \<times> hash_alg_id) list) commit_builder \<times> list_builder" where
  "checking_builder sent recv =
     (\<lparr>cb_default_kind = (\<lambda>alg (_, cs). (alg, cs)),
       cb_commit = (\<lambda>dir r (alg, cs). if span_ok (length (case dir of Sent \<Rightarrow> sent | Received \<Rightarrow> recv)) r
          then Inr (alg, cs @ [(dir, r, alg)]) else Inl []),
       cb_build = (\<lambda>(_, cs). Inr cs)\<rparr>, (OtherAlg 3, []))"

lemma checking_builder_takes: "builder_takes checking_builder fst snd (\<lambda>cs. cs)"
  by (auto simp: builder_takes_def builder_laws_def checking_builder_def split: if_splits)

text \<open>A URI as its host and what follows the authority; the host of the tests has 18 bytes behind \<open>https://\<close>.\<close>

definition split_uris :: "(bytes option \<times> bytes, bytes) uri_ops" where
  "split_uris = \<lparr>uri_host = fst, uri_path_and_query = (\<lambda>u. Some (snd u)), uri_from_path = (\<lambda>p. Inr (None, p)),
                 uri_default = (None, ascii ''/'')\<rparr>"

definition split_uri :: "bytes \<Rightarrow> bytes option \<times> bytes" where
  "split_uri s = (Some (take 18 (drop 8 s)), drop 26 s)"

lemma split_uris_https: "https_uris split_uris split_uri snd (\<lambda>p. p)"
  by (auto simp: https_uris_def uri_laws_def split_uris_def split_uri_def ascii_def)

lemma session_tests_instance:
  "list_all (\<lambda>passes. passes) (session_tests checking_builder (\<lambda>cs. cs) split_uris split_uri snd)"
  by (rule session_tests_all [OF checking_builder_takes split_uris_https])

end
