(* ===== verification/Spec2Isabelle.thy ===== *)
theory Spec2Isabelle
  imports Account_Record Prover Notary Capture_Main Fixture_Main
    Ranges_Tests Layouts_Tests One_Chunk Wire_Tests Attestation_Tests Token_Exchange_Tests Key_Vectors Attest_Tests Session_Tests
begin

text \<open>
  libid-rs proves facts about an account on a platform with a notarized TLS session. A prover
  runs the session together with a notary, chooses what of the transcript to reveal and what
  to commit, and the notary signs a record of what it observed. A contract on chain reads
  that record. The library below follows the five crates under \<open>src/crates/\<close> and the two example
  programs that run a whole ceremony with them.

  \<^bold>\<open>Parts and theories.\<close>

  \<^item> \<open>Prelude\<close>: bytes, machine integers as far as they matter, ranges, slice indexing, substring
    search (locale \<open>first_search\<close>), results as sums, encoders (locale \<open>self_delimiting\<close>).
  \<^item> \<open>Rust_Str\<close>: what the code uses of \<open>str\<close>: UTF-8 validity, \<open>trim\<close>, \<open>strip_prefix\<close>, \<open>split\<close>.
  \<^item> \<open>Chunked\<close>, \<open>Json_Members\<close>, \<open>Ranges\<close>: \<open>libid-transcript/src/ranges.rs\<close>. The chunked decoder, the
    scans over one JSON body, and the same members found in the bytes of a response. \<open>One_Chunk\<close>: what
    is found lies inside one chunk, unless its own text holds a CRLF. \<open>Head_Lines\<close>: the header search, line by line.
  \<^item> \<open>Layouts\<close>: \<open>libid-transcript/src/ceremony.rs\<close>. \<open>complement\<close>, \<open>revealing\<close> and the four layouts of
    the ceremony, with the locale \<open>tiling_constructor\<close> as the contract of a constructor.
  \<^item> \<open>Big_Endian\<close>, \<open>Wire\<close>: \<open>libid-transcript/src/wire.rs\<close>, length-prefixed messages on a stream.
  \<^item> \<open>Attestation\<close>, \<open>Token_Exchange\<close>: \<open>libid-ceremony\<close>. The record and its encoder; the bounds of
    the records of a token exchange.
  \<^item> \<open>Crypto\<close>: \<open>libid-crypto\<close>. EIP-191 signatures and their recovery.
  \<^item> \<open>Signer\<close>, \<open>Claims\<close>: \<open>libid-signer\<close>. Signer specifications, local and KMS signers; when the
    claims of a local one are those of \<open>libid-crypto\<close>.
  \<^item> \<open>Observed\<close>: \<open>libid-tlsn/src/attest.rs\<close>. The record of an observed session.
  \<^item> \<open>Session_Parts\<close>, \<open>Race\<close>, \<open>Prover\<close>, \<open>Notary\<close>: \<open>libid-tlsn/src/session.rs\<close>. The helpers; the race
    of the setup future against the driver task; \<open>prover_generic\<close>; \<open>verifier\<close>.
  \<^item> \<open>Base64\<close>, \<open>Ceremony_Common\<close>: \<open>libid-tlsn/examples/ceremony/common.rs\<close>. The authorization digest, the
    PKCE verifier and challenge, and the submission both programs write.
  \<^item> \<open>Form_Url\<close>, \<open>Redirect\<close>, \<open>Capture\<close>, \<open>Notarize\<close>, \<open>Capture_Main\<close>: \<open>examples/capture_ceremony.rs\<close>. Form
    encoding; the listener for the browser's redirect; arguments, URL and requests; one session
    notarized in process, which composes \<open>Prover\<close>, \<open>Notary\<close>, \<open>Observed\<close>, \<open>Attestation\<close> and \<open>Crypto\<close>; the
    program from its command line to the file it writes.
  \<^item> \<open>Fixture_Exchange\<close>, \<open>Fixtures\<close>, \<open>Fixture_Main\<close>: \<open>examples/ceremony_fixtures.rs\<close>. The scripted
    platform; the record built without the MPC and its openings; the four sessions and files.
  \<^item> \<open>Coverage\<close> and this theory: what holds across the parts, from the layout a prover selected
    to the block the notary signs, and from the exchanged token to the identity request.
    \<open>Record_Reads\<close>: what a reader of the record learns, the account it states and that nothing
    of a committed byte is in it but the value of its commitment. \<open>Account_Record\<close>: the identity
    session of a capture from its layouts to the signed record.
  \<^item> The tests beside the code, each as a predicate on the model with the conjunction of its
    assertions (\<open>Test_Text\<close>): \<open>Ranges_Tests\<close>, \<open>Layouts_Tests\<close> and \<open>Wire_Tests\<close> for \<open>libid-transcript\<close>,
    \<open>Attestation_Tests\<close> and \<open>Token_Exchange_Tests\<close> for \<open>libid-ceremony\<close>, \<open>Key_Tests\<close> and \<open>Key_Vectors\<close> for
    \<open>libid-crypto\<close> and \<open>libid-signer\<close>, \<open>Attest_Tests\<close> and \<open>Session_Tests\<close> for \<open>libid-tlsn\<close>. That the model passes them says that it
    is the program its authors describe; where a test fixes one profile, hash, stream or
    partial transcript, the model's test holds for every one with the properties used, and where it
    pins a value of Keccak or the curve, for every one with the values published.

  \<^bold>\<open>How the code is represented.\<close> A struct is a record and an enum a datatype, with the names of the
  source. Bytes are \<open>8 word\<close>, \<open>u32\<close> and \<open>u64\<close> fields are \<open>32 word\<close> and \<open>64 word\<close>. A \<open>usize\<close> is a natural
  number, and \<open>checked_add\<close>, \<open>try_from\<close> and the \<open>u32\<close> conversions carry their bounds: lengths of
  slices are at most \<open>isize_max\<close> where that matters (\<open>slice_ok\<close>). A \<open>Result\<close> is \<open>error + 'a\<close>, an
  \<open>Option\<close> an option; a panic of an index is a value of its own (\<open>IndexPanic\<close>) or an option.
  Strings are their UTF-8 bytes. \<open>?\<close> is \<open>and_then\<close>, \<open>map_err\<close> is itself.

  An \<open>async\<close> function of the session driver is a \<open>run\<close>: the events it performs in order, with its
  result. \<open>Race\<close> interleaves such a run with the driver task: each step of \<open>race_step\<close> is a
  branch of the biased \<open>select!\<close>, the end of the driver, or the caller dropping the future.
  Invariants are proved by rule induction over \<open>reach\<close>, and every step decreases \<open>remaining\<close>, so no
  interleaving runs forever. An await that never resolves and a driver that never ends are the
  two arguments of \<open>stalled_step\<close>, the race of a caller that keeps the future; \<open>rests\<close> names the
  states in which it waits.

  \<^bold>\<open>Loops and bounds.\<close> Loops are structural recursion on the bytes left or on the list walked.
  \<open>decode_chunks\<close>, \<open>skip_json_whitespace\<close>, \<open>key_and_value_from\<close>, \<open>trim\<close>, \<open>form_decode_loop\<close>, \<open>chunks\<close> and the lossy
  decoding recurse with a termination proof, on the bytes that remain. There is no fuel. The
  loops that wait for the outside (\<open>receive_code\<close>, the scripted \<open>serve\<close>) are recursion on the
  connections or reads that arrive; \<open>receive_code\<close> has no result while none consents. A race of
  a run of n events takes at most n + 3 steps, wherever it stalls (\<open>race_terminates\<close>).

  \<^bold>\<open>Parameters.\<close> Code outside the repository is an argument, with what the code relies on as a named
  predicate: \<open>httparse::parse_chunk_size\<close> (\<open>chunk_size_parser\<close>), \<open>bincode\<close> (\<open>big_endian_fixint\<close>), \<open>serde_json\<close>
  (the codec of \<open>Wire\<close>), \<open>k256\<close> (\<open>ecdsa_laws\<close>), \<open>hex\<close> (\<open>hex_laws\<close>), \<open>alloy\<close> (\<open>alloy_laws\<close>), the \<open>tlsn\<close> commitment
  builder (\<open>builder_laws\<close>), \<open>hyper::Uri\<close> (\<open>uri_laws\<close>), Keccak-256, the AWS client, and the session of \<open>tlsn\<close>
  (the fields of \<open>prover_env\<close> and \<open>verifier_env\<close>, which are results that any call may return). For the
  examples also \<open>tlsn\<close>'s proof configuration, partial transcripts and plaintext hash
  (\<open>fixture_laws\<close>), the request builder, \<open>hyper\<close>'s client as the reads its peer gets, the JSON parser,
  SHA-256, the clock and the table of profiles. Each
  predicate has an instance that satisfies it, used by the witnesses.

  \<^bold>\<open>What the theorems show.\<close> Layouts: every layout a constructor returns partitions its transcript, with two
  exceptions stated exactly, and what each reveals and commits (\<open>Layouts\<close>). Scans: exact characterisations of what is found, equal on raw
  and decoded bytes (\<open>Chunked\<close>, \<open>Json_Members\<close>, \<open>Ranges\<close>). Records: the encoding is the documented
  layout, decodes in one pass and is unambiguous (\<open>Attestation\<close>); a record exists exactly when the
  format can describe the session (\<open>Observed\<close>); the identity record states the id and the handle of
  the decoded body, and two sessions that differ in committed bytes only get records that
  differ in commitment values only (\<open>Record_Reads\<close>, a statement about two runs). Signatures: produced claims recover to their key
  (\<open>Crypto\<close>), what a signer specification is taken for (\<open>Signer\<close>). Sessions: the prover returns a result
  exactly when every stage succeeded, with the events of a complete session; no task outlives it
  but one cut off while being joined, a dead driver ends it, nothing is sent that was not
  chosen, nothing is accepted unchecked, and where a session does not return it waits for a peer
  (\<open>Race\<close>, \<open>Prover\<close>, \<open>Notary\<close>).
  Programs: a written capture can be verified from its file alone (\<open>Capture_Main\<close>), its
  records cover the layouts chosen (\<open>Notarize\<close>), GitHub's request hides the secret and nothing
  else (\<open>Capture\<close>), the consent asked for is the one accepted (\<open>Redirect\<close>), and the fixtures'
  commitments open (\<open>Fixtures\<close>).

  \<^bold>\<open>Not modelled.\<close> Of the example programs the file system, the sockets and the texts they print: a
  program's result is the file it writes. Log output; the generated profile table, whose
  values are arguments. Of the tests, the one that compares constants of two other crates
  (\<open>tables::the_two_tables_name_the_same_platforms\<close>), and the two that run sessions over sockets
  under \<open>tests/\<close>. Text that comes
  from the error of another crate is an argument of the error that quotes it.
\<close>

section \<open>A layout, observed and recorded\<close>

definition bearer_session :: observed_session where
  "bearer_session = \<lparr>
     obs_transcript = \<lparr>len_sent = 34, len_received = 0, sent_authed = [rng 0 27, rng 30 34], received_authed = [],
       sent_unsafe = take 27 bearer_sample @ [0, 0, 0] @ drop 30 bearer_sample, received_unsafe = []\<rparr>,
     obs_authority = ascii ''api.x.com'', obs_commitments = [HashCommitment (sample_hash Sent 27 30)],
     obs_created_at = 7\<rparr>"

lemma bearer_session_observes:
  "observes Sent \<lparr>reveal = [rng 0 27, rng 30 34], commit = [rng 27 30]\<rparr> bearer_sample bearer_session"
  by (simp add: observes_def Let_def bearer_session_def bearer_sample_def bearer_prefix_def ascii_def crlf_def
      authed_of_def unsafe_of_def in_slice_def covered_def covers_def upt_rec sample_hash_def)

text \<open>C2. From the prover's layout to the notary's record: a session observed under a layout that one
  of the four constructors returned (\<open>constructed\<close>: a request that does not start with its secret,
  members that do not overlap) has a block whenever the transcript is shorter than 2^32
  and the hashes are SHA-256, whatever order the commitments arrive in; the ranges and
  commitments of that block tile the transcript, what it reveals are the bytes the layout
  reveals, and what it commits is what the layout commits. This is the coverage the Platform
  Verifier checks.\<close>
theorem constructed_layout_is_recorded:
  assumes "constructed data l" and "observes dir l data session" and "sha256_hashes dir session"
    and "length data < 2 ^ 32"
  shows "\<exists>b. block_from_observed session dir = Inr b \<and> tiles_from 0 (block_spans b) (length data) \<and>
    list_all (\<lambda>r. rev_bytes r = slice data (rev_span r)) (blk_revealed b) \<and>
    list_all (\<lambda>i. covered i (map rev_span (blk_revealed b)) = covered i (reveal l)) [0..<length data] \<and>
    mset (map com_span (blk_commitments b)) = mset (commit l)"
proof -
  note t = constructed_tiles [OF assms(1)] and r = observed_reveals [OF assms(2,4)]
  note b = observed_block [OF assms(2,3) t assms(4)]
  have "list_all (\<lambda>r. rev_bytes r = slice data (rev_span r)) (blk_revealed (block_of session dir))"
    using r by (auto simp: list_all_iff block_of_def rev_span_revealed_of) (auto simp: revealed_of_def)
  moreover have "list_all (\<lambda>i. covered i (authed_of dir (obs_transcript session)) = covered i (reveal l)) [0..<length data]"
    using assms(2) by (simp add: observes_def Let_def)
  ultimately show ?thesis using b(1,3,4) unfolding b(2) [symmetric] by blast
qed

theorem constructed_layout_is_recorded_witness:
  "\<exists>b. block_from_observed bearer_session Sent = Inr b \<and> tiles_from 0 (block_spans b) 34"
proof -
  have "constructed bearer_sample \<lparr>reveal = [rng 0 27, rng 30 34], commit = [rng 27 30]\<rparr>"
    by (rule constructed.identity_request [OF bearer_sample_layout])
  moreover have "sha256_hashes Sent bearer_session"
    by (simp add: sha256_hashes_def bearer_session_def sample_hash_def)
  moreover have "length bearer_sample = 34" by (simp add: bearer_sample_def length_bearer_prefix)
  ultimately show ?thesis
    using constructed_layout_is_recorded [OF _ bearer_session_observes] by fastforce
qed

section \<open>The record of a session, encoded\<close>

text \<open>Every record the notary builds can be signed and read back: encoding the record of a session
  cannot fail, one forward pass decodes it, and the decoded record is the function
  \<open>record_of\<close> of what was observed, so nothing the notary was merely told is in it.\<close>
theorem observed_record_roundtrip:
  assumes "from_observed keccak256 session = Inr d" and "big_endian_fixint cfg"
    and "\<And>bs. length (keccak256 bs) = 32"
    and "\<And>dir. slice_ok (unsafe_of dir (obs_transcript session)) \<and> slice_ok (authed_of dir (obs_transcript session))"
    and "slice_ok (obs_commitments session)"
  shows "\<exists>bs. encode_attested cfg d = Inr bs \<and> dec_attested (bs @ rest) = Some (record_of keccak256 session, rest)"
  using record_decodes(1,2) [OF assms] by blast

theorem observed_record_roundtrip_witness:
  "\<exists>bs. encode_attested wire_config (record_of (\<lambda>_. replicate 32 5) sample_session) = Inr bs \<and>
     dec_attested (bs @ [1]) = Some (record_of (\<lambda>_. replicate 32 5) sample_session, [1])"
proof -
  have "from_observed (\<lambda>_. replicate 32 5) sample_session = Inr (record_of (\<lambda>_. replicate 32 5) sample_session)"
    using sample_describable by (simp add: from_observed_eq)
  moreover have "slice_ok (unsafe_of dir (obs_transcript sample_session)) \<and> slice_ok (authed_of dir (obs_transcript sample_session))" for dir
    by (cases dir) (simp_all add: sample_session_def unsafe_of_def authed_of_def isize_max_def)
  moreover have "slice_ok (obs_commitments sample_session)" by (simp add: sample_session_def isize_max_def)
  ultimately show ?thesis using observed_record_roundtrip [OF _ wire_config_fixint] by fastforce
qed

section \<open>The exchanged token in the identity request\<close>

text \<open>C31. A token the exchange accepted is hidden whole by the identity session: in a request whose
  first bearer header carries the access token of a validated response, the identity layout
  commits exactly that token, as one run of its own, and reveals everything around it.
  Visible ASCII is what makes it so: the token cannot hold the CRLF that ends it.\<close>
theorem validated_token_is_committed:
  assumes "validate_response r = Inr ()"
    and "sent = before @ bearer_prefix @ access_token r @ crlf @ after"
    and "\<And>j. j < length before \<Longrightarrow> \<not> occurs_at bearer_prefix sent j"
  shows "\<exists>c. identity_request sent =
      Inr \<lparr>reveal = [rng 0 (sp_start c), rng (sp_end c) (length sent)], commit = [c]\<rparr> \<and>
    slice sent c = access_token r \<and> sp_start c = length (before @ bearer_prefix)"
proof -
  let ?a = "length (before @ bearer_prefix)" and ?t = "access_token r"
  have "?t \<noteq> []" "list_all printable ?t" using token_accepted [OF assms(1)] by simp_all
  from token_run [OF this assms(2,3)]
  have "identity_request sent = Inr (bearer_layout ?a (length ?t) (length sent))" .
  moreover have "slice sent (rng ?a (?a + length ?t)) = ?t" by (simp add: slice_def assms(2))
  ultimately show ?thesis by (intro exI [of _ "rng ?a (?a + length ?t)"]) (simp add: bearer_layout_def)
qed

theorem validated_token_is_committed_witness:
  "identity_request bearer_sample = Inr \<lparr>reveal = [rng 0 27, rng 30 34], commit = [rng 27 30]\<rparr> \<and>
   slice bearer_sample (rng 27 30) = ascii ''tok''"
proof -
  let ?r = "\<lparr>access_token = ascii ''tok'', attestation_of = \<lparr>attested_bytes = [1], signature = replicate 65 0\<rparr>,
            bearer_opening = replicate 16 0\<rparr>"
  have "validate_response ?r = Inr ()" by (simp add: eval)
  moreover have "bearer_sample = ascii ''GET'' @ bearer_prefix @ access_token ?r @ crlf @ crlf"
    by (simp add: bearer_sample_def)
  moreover have "\<not> occurs_at bearer_prefix bearer_sample j" if "j < length (ascii ''GET'')" for j
  proof -
    have "j = 0 \<or> j = 1 \<or> j = 2" using that by auto
    then show ?thesis by (auto simp: occurs_at_def bearer_sample_def bearer_prefix_def ascii_def crlf_def)
  qed
  ultimately show ?thesis
    using validated_token_is_committed [of ?r bearer_sample "ascii ''GET''" crlf] bearer_sample_layout
    by (auto simp: length_bearer_prefix)
qed

end
